(* ===== verification/Brokkr_Prelude.thy ===== *)
theory Brokkr_Prelude
  imports Main "HOL-Library.List_Lexorder" "HOL-Library.Char_ord" "HOL-Library.Word"
begin

text \<open>
  Shared vocabulary of the development: Rust's \<open>u64\<close> arithmetic on natural numbers,
  \<open>Result\<close> as a sum type, decimal printing, little-endian integers, and the ordered
  tables (\<open>BTreeMap\<close>, \<open>HashMap\<close>, a redb table) as association lists sorted by key,
  together with the interface those tables offer to the components.
\<close>

named_theorems config_simps \<open>facts about membership configurations\<close>
named_theorems table_simps \<open>lookup facts about ordered tables\<close>

section \<open>Machine integers\<close>

text \<open>
  A \<open>u64\<close> is a natural number below \<open>2 ^ 64\<close>; every operation that can leave that range
  writes out what Rust does there (saturation, or the wrap-around of a release build).
\<close>

definition u64_max :: nat where
  "u64_max = 2 ^ 64 - 1"

definition sat_add :: "nat \<Rightarrow> nat \<Rightarrow> nat" where
  "sat_add a b = min (a + b) u64_max"

definition sat_sub :: "nat \<Rightarrow> nat \<Rightarrow> nat" where
  "sat_sub a b = a - b"

definition wrap_add :: "nat \<Rightarrow> nat \<Rightarrow> nat" where
  "wrap_add a b = (a + b) mod 2 ^ 64"

lemma u64_max_eq: "u64_max = 18446744073709551615"
  by (simp add: u64_max_def)

lemma sat_add_le_max: "sat_add a b \<le> u64_max"
  by (simp add: sat_add_def)

lemma sat_add_exact: "a + b \<le> u64_max \<Longrightarrow> sat_add a b = a + b"
  by (simp add: sat_add_def)

lemma sat_add_mono: "a \<le> u64_max \<Longrightarrow> a \<le> sat_add a b"
  by (simp add: sat_add_def)

lemma wrap_add_exact: "a + b \<le> u64_max \<Longrightarrow> wrap_add a b = a + b"
  by (simp add: wrap_add_def u64_max_def)

section \<open>Results, decimal text and little-endian integers\<close>

type_synonym byte = "8 word"

type_synonym bytes = "byte list"

text \<open>\<open>iter().map(f).collect::<Result<Vec<_>, _>>()\<close>: the first error wins.\<close>

fun collect_results :: "('a \<Rightarrow> 'e + 'b) \<Rightarrow> 'a list \<Rightarrow> 'e + 'b list" where
  "collect_results f [] = Inr []"
| "collect_results f (x # xs) =
     (case f x of
        Inl e \<Rightarrow> Inl e
      | Inr y \<Rightarrow> (case collect_results f xs of Inl e \<Rightarrow> Inl e | Inr ys \<Rightarrow> Inr (y # ys)))"

lemma collect_results_map:
  "(\<And>x. x \<in> set xs \<Longrightarrow> f (g x) = Inr x) \<Longrightarrow> collect_results f (map g xs) = Inr xs"
  by (induction xs) auto

lemma collect_results_Inr_length: "collect_results f xs = Inr ys \<Longrightarrow> length ys = length xs"
  by (induction xs arbitrary: ys) (auto split: sum.splits)

lemma collect_results_Inr_set:
  "collect_results f xs = Inr ys \<Longrightarrow> y \<in> set ys \<Longrightarrow> \<exists>x \<in> set xs. f x = Inr y"
  by (induction xs arbitrary: ys) (auto split: sum.splits)

lemma collect_results_all_Inr:
  "(\<And>x. x \<in> set xs \<Longrightarrow> \<exists>y. f x = Inr y) \<Longrightarrow> \<exists>ys. collect_results f xs = Inr ys"
proof (induction xs)
  case Nil
  then show ?case by simp
next
  case (Cons x xs)
  then obtain y ys where "f x = Inr y" "collect_results f xs = Inr ys" by fastforce
  then show ?case by simp
qed

text \<open>Decimal text, as \<open>Display\<close> prints an unsigned integer.\<close>

fun show_nat :: "nat \<Rightarrow> string" where
  "show_nat n =
     (if n < 10 then [char_of (48 + n)] else show_nat (n div 10) @ [char_of (48 + n mod 10)])"

declare show_nat.simps [simp del]

definition show_int :: "int \<Rightarrow> string" where
  "show_int i = (if i < 0 then ''-'' @ show_nat (nat (- i)) else show_nat (nat i))"

text \<open>\<open>to_le_bytes\<close> and \<open>from_le_bytes\<close> for an integer of \<open>k\<close> bytes.\<close>

fun to_le_bytes :: "nat \<Rightarrow> nat \<Rightarrow> byte list" where
  "to_le_bytes 0 n = []"
| "to_le_bytes (Suc k) n = word_of_nat (n mod 256) # to_le_bytes k (n div 256)"

fun from_le_bytes :: "byte list \<Rightarrow> nat" where
  "from_le_bytes [] = 0"
| "from_le_bytes (b # bs) = unat b + 256 * from_le_bytes bs"

lemma length_to_le_bytes [simp]: "length (to_le_bytes k n) = k"
  by (induction k arbitrary: n) auto

lemma from_to_le_bytes: "from_le_bytes (to_le_bytes k n) = n mod 256 ^ k"
proof (induction k arbitrary: n)
  case 0
  then show ?case by simp
next
  case (Suc k)
  have "unat (word_of_nat (n mod 256) :: byte) = n mod 256"
    by (simp add: unat_of_nat)
  then show ?case
    using Suc by (simp add: mod_mult2_eq)
qed

lemma from_le_bytes_bound: "from_le_bytes bs < 256 ^ length bs"
proof (induction bs)
  case Nil
  then show ?case by simp
next
  case (Cons b bs)
  have "unat b < 256" using unsigned_less [of b] by simp
  with Cons show ?case by simp
qed

lemma from_to_le_bytes_u64: "n \<le> u64_max \<Longrightarrow> from_le_bytes (to_le_bytes 8 n) = n"
  by (simp add: from_to_le_bytes u64_max_def)

section \<open>Ordered tables\<close>

text \<open>
  A Rust map is an association list in strictly ascending key order. The components read
  and write it through these operations only.
\<close>

type_synonym ('k, 'v) table = "('k \<times> 'v) list"

fun tbl_insert :: "'k::linorder \<Rightarrow> 'v \<Rightarrow> ('k, 'v) table \<Rightarrow> ('k, 'v) table" where
  "tbl_insert k v [] = [(k, v)]"
| "tbl_insert k v (p # ps) =
     (if fst p < k then p # tbl_insert k v ps
      else if fst p = k then (k, v) # ps
      else (k, v) # p # ps)"

definition tbl_get :: "('k, 'v) table \<Rightarrow> 'k \<Rightarrow> 'v option" where
  "tbl_get = map_of"

definition tbl_retain :: "('k \<Rightarrow> 'v \<Rightarrow> bool) \<Rightarrow> ('k, 'v) table \<Rightarrow> ('k, 'v) table" where
  "tbl_retain P t = filter (\<lambda>(k, v). P k v) t"

definition tbl_remove :: "'k \<Rightarrow> ('k, 'v) table \<Rightarrow> ('k, 'v) table" where
  "tbl_remove k t = tbl_retain (\<lambda>k' _. k' \<noteq> k) t"

definition tbl_range_from :: "'k::linorder \<Rightarrow> ('k, 'v) table \<Rightarrow> ('k, 'v) table" where
  "tbl_range_from k t = tbl_retain (\<lambda>k' _. k \<le> k') t"

definition tbl_first :: "('k, 'v) table \<Rightarrow> ('k \<times> 'v) option" where
  "tbl_first t = (case t of [] \<Rightarrow> None | p # _ \<Rightarrow> Some p)"

definition tbl_last :: "('k, 'v) table \<Rightarrow> ('k \<times> 'v) option" where
  "tbl_last t = (if t = [] then None else Some (last t))"

definition tbl_keys :: "('k, 'v) table \<Rightarrow> 'k set" where
  "tbl_keys t = set (map fst t)"

definition tbl_wf :: "('k::linorder, 'v) table \<Rightarrow> bool" where
  "tbl_wf t \<longleftrightarrow> sorted_wrt (<) (map fst t)"

lemma tbl_wf_Nil [simp]: "tbl_wf []"
  by (simp add: tbl_wf_def)

lemma tbl_wf_Cons: "tbl_wf (p # ps) \<longleftrightarrow> (\<forall>q \<in> set ps. fst p < fst q) \<and> tbl_wf ps"
  by (auto simp: tbl_wf_def)

lemma tbl_wf_append:
  "tbl_wf (ps @ qs) \<longleftrightarrow> tbl_wf ps \<and> tbl_wf qs \<and> (\<forall>p \<in> set ps. \<forall>q \<in> set qs. fst p < fst q)"
  by (auto simp: tbl_wf_def sorted_wrt_append)

lemma tbl_wf_distinct: "tbl_wf t \<Longrightarrow> distinct (map fst t)"
  by (induction t) (auto simp: tbl_wf_Cons)

lemma set_tbl_insert: "set (tbl_insert k v t) \<subseteq> insert (k, v) (set t)"
  by (induction t) auto

lemma tbl_insert_above: "(\<forall>p \<in> set t. fst p < k) \<Longrightarrow> tbl_insert k v t = t @ [(k, v)]"
  by (induction t) auto

lemma keys_tbl_insert: "fst ` set (tbl_insert k v t) = insert k (fst ` set t)"
  by (induction t) auto

lemma tbl_wf_insert [simp]: "tbl_wf t \<Longrightarrow> tbl_wf (tbl_insert k v t)"
proof (induction t)
  case Nil
  then show ?case by (simp add: tbl_wf_def)
next
  case (Cons p ps)
  then have less: "\<forall>q \<in> set ps. fst p < fst q" and wf: "tbl_wf ps"
    by (auto simp: tbl_wf_Cons)
  have keys: "fst q = k \<or> fst q \<in> fst ` set ps" if "q \<in> set (tbl_insert k v ps)" for q
    using that keys_tbl_insert [of k v ps] by (metis imageI insertE)
  have wf': "tbl_wf (tbl_insert k v ps)" using Cons.IH wf by simp
  show ?case
  proof (cases "fst p < k")
    case True
    then have "\<forall>q \<in> set (tbl_insert k v ps). fst p < fst q"
      using keys less by fastforce
    with True wf' show ?thesis by (simp add: tbl_wf_Cons)
  next
    case False
    with less wf show ?thesis by (auto simp: tbl_wf_Cons)
  qed
qed

lemma tbl_get_Nil [simp]: "tbl_get [] = Map.empty"
  by (simp add: tbl_get_def)

lemma tbl_get_Cons: "tbl_get (p # ps) k = (if fst p = k then Some (snd p) else tbl_get ps k)"
  by (cases p) (auto simp: tbl_get_def)

lemma tbl_get_insert [table_simps]: "tbl_get (tbl_insert k v t) = (tbl_get t)(k \<mapsto> v)"
  by (induction t) (auto simp: tbl_get_Cons fun_eq_iff)

lemma tbl_get_retain [table_simps]:
  "tbl_wf t \<Longrightarrow>
   tbl_get (tbl_retain P t) k = (case tbl_get t k of Some v \<Rightarrow> if P k v then Some v else None | None \<Rightarrow> None)"
proof (induction t)
  case Nil
  then show ?case by (simp add: tbl_retain_def)
next
  case (Cons p ps)
  have "tbl_get ps k = None" if "fst p = k"
    using Cons.prems that by (auto simp: tbl_wf_Cons tbl_get_def map_of_eq_None_iff)
  with Cons show ?case
    by (auto simp: tbl_retain_def tbl_get_Cons tbl_wf_Cons split: prod.splits option.splits)
qed

lemma tbl_wf_retain [simp]: "tbl_wf t \<Longrightarrow> tbl_wf (tbl_retain P t)"
  by (induction t) (auto simp: tbl_wf_Cons tbl_retain_def)

lemma tbl_wf_remove [simp]: "tbl_wf t \<Longrightarrow> tbl_wf (tbl_remove k t)"
  by (simp add: tbl_remove_def)

lemma tbl_get_remove [table_simps]: "tbl_wf t \<Longrightarrow> tbl_get (tbl_remove k t) = (tbl_get t)(k := None)"
  by (auto simp: tbl_remove_def tbl_get_retain fun_eq_iff split: option.splits)

lemma tbl_get_None_iff: "tbl_get t k = None \<longleftrightarrow> k \<notin> tbl_keys t"
  by (simp add: tbl_get_def tbl_keys_def map_of_eq_None_iff image_iff)

lemma tbl_get_Some_iff: "tbl_wf t \<Longrightarrow> tbl_get t k = Some v \<longleftrightarrow> (k, v) \<in> set t"
  by (simp add: tbl_get_def tbl_wf_distinct)

lemma tbl_get_SomeD: "tbl_get t k = Some v \<Longrightarrow> (k, v) \<in> set t"
  by (simp add: tbl_get_def map_of_SomeD)

lemma tbl_keys_Some_iff: "k \<in> tbl_keys t \<longleftrightarrow> (\<exists>v. tbl_get t k = Some v)"
  using tbl_get_None_iff [of t k] by auto

lemma tbl_keys_insert [simp]: "tbl_keys (tbl_insert k v t) = insert k (tbl_keys t)"
  using keys_tbl_insert [of k v t] by (simp add: tbl_keys_def)

text \<open>A table is determined by its contents, so two ways of building it can be compared.\<close>

lemma tbl_ext:
  assumes "tbl_wf s" "tbl_wf t" "tbl_get s = tbl_get t"
  shows "s = t"
proof (rule map_sorted_distinct_set_unique [where f = fst])
  have "p \<in> set s \<longleftrightarrow> p \<in> set t" for p
    using tbl_get_Some_iff [OF assms(1), of "fst p" "snd p"]
      tbl_get_Some_iff [OF assms(2), of "fst p" "snd p"] assms(3) by simp
  then show same: "set s = set t" by blast
  show "inj_on fst (set s \<union> set t)"
    using tbl_wf_distinct [OF assms(1)] same by (simp add: distinct_map)
qed (use assms in \<open>auto simp: tbl_wf_def strict_sorted_iff\<close>)

section \<open>The interface of an ordered table\<close>

text \<open>
  What the components rely on: a table holds what was inserted last under a key, and no
  operation breaks its order. Batch writes are folds of single writes, and their effect is
  derived once here.
\<close>

locale ordered_table =
  fixes wf :: "'t \<Rightarrow> bool"
    and empty :: 't
    and get :: "'t \<Rightarrow> 'k \<Rightarrow> 'v option"
    and ins :: "'k \<Rightarrow> 'v \<Rightarrow> 't \<Rightarrow> 't"
    and rem :: "'k \<Rightarrow> 't \<Rightarrow> 't"
  assumes wf_empty: "wf empty"
    and get_empty: "get empty k = None"
    and wf_ins: "wf t \<Longrightarrow> wf (ins k v t)"
    and get_ins: "wf t \<Longrightarrow> get (ins k v t) = (get t)(k \<mapsto> v)"
    and wf_rem: "wf t \<Longrightarrow> wf (rem k t)"
    and get_rem: "wf t \<Longrightarrow> get (rem k t) = (get t)(k := None)"
    and extensional: "wf s \<Longrightarrow> wf t \<Longrightarrow> get s = get t \<Longrightarrow> s = t"
begin

lemma wf_fold_ins: "wf t \<Longrightarrow> wf (fold (\<lambda>(k, v). ins k v) ps t)"
  by (induction ps arbitrary: t) (auto simp: wf_ins)

lemma get_fold_ins: "wf t \<Longrightarrow> get (fold (\<lambda>(k, v). ins k v) ps t) = get t ++ map_of (rev ps)"
  by (induction ps arbitrary: t) (auto simp: wf_ins get_ins map_add_def fun_eq_iff split: option.splits)

lemma wf_fold_rem: "wf t \<Longrightarrow> wf (fold rem ks t)"
  by (induction ks arbitrary: t) (auto simp: wf_rem)

lemma get_fold_rem: "wf t \<Longrightarrow> get (fold rem ks t) = (\<lambda>k. if k \<in> set ks then None else get t k)"
  by (induction ks arbitrary: t) (auto simp: wf_rem get_rem fun_eq_iff)

lemma ins_overwrites: "wf t \<Longrightarrow> ins k v (ins k u t) = ins k v t"
  by (rule extensional) (auto simp: wf_ins get_ins)

lemma ins_commute: "wf t \<Longrightarrow> j \<noteq> k \<Longrightarrow> ins j u (ins k v t) = ins k v (ins j u t)"
  by (rule extensional) (auto simp: wf_ins get_ins)

lemma rem_ins_absent: "wf t \<Longrightarrow> get t k = None \<Longrightarrow> rem k (ins k v t) = t"
  by (rule extensional) (auto simp: wf_ins wf_rem get_ins get_rem fun_eq_iff)

lemma rem_absent: "wf t \<Longrightarrow> get t k = None \<Longrightarrow> rem k t = t"
  by (rule extensional) (auto simp: wf_rem get_rem fun_eq_iff)

end

interpretation tbl: ordered_table tbl_wf "[]" tbl_get tbl_insert tbl_remove
  by unfold_locales (auto simp: table_simps tbl_ext)

end
