(* ===== verification/Raft_Types.thy ===== *)
theory Raft_Types
  imports Brokkr_Prelude
begin

text \<open>
  The Raft newtypes and the replicated log entry (\<open>brokkr-raft/src/types.rs\<close>, \<open>error.rs\<close>,
  \<open>state.rs\<close>): terms and log indices with their saturating steps, validated node ids,
  cluster configurations with the joint-consensus quorum rule, entry payloads, hard state,
  and the conversions between these values and their protobuf messages.
\<close>

section \<open>Errors, terms, indices and node ids\<close>

datatype raft_error =
    InvalidNodeId string
  | Storage string
  | Codec string
  | Transport string
  | UnknownPeer string
  | NotLeader "string option"
  | SnapshotError string
  | ConfChange string

type_synonym raft_term = nat
type_synonym log_index = nat
type_synonym node_id = string

definition term_next :: "raft_term \<Rightarrow> raft_term" where
  "term_next t = sat_add t 1"

definition index_next :: "log_index \<Rightarrow> log_index" where
  "index_next i = sat_add i 1"

definition index_prev :: "log_index \<Rightarrow> log_index" where
  "index_prev i = sat_sub i 1"

definition NODE_ID_MAX_LEN :: nat where
  "NODE_ID_MAX_LEN = 128"

definition node_id_new :: "string \<Rightarrow> raft_error + node_id" where
  "node_id_new inner =
     (if inner = [] then Inl (InvalidNodeId ''empty'')
      else if length inner > NODE_ID_MAX_LEN
        then Inl (InvalidNodeId (''exceeds 128 bytes: got '' @ show_nat (length inner)))
      else Inr inner)"

lemma term_next_greater: "t < u64_max \<Longrightarrow> t < term_next t"
  by (simp add: term_next_def sat_add_def)

lemma index_next_exact: "i < u64_max \<Longrightarrow> index_next i = Suc i"
  by (simp add: index_next_def sat_add_def)

lemma index_prev_Suc [simp]: "index_prev (Suc i) = i"
  by (simp add: index_prev_def sat_sub_def)

lemma index_prev_eq: "index_prev i = i - 1"
  by (simp add: index_prev_def sat_sub_def)

definition valid_node_id :: "node_id \<Rightarrow> bool" where
  "valid_node_id n \<longleftrightarrow> n \<noteq> [] \<and> length n \<le> NODE_ID_MAX_LEN"

lemma node_id_new_Inr_iff: "node_id_new s = Inr n \<longleftrightarrow> n = s \<and> valid_node_id s"
  by (auto simp: node_id_new_def valid_node_id_def)

section \<open>Cluster configurations\<close>

record cluster_config =
  voters :: "node_id set"
  old_voters :: "node_id set option"
  learners :: "node_id set"

definition config_default :: cluster_config where
  "config_default = \<lparr>voters = {}, old_voters = None, learners = {}\<rparr>"

definition config_single :: "node_id set \<Rightarrow> cluster_config" where
  "config_single vs = \<lparr>voters = vs, old_voters = None, learners = {}\<rparr>"

definition is_joint :: "cluster_config \<Rightarrow> bool" where
  "is_joint c \<longleftrightarrow> old_voters c \<noteq> None"

definition majority :: "node_id set \<Rightarrow> node_id set \<Rightarrow> bool" where
  "majority vs acks \<longleftrightarrow> vs \<noteq> {} \<and> card {v \<in> vs. v \<in> acks} * 2 > card vs"

definition has_quorum :: "cluster_config \<Rightarrow> node_id set \<Rightarrow> bool" where
  "has_quorum c acks \<longleftrightarrow>
     majority (voters c) acks \<and>
     (case old_voters c of None \<Rightarrow> True | Some old \<Rightarrow> majority old acks)"

text \<open>A configuration the process can hold: every \<open>BTreeSet\<close> in it is finite.\<close>

definition config_finite :: "cluster_config \<Rightarrow> bool" where
  "config_finite c \<longleftrightarrow>
     finite (voters c) \<and> finite (learners c) \<and>
     (case old_voters c of None \<Rightarrow> True | Some old \<Rightarrow> finite old)"

lemma majority_mono: "finite vs \<Longrightarrow> majority vs A \<Longrightarrow> A \<subseteq> B \<Longrightarrow> majority vs B"
proof -
  assume "finite vs" "majority vs A" "A \<subseteq> B"
  moreover from this have "card {v \<in> vs. v \<in> A} \<le> card {v \<in> vs. v \<in> B}"
    by (intro card_mono) auto
  ultimately show ?thesis by (auto simp: majority_def)
qed

lemma majority_intersect:
  assumes "finite vs" "majority vs A" "majority vs B"
  shows "\<exists>v \<in> vs. v \<in> A \<and> v \<in> B"
proof (rule ccontr)
  let ?a = "{v \<in> vs. v \<in> A}" and ?b = "{v \<in> vs. v \<in> B}"
  assume "\<not> ?thesis"
  then have "?a \<inter> ?b = {}" by blast
  with assms(1) have "card (?a \<union> ?b) = card ?a + card ?b"
    by (intro card_Un_disjoint) auto
  moreover have "card (?a \<union> ?b) \<le> card vs"
    using assms(1) by (intro card_mono) auto
  ultimately show False
    using assms(2,3) by (auto simp: majority_def)
qed

lemma majority_only_voters: "majority vs (acks \<inter> vs) = majority vs acks"
proof -
  have "{v \<in> vs. v \<in> acks \<inter> vs} = {v \<in> vs. v \<in> acks}" by blast
  then show ?thesis by (simp only: majority_def)
qed

lemma config_finite_old: "config_finite c \<Longrightarrow> old_voters c = Some old \<Longrightarrow> finite old"
  by (simp add: config_finite_def)

lemma config_finite_voters: "config_finite c \<Longrightarrow> finite (voters c)"
  by (simp add: config_finite_def)

section \<open>Quorums\<close>

text \<open>
  The one fact consensus takes from a configuration: any two quorums of it share a member.
  Whatever each member decides at most once is therefore decided at most once by the cluster.
\<close>

locale quorum_system =
  fixes valid :: "'c \<Rightarrow> bool"
    and quorum :: "'c \<Rightarrow> 'n set \<Rightarrow> bool"
  assumes intersect: "valid c \<Longrightarrow> quorum c A \<Longrightarrow> quorum c B \<Longrightarrow> A \<inter> B \<noteq> {}"
    and mono: "valid c \<Longrightarrow> quorum c A \<Longrightarrow> A \<subseteq> B \<Longrightarrow> quorum c B"
begin

lemma nonempty: "valid c \<Longrightarrow> quorum c A \<Longrightarrow> A \<noteq> {}"
  using intersect [of c A A] by blast

lemma unique_choice:
  assumes "valid c" "quorum c A" "quorum c B"
    and "\<And>n. n \<in> A \<Longrightarrow> chose n x" and "\<And>n. n \<in> B \<Longrightarrow> chose n y"
    and "\<And>n u v. chose n u \<Longrightarrow> chose n v \<Longrightarrow> u = v"
  shows "x = y"
proof -
  from assms(1-3) obtain n where "n \<in> A" "n \<in> B" using intersect by blast
  with assms(4-6) show ?thesis by blast
qed

lemma complement_no_quorum: "valid c \<Longrightarrow> quorum c A \<Longrightarrow> \<not> quorum c (- A)"
  using intersect [of c A "- A"] by blast

end

interpretation cq: quorum_system config_finite has_quorum
proof
  fix c A B
  assume "config_finite c" "has_quorum c A" "has_quorum c B"
  then show "A \<inter> B \<noteq> {}"
    using majority_intersect [of "voters c" A B] config_finite_voters [of c]
    by (auto simp: has_quorum_def)
next
  fix c A B
  assume "config_finite c" "has_quorum c A" "A \<subseteq> B"
  then show "has_quorum c B"
    by (auto simp: has_quorum_def config_finite_def split: option.splits intro: majority_mono)
qed

lemma joint_quorum_meets_old:
  assumes "config_finite c" "old_voters c = Some old" "has_quorum c A" "majority old B"
  shows "A \<inter> B \<noteq> {}"
  using assms majority_intersect [of old A B] config_finite_old [of c old]
  by (auto simp: has_quorum_def)

lemma joint_quorum_meets_new:
  assumes "config_finite c" "has_quorum c A" "majority (voters c) B"
  shows "A \<inter> B \<noteq> {}"
  using assms majority_intersect [of "voters c" A B] config_finite_voters [of c]
  by (auto simp: has_quorum_def)

section \<open>Log entries, snapshots and hard state\<close>

datatype entry_payload = Command "byte list" | Noop | Config cluster_config

record log_entry =
  le_term :: raft_term
  le_index :: log_index
  le_payload :: entry_payload

definition entry_new :: "raft_term \<Rightarrow> log_index \<Rightarrow> byte list \<Rightarrow> log_entry" where
  "entry_new t i cmd = \<lparr>le_term = t, le_index = i, le_payload = Command cmd\<rparr>"

definition entry_with_payload :: "raft_term \<Rightarrow> log_index \<Rightarrow> entry_payload \<Rightarrow> log_entry" where
  "entry_with_payload t i p = \<lparr>le_term = t, le_index = i, le_payload = p\<rparr>"

definition entry_command :: "log_entry \<Rightarrow> byte list option" where
  "entry_command e = (case le_payload e of Command c \<Rightarrow> Some c | _ \<Rightarrow> None)"

record snapshot_meta =
  last_included_index :: log_index
  last_included_term :: raft_term
  snap_config :: cluster_config

record hard_state =
  current_term :: raft_term
  voted_for :: "node_id option"

definition hard_new :: hard_state where
  "hard_new = \<lparr>current_term = 0, voted_for = None\<rparr>"

definition stepped_to :: "raft_term \<Rightarrow> hard_state \<Rightarrow> hard_state" where
  "stepped_to t h = \<lparr>current_term = t, voted_for = None\<rparr>"

definition voting_for :: "node_id \<Rightarrow> hard_state \<Rightarrow> hard_state" where
  "voting_for c h = \<lparr>current_term = current_term h, voted_for = Some c\<rparr>"

lemma hard_steps [simp]:
  "current_term (stepped_to t h) = t" "voted_for (stepped_to t h) = None"
  "current_term (voting_for c h) = current_term h" "voted_for (voting_for c h) = Some c"
  "current_term hard_new = 0" "voted_for hard_new = None"
  by (simp_all add: stepped_to_def voting_for_def hard_new_def)

lemma entry_sel [simp]:
  "le_term (entry_new t i c) = t" "le_index (entry_new t i c) = i"
  "le_payload (entry_new t i c) = Command c"
  "le_term (entry_with_payload t i p) = t" "le_index (entry_with_payload t i p) = i"
  "le_payload (entry_with_payload t i p) = p"
  by (simp_all add: entry_new_def entry_with_payload_def)

section \<open>Wire messages\<close>

text \<open>
  The protobuf messages are records of plain fields. A conversion into a message never
  fails; the way back validates. Each pair of conversions offers this interface.
\<close>

locale wire_format =
  fixes valid :: "'a \<Rightarrow> bool"
    and to_wire :: "'a \<Rightarrow> 'w"
    and from_wire :: "'w \<Rightarrow> 'e + 'a"
  assumes round_trip: "valid x \<Longrightarrow> from_wire (to_wire x) = Inr x"
begin

lemma to_wire_inj: "valid x \<Longrightarrow> valid y \<Longrightarrow> to_wire x = to_wire y \<Longrightarrow> x = y"
  by (metis round_trip sum.inject(2))

lemma round_trip_list:
  "(\<And>x. x \<in> set xs \<Longrightarrow> valid x) \<Longrightarrow> collect_results from_wire (map to_wire xs) = Inr xs"
  by (rule collect_results_map) (simp add: round_trip)

lemma through_codec:
  assumes "\<And>w. dec (enc w) = Inr w" and "valid x"
  shows "(case dec (enc (to_wire x)) of Inl e \<Rightarrow> Inl e | Inr w \<Rightarrow> from_wire w) = Inr x"
  by (simp add: assms round_trip)

end

record pb_cluster_config =
  pb_voters :: "string list"
  pb_old_voters :: "string list"
  pb_learners :: "string list"

definition config_to_pb :: "cluster_config \<Rightarrow> pb_cluster_config" where
  "config_to_pb c =
     \<lparr>pb_voters = sorted_list_of_set (voters c),
      pb_old_voters = (case old_voters c of None \<Rightarrow> [] | Some old \<Rightarrow> sorted_list_of_set old),
      pb_learners = sorted_list_of_set (learners c)\<rparr>"

definition parse_ids :: "string list \<Rightarrow> raft_error + node_id set" where
  "parse_ids ids =
     (case collect_results node_id_new ids of Inl e \<Rightarrow> Inl e | Inr ns \<Rightarrow> Inr (set ns))"

definition first_common :: "node_id set \<Rightarrow> node_id set \<Rightarrow> node_id option" where
  "first_common A B = (case sorted_list_of_set (A \<inter> B) of [] \<Rightarrow> None | n # _ \<Rightarrow> Some n)"

definition config_from_pb :: "pb_cluster_config \<Rightarrow> raft_error + cluster_config" where
  "config_from_pb p =
     (case parse_ids (pb_voters p) of
        Inl e \<Rightarrow> Inl e
      | Inr vs \<Rightarrow>
     (case parse_ids (pb_old_voters p) of
        Inl e \<Rightarrow> Inl e
      | Inr old \<Rightarrow>
     (case parse_ids (pb_learners p) of
        Inl e \<Rightarrow> Inl e
      | Inr ls \<Rightarrow>
     (case first_common vs ls of
        Some n \<Rightarrow> Inl (Codec (''node '' @ n @ '' is both a voter and a learner''))
      | None \<Rightarrow>
     (case first_common old ls of
        Some n \<Rightarrow> Inl (Codec (''node '' @ n @ '' is both an old voter and a learner''))
      | None \<Rightarrow>
         Inr \<lparr>voters = vs, old_voters = (if old = {} then None else Some old), learners = ls\<rparr>)))))"

definition config_valid :: "cluster_config \<Rightarrow> bool" where
  "config_valid c \<longleftrightarrow>
     config_finite c \<and> (\<forall>n \<in> voters c \<union> learners c. valid_node_id n) \<and>
     voters c \<inter> learners c = {} \<and>
     (case old_voters c of
        None \<Rightarrow> True
      | Some old \<Rightarrow> old \<noteq> {} \<and> (\<forall>n \<in> old. valid_node_id n) \<and> old \<inter> learners c = {})"

lemma parse_ids_sorted:
  assumes "finite A" "\<And>n. n \<in> A \<Longrightarrow> valid_node_id n"
  shows "parse_ids (sorted_list_of_set A) = Inr A"
proof -
  have "collect_results node_id_new (map id (sorted_list_of_set A)) = Inr (sorted_list_of_set A)"
    using assms by (intro collect_results_map) (auto simp: node_id_new_Inr_iff)
  with assms(1) show ?thesis by (simp add: parse_ids_def)
qed

lemma parse_ids_InrD: "parse_ids ids = Inr A \<Longrightarrow> finite A \<and> (\<forall>n \<in> A. valid_node_id n)"
proof -
  assume "parse_ids ids = Inr A"
  then obtain ns where ns: "collect_results node_id_new ids = Inr ns" and A: "A = set ns"
    by (auto simp: parse_ids_def split: sum.splits)
  have "valid_node_id n" if "n \<in> set ns" for n
    using collect_results_Inr_set [OF ns that] by (auto simp: node_id_new_Inr_iff)
  with A show ?thesis by auto
qed

lemma first_common_None_iff: "finite A \<Longrightarrow> first_common A B = None \<longleftrightarrow> A \<inter> B = {}"
  by (auto simp: first_common_def split: list.splits)

interpretation config_wire: wire_format config_valid config_to_pb config_from_pb
proof
  fix c
  assume c: "config_valid c"
  then have "parse_ids (pb_voters (config_to_pb c)) = Inr (voters c)"
    and "parse_ids (pb_learners (config_to_pb c)) = Inr (learners c)"
    and "first_common (voters c) (learners c) = None"
    by (auto simp: config_valid_def config_finite_def config_to_pb_def
        intro!: parse_ids_sorted first_common_None_iff [THEN iffD2])
  moreover have "parse_ids (pb_old_voters (config_to_pb c)) =
      Inr (case old_voters c of None \<Rightarrow> {} | Some old \<Rightarrow> old)"
    using c by (auto simp: config_valid_def config_finite_def config_to_pb_def parse_ids_def
        split: option.splits intro!: parse_ids_sorted [unfolded parse_ids_def])
  moreover have "first_common (case old_voters c of None \<Rightarrow> {} | Some old \<Rightarrow> old) (learners c) = None"
    using c by (auto simp: config_valid_def config_finite_def first_common_None_iff split: option.splits)
  ultimately show "config_from_pb (config_to_pb c) = Inr c"
    using c by (auto simp: config_from_pb_def config_valid_def split: option.splits)
qed

lemma config_from_pb_valid: "config_from_pb p = Inr c \<Longrightarrow> config_valid c"
  by (auto simp: config_from_pb_def config_valid_def config_finite_def first_common_None_iff
      split: sum.splits option.splits if_splits dest!: parse_ids_InrD)

section \<open>Properties\<close>

text \<open>
  C7. Joint consensus: a quorum of a configuration meets every other quorum of it, every majority
  of its voters, and, while the change is in flight, every majority of the old voters. So no
  decision of the old or of the new membership can be taken behind its back.
\<close>

theorem joint_quorums_overlap:
  assumes "config_finite c" "has_quorum c A"
    and "has_quorum c B \<or> majority (voters c) B \<or> (\<exists>old. old_voters c = Some old \<and> majority old B)"
  shows "A \<inter> B \<noteq> {}"
  using assms cq.intersect [OF assms(1,2)] joint_quorum_meets_old [OF assms(1)]
    joint_quorum_meets_new [OF assms(1,2)]
  by blast

theorem joint_quorums_overlap_witness:
  "{''a'', ''b'', ''d''} \<inter> {''c'', ''b''} \<noteq> {}"
proof (rule joint_quorums_overlap)
  let ?c = "\<lparr>voters = {''a'', ''d''}, old_voters = Some {''a'', ''b'', ''c''}, learners = {}\<rparr>"
  show "config_finite ?c" by (simp add: config_finite_def)
  have 1: "{v \<in> {''a'', ''d''}. v \<in> {''a'', ''b'', ''d''}} = {''a'', ''d''}"
    and 2: "{v \<in> {''a'', ''b'', ''c''}. v \<in> {''a'', ''b'', ''d''}} = {''a'', ''b''}"
    and 3: "{v \<in> {''a'', ''b'', ''c''}. v \<in> {''c'', ''b''}} = {''b'', ''c''}" by auto
  show "has_quorum ?c {''a'', ''b'', ''d''}"
    using 1 2 by (simp add: has_quorum_def majority_def)
  show "has_quorum ?c {''c'', ''b''} \<or> majority (voters ?c) {''c'', ''b''} \<or>
      (\<exists>old. old_voters ?c = Some old \<and> majority old {''c'', ''b''})"
    using 3 by (simp add: majority_def)
qed

end
