(* ===== verification/Raft_Wire.thy ===== *)
theory Raft_Wire
  imports Raft_Types
begin

text \<open>
  The RPC messages of \<open>brokkr-raft/src/transport.rs\<close> and the log-entry encoding of
  \<open>types.rs\<close>: the internal request and reply types, their protobuf shapes, and the
  conversions in both directions. The byte codec of prost is a parameter
  (\<open>enc\<close>, \<open>dec\<close>) of the definitions that call it.
\<close>

section \<open>Log entries\<close>

record pb_log_entry =
  pe_term :: nat
  pe_index :: nat
  pe_command :: "byte list"
  pe_kind :: int
  pe_config :: "pb_cluster_config option"

definition entry_to_pb :: "log_entry \<Rightarrow> pb_log_entry" where
  "entry_to_pb e =
     (let (kind, command, config) =
        (case le_payload e of
           Command c \<Rightarrow> (0, c, None)
         | Noop \<Rightarrow> (1, [], None)
         | Config c \<Rightarrow> (2, [], Some (config_to_pb c)))
      in \<lparr>pe_term = le_term e, pe_index = le_index e, pe_command = command,
          pe_kind = kind, pe_config = config\<rparr>)"

definition entry_from_pb :: "pb_log_entry \<Rightarrow> raft_error + log_entry" where
  "entry_from_pb p =
     (let payload =
        (if pe_kind p = 0 then
           (if pe_config p \<noteq> None then Inl (Codec ''COMMAND log entry must not carry a config'')
            else Inr (Command (pe_command p)))
         else if pe_kind p = 1 then
           (if pe_command p \<noteq> [] \<or> pe_config p \<noteq> None
            then Inl (Codec ''NOOP log entry must not carry command or config data'')
            else Inr Noop)
         else if pe_kind p = 2 then
           (if pe_command p \<noteq> [] then Inl (Codec ''CONFIG log entry must not carry command data'')
            else (case pe_config p of
                    None \<Rightarrow> Inl (Codec ''CONFIG log entry without a config'')
                  | Some pc \<Rightarrow>
                      (case config_from_pb pc of
                         Inl e \<Rightarrow> Inl e
                       | Inr c \<Rightarrow>
                           if voters c = {}
                           then Inl (Codec ''CONFIG log entry must name at least one voter'')
                           else Inr (Config c))))
         else Inl (Codec (''unknown log entry kind '' @ show_int (pe_kind p))))
      in (case payload of
            Inl e \<Rightarrow> Inl e
          | Inr pl \<Rightarrow> Inr \<lparr>le_term = pe_term p, le_index = pe_index p, le_payload = pl\<rparr>))"

definition entry_encode :: "(pb_log_entry \<Rightarrow> byte list) \<Rightarrow> log_entry \<Rightarrow> byte list" where
  "entry_encode enc e = enc (entry_to_pb e)"

definition entry_decode ::
  "(byte list \<Rightarrow> string + pb_log_entry) \<Rightarrow> byte list \<Rightarrow> raft_error + log_entry" where
  "entry_decode dec bs = (case dec bs of Inl m \<Rightarrow> Inl (Codec m) | Inr p \<Rightarrow> entry_from_pb p)"

text \<open>The entries the engine creates: a configuration entry names a well-formed, governing
  configuration.\<close>

definition entry_valid :: "log_entry \<Rightarrow> bool" where
  "entry_valid e \<longleftrightarrow>
     (case le_payload e of Config c \<Rightarrow> config_valid c \<and> voters c \<noteq> {} | _ \<Rightarrow> True)"

interpretation entry_wire: wire_format entry_valid entry_to_pb entry_from_pb
proof
  fix e
  assume "entry_valid e"
  then show "entry_from_pb (entry_to_pb e) = Inr e"
    by (cases "le_payload e")
       (auto simp: entry_valid_def entry_to_pb_def entry_from_pb_def config_wire.round_trip)
qed

lemma entry_from_pb_valid: "entry_from_pb p = Inr e \<Longrightarrow> entry_valid e"
  by (auto simp: entry_from_pb_def entry_valid_def Let_def config_from_pb_valid
      split: if_splits option.splits sum.splits)

lemma entry_from_pb_canonical:
  "entry_from_pb p = Inr e \<Longrightarrow> pe_kind (entry_to_pb e) = pe_kind p \<and> pe_command (entry_to_pb e) = pe_command p"
  by (auto simp: entry_from_pb_def entry_to_pb_def Let_def split: if_splits option.splits sum.splits)

lemma entry_decode_encode:
  "(\<And>p. dec (enc p) = Inr p) \<Longrightarrow> entry_valid e \<Longrightarrow> entry_decode dec (entry_encode enc e) = Inr e"
  by (simp add: entry_decode_def entry_encode_def entry_wire.round_trip)

section \<open>RPC messages\<close>

record request_vote =
  rv_term :: raft_term
  rv_candidate_id :: node_id
  rv_last_log_index :: log_index
  rv_last_log_term :: raft_term

record request_vote_response =
  rvr_term :: raft_term
  rvr_vote_granted :: bool

record append_entries =
  ae_term :: raft_term
  ae_leader_id :: node_id
  ae_prev_log_index :: log_index
  ae_prev_log_term :: raft_term
  ae_entries :: "log_entry list"
  ae_leader_commit :: log_index
  ae_seq_no :: nat

record append_entries_response =
  aer_term :: raft_term
  aer_success :: bool
  aer_conflict_term :: raft_term
  aer_conflict_index :: log_index
  aer_match_index :: log_index
  aer_seq :: nat

record install_snapshot =
  is_term :: raft_term
  is_leader_id :: node_id
  is_last_included_index :: log_index
  is_last_included_term :: raft_term
  is_offset :: nat
  is_data :: "byte list"
  is_done :: bool
  is_config :: cluster_config

record install_snapshot_response =
  isr_term :: raft_term

section \<open>Wire conversions\<close>

record pb_request_vote =
  pv_term :: nat
  pv_candidate_id :: string
  pv_last_log_index :: nat
  pv_last_log_term :: nat

record pb_request_vote_reply =
  pvr_term :: nat
  pvr_vote_granted :: bool

record pb_append_entries =
  pa_term :: nat
  pa_leader_id :: string
  pa_prev_log_index :: nat
  pa_prev_log_term :: nat
  pa_entries :: "pb_log_entry list"
  pa_leader_commit :: nat
  pa_seq :: nat

record pb_append_entries_reply =
  par_term :: nat
  par_success :: bool
  par_conflict_term :: nat
  par_conflict_index :: nat
  par_match_index :: nat
  par_seq :: nat

record pb_install_snapshot =
  ps_term :: nat
  ps_leader_id :: string
  ps_last_included_index :: nat
  ps_last_included_term :: nat
  ps_offset :: nat
  ps_data :: "byte list"
  ps_done :: bool
  ps_config :: "pb_cluster_config option"

definition rv_to_pb :: "request_vote \<Rightarrow> pb_request_vote" where
  "rv_to_pb r =
     \<lparr>pv_term = rv_term r, pv_candidate_id = rv_candidate_id r,
      pv_last_log_index = rv_last_log_index r, pv_last_log_term = rv_last_log_term r\<rparr>"

definition rv_from_pb :: "pb_request_vote \<Rightarrow> raft_error + request_vote" where
  "rv_from_pb p =
     (case node_id_new (pv_candidate_id p) of
        Inl e \<Rightarrow> Inl e
      | Inr c \<Rightarrow>
          Inr \<lparr>rv_term = pv_term p, rv_candidate_id = c,
               rv_last_log_index = pv_last_log_index p, rv_last_log_term = pv_last_log_term p\<rparr>)"

definition rvr_to_pb :: "request_vote_response \<Rightarrow> pb_request_vote_reply" where
  "rvr_to_pb r = \<lparr>pvr_term = rvr_term r, pvr_vote_granted = rvr_vote_granted r\<rparr>"

definition rvr_from_pb :: "pb_request_vote_reply \<Rightarrow> request_vote_response" where
  "rvr_from_pb p = \<lparr>rvr_term = pvr_term p, rvr_vote_granted = pvr_vote_granted p\<rparr>"

definition ae_to_pb :: "append_entries \<Rightarrow> pb_append_entries" where
  "ae_to_pb r =
     \<lparr>pa_term = ae_term r, pa_leader_id = ae_leader_id r,
      pa_prev_log_index = ae_prev_log_index r, pa_prev_log_term = ae_prev_log_term r,
      pa_entries = map entry_to_pb (ae_entries r), pa_leader_commit = ae_leader_commit r,
      pa_seq = ae_seq_no r\<rparr>"

definition ae_from_pb :: "pb_append_entries \<Rightarrow> raft_error + append_entries" where
  "ae_from_pb p =
     (case node_id_new (pa_leader_id p) of
        Inl e \<Rightarrow> Inl e
      | Inr l \<Rightarrow>
     (case collect_results entry_from_pb (pa_entries p) of
        Inl e \<Rightarrow> Inl e
      | Inr es \<Rightarrow>
          Inr \<lparr>ae_term = pa_term p, ae_leader_id = l,
               ae_prev_log_index = pa_prev_log_index p, ae_prev_log_term = pa_prev_log_term p,
               ae_entries = es, ae_leader_commit = pa_leader_commit p, ae_seq_no = pa_seq p\<rparr>))"

definition aer_to_pb :: "append_entries_response \<Rightarrow> pb_append_entries_reply" where
  "aer_to_pb r =
     \<lparr>par_term = aer_term r, par_success = aer_success r,
      par_conflict_term = aer_conflict_term r, par_conflict_index = aer_conflict_index r,
      par_match_index = aer_match_index r, par_seq = aer_seq r\<rparr>"

definition aer_from_pb :: "pb_append_entries_reply \<Rightarrow> append_entries_response" where
  "aer_from_pb p =
     \<lparr>aer_term = par_term p, aer_success = par_success p,
      aer_conflict_term = par_conflict_term p, aer_conflict_index = par_conflict_index p,
      aer_match_index = par_match_index p, aer_seq = par_seq p\<rparr>"

definition is_to_pb :: "install_snapshot \<Rightarrow> pb_install_snapshot" where
  "is_to_pb r =
     \<lparr>ps_term = is_term r, ps_leader_id = is_leader_id r,
      ps_last_included_index = is_last_included_index r,
      ps_last_included_term = is_last_included_term r,
      ps_offset = is_offset r, ps_data = is_data r, ps_done = is_done r,
      ps_config = Some (config_to_pb (is_config r))\<rparr>"

definition is_from_pb :: "pb_install_snapshot \<Rightarrow> raft_error + install_snapshot" where
  "is_from_pb p =
     (case node_id_new (ps_leader_id p) of
        Inl e \<Rightarrow> Inl e
      | Inr l \<Rightarrow>
     (case (case ps_config p of None \<Rightarrow> Inr config_default | Some c \<Rightarrow> config_from_pb c) of
        Inl e \<Rightarrow> Inl e
      | Inr c \<Rightarrow>
          Inr \<lparr>is_term = ps_term p, is_leader_id = l,
               is_last_included_index = ps_last_included_index p,
               is_last_included_term = ps_last_included_term p,
               is_offset = ps_offset p, is_data = ps_data p, is_done = ps_done p,
               is_config = c\<rparr>))"

definition isr_to_pb :: "install_snapshot_response \<Rightarrow> nat" where
  "isr_to_pb r = isr_term r"

definition isr_from_pb :: "nat \<Rightarrow> install_snapshot_response" where
  "isr_from_pb t = \<lparr>isr_term = t\<rparr>"

lemma node_id_new_valid [simp]: "valid_node_id n \<Longrightarrow> node_id_new n = Inr n"
  by (simp add: node_id_new_Inr_iff)

interpretation rv_wire: wire_format "\<lambda>r. valid_node_id (rv_candidate_id r)" rv_to_pb rv_from_pb
  by unfold_locales (simp add: rv_to_pb_def rv_from_pb_def)

definition ae_valid :: "append_entries \<Rightarrow> bool" where
  "ae_valid r \<longleftrightarrow> valid_node_id (ae_leader_id r) \<and> (\<forall>e \<in> set (ae_entries r). entry_valid e)"

interpretation ae_wire: wire_format ae_valid ae_to_pb ae_from_pb
  by unfold_locales (simp add: ae_valid_def ae_to_pb_def ae_from_pb_def entry_wire.round_trip_list)

definition is_valid :: "install_snapshot \<Rightarrow> bool" where
  "is_valid r \<longleftrightarrow> valid_node_id (is_leader_id r) \<and> config_valid (is_config r)"

interpretation is_wire: wire_format is_valid is_to_pb is_from_pb
  by unfold_locales (simp add: is_valid_def is_to_pb_def is_from_pb_def config_wire.round_trip)

interpretation rvr_wire: wire_format "\<lambda>_. True" rvr_to_pb "\<lambda>p. Inr (rvr_from_pb p) :: raft_error + _"
  by unfold_locales (simp add: rvr_to_pb_def rvr_from_pb_def)

interpretation aer_wire: wire_format "\<lambda>_. True" aer_to_pb "\<lambda>p. Inr (aer_from_pb p) :: raft_error + _"
  by unfold_locales (simp add: aer_to_pb_def aer_from_pb_def)

interpretation isr_wire: wire_format "\<lambda>_. True" isr_to_pb "\<lambda>p. Inr (isr_from_pb p) :: raft_error + _"
  by unfold_locales (simp add: isr_to_pb_def isr_from_pb_def)

section \<open>Properties\<close>

text \<open>
  C8. Log entries survive storage: for any byte codec that gives back the message it was given,
  a valid entry decodes to itself, of whatever kind (command, no-op or configuration) it is.
\<close>

theorem entry_bytes_round_trip:
  assumes "dec (enc (entry_to_pb e)) = Inr (entry_to_pb e)" "entry_valid e"
  shows "entry_decode dec (entry_encode enc e) = Inr e"
  using assms by (simp add: entry_decode_def entry_encode_def entry_wire.round_trip)

theorem entry_bytes_round_trip_witness:
  "entry_decode (\<lambda>_. Inr (entry_to_pb (entry_with_payload 3 7 (Config (config_single {''a'', ''b''})))))
     (entry_encode (\<lambda>_. [1, 2]) (entry_with_payload 3 7 (Config (config_single {''a'', ''b''}))))
   = Inr (entry_with_payload 3 7 (Config (config_single {''a'', ''b''})))"
  by (rule entry_bytes_round_trip)
     (simp_all add: entry_valid_def config_valid_def config_single_def config_finite_def
       valid_node_id_def NODE_ID_MAX_LEN_def)

text \<open>
  C9. Messages survive the wire: every valid RequestVote, AppendEntries and InstallSnapshot, and
  every reply, is the message its protobuf form decodes to.
\<close>

theorem messages_round_trip:
  assumes "valid_node_id (rv_candidate_id v)" "ae_valid a" "is_valid s"
  shows "rv_from_pb (rv_to_pb v) = Inr v \<and> ae_from_pb (ae_to_pb a) = Inr a \<and> is_from_pb (is_to_pb s) = Inr s \<and>
    rvr_from_pb (rvr_to_pb v') = v' \<and> aer_from_pb (aer_to_pb a') = a' \<and> isr_from_pb (isr_to_pb s') = s'"
  using rv_wire.round_trip [OF assms(1)] ae_wire.round_trip [OF assms(2)] is_wire.round_trip [OF assms(3)]
    rvr_wire.round_trip [of v'] aer_wire.round_trip [of a'] isr_wire.round_trip [of s']
  by simp

theorem messages_round_trip_witness:
  "ae_from_pb (ae_to_pb \<lparr>ae_term = 2, ae_leader_id = ''a'', ae_prev_log_index = 0, ae_prev_log_term = 0,
      ae_entries = [entry_new 2 1 [7]], ae_leader_commit = 0, ae_seq_no = 4\<rparr>)
   = Inr \<lparr>ae_term = 2, ae_leader_id = ''a'', ae_prev_log_index = 0, ae_prev_log_term = 0,
      ae_entries = [entry_new 2 1 [7]], ae_leader_commit = 0, ae_seq_no = 4\<rparr>"
  using messages_round_trip
        [of "\<lparr>rv_term = 1, rv_candidate_id = ''a'', rv_last_log_index = 0, rv_last_log_term = 0\<rparr>"
          "\<lparr>ae_term = 2, ae_leader_id = ''a'', ae_prev_log_index = 0, ae_prev_log_term = 0,
            ae_entries = [entry_new 2 1 [7]], ae_leader_commit = 0, ae_seq_no = 4\<rparr>"
          "\<lparr>is_term = 1, is_leader_id = ''a'', is_last_included_index = 1, is_last_included_term = 1,
            is_offset = 0, is_data = [], is_done = True, is_config = config_single {''a''}\<rparr>"]
  by (simp add: ae_valid_def is_valid_def entry_valid_def config_valid_def config_single_def
       config_finite_def valid_node_id_def NODE_ID_MAX_LEN_def)

text \<open>
  C10. Nothing invalid is decoded: whatever bytes a store or a peer hands over, an entry that decodes
  carries a valid configuration, if it carries one: bounded nonempty node ids, voters and learners
  disjoint.
\<close>

theorem decoded_entries_are_valid:
  assumes "entry_decode dec bs = Inr e"
  shows "entry_valid e"
  using assms entry_from_pb_valid by (auto simp: entry_decode_def split: sum.splits)

theorem decoded_entries_are_valid_witness:
  "entry_valid (entry_with_payload 1 1 Noop)"
proof (rule decoded_entries_are_valid)
  show "entry_decode (\<lambda>_. Inr (entry_to_pb (entry_with_payload 1 1 Noop))) [0] = Inr (entry_with_payload 1 1 Noop)"
    by (simp add: entry_decode_def entry_wire.round_trip entry_valid_def)
qed

end
