(* ===== verification/Raft_Rng.thy ===== *)
theory Raft_Rng
  imports Brokkr_Prelude
begin

text \<open>
  The seeded SplitMix64 generator of \<open>brokkr-raft/src/rng.rs\<close> on 64-bit words, and the
  randomized election timeout drawn from it. A \<open>Duration\<close> is a number of nanoseconds.
\<close>

unbundle bit_operations_syntax

type_synonym duration = nat

record rng = rng_state :: "64 word"

definition seed_from_u64 :: "64 word \<Rightarrow> rng" where
  "seed_from_u64 seed = \<lparr>rng_state = seed\<rparr>"

definition next_u64 :: "rng \<Rightarrow> 64 word \<times> rng" where
  "next_u64 r =
     (let s = rng_state r + 0x9e3779b97f4a7b15;
          z = (s XOR drop_bit 30 s) * 0xbf58476d1ce4e5b9;
          z = (z XOR drop_bit 27 z) * 0x94d049bb133111eb
      in (z XOR drop_bit 31 z, r\<lparr>rng_state := s\<rparr>))"

definition gen_range_u64 :: "nat \<Rightarrow> rng \<Rightarrow> nat \<times> rng" where
  "gen_range_u64 n r =
     (if n = 0 then (0, r) else (let (z, r') = next_u64 r in (unat z mod n, r')))"

definition nanos_per_milli :: nat where
  "nanos_per_milli = 1000000"

text \<open>\<open>as_millis() as u64\<close> truncates; \<open>from_millis\<close> scales back.\<close>

definition as_millis :: "duration \<Rightarrow> nat" where
  "as_millis d = (d div nanos_per_milli) mod 2 ^ 64"

definition from_millis :: "nat \<Rightarrow> duration" where
  "from_millis ms = ms * nanos_per_milli"

definition election_timeout :: "duration \<Rightarrow> duration \<Rightarrow> rng \<Rightarrow> duration \<times> rng" where
  "election_timeout lo hi r =
     (let min_ms = as_millis lo; max_ms = as_millis hi
      in if max_ms \<le> min_ms then (lo, r)
         else (let span = max_ms - min_ms;
                   (jitter, r') = gen_range_u64 (sat_add span 1) r
               in (from_millis (sat_add min_ms jitter), r')))"

lemma gen_range_u64_less: "0 < n \<Longrightarrow> fst (gen_range_u64 n r) < n"
  by (simp add: gen_range_u64_def split: prod.split)

lemma as_millis_bound: "as_millis d \<le> u64_max"
proof -
  have "as_millis d < 2 ^ 64" unfolding as_millis_def by (rule mod_less_divisor) simp
  then show ?thesis by (simp add: u64_max_def)
qed

lemma election_timeout_window:
  assumes "as_millis lo < as_millis hi"
  shows "as_millis lo * nanos_per_milli \<le> fst (election_timeout lo hi r)"
    and "fst (election_timeout lo hi r) \<le> as_millis hi * nanos_per_milli"
proof -
  let ?span = "as_millis hi - as_millis lo"
  let ?j = "fst (gen_range_u64 (sat_add ?span 1) r)"
  have val: "fst (election_timeout lo hi r) = (sat_add (as_millis lo) ?j) * nanos_per_milli"
    using assms by (simp add: election_timeout_def from_millis_def Let_def case_prod_beta)
  have "?j < sat_add ?span 1"
    by (rule gen_range_u64_less) (simp add: sat_add_def u64_max_def)
  then have "?j \<le> ?span" using assms by (simp add: sat_add_def)
  then have "as_millis lo + ?j \<le> as_millis hi" using assms by simp
  moreover from this have "sat_add (as_millis lo) ?j = as_millis lo + ?j"
    using as_millis_bound [of hi] by (intro sat_add_exact) linarith
  ultimately show "as_millis lo * nanos_per_milli \<le> fst (election_timeout lo hi r)"
    and "fst (election_timeout lo hi r) \<le> as_millis hi * nanos_per_milli"
    by (simp_all add: val)
qed

section \<open>Properties\<close>

text \<open>
  The randomized election timeout, for every generator state, lies between the two configured
  bounds at the millisecond resolution they are drawn at.
\<close>

theorem election_timeout_bounds:
  assumes "as_millis lo < as_millis hi"
  shows "as_millis lo * nanos_per_milli \<le> fst (election_timeout lo hi r) \<and>
         fst (election_timeout lo hi r) \<le> as_millis hi * nanos_per_milli"
  using election_timeout_window [OF assms] by simp

theorem election_timeout_bounds_witness:
  "150000000 \<le> fst (election_timeout (from_millis 150) (from_millis 300) (seed_from_u64 42)) \<and>
   fst (election_timeout (from_millis 150) (from_millis 300) (seed_from_u64 42)) \<le> 300000000"
  using election_timeout_bounds [of "from_millis 150" "from_millis 300" "seed_from_u64 42"]
  by (simp add: as_millis_def from_millis_def nanos_per_milli_def)

end
