(* ===== verification/Raft_Log.thy ===== *)
theory Raft_Log
  imports Raft_Types
begin

text \<open>
  The durable log as the node sees it (\<open>brokkr-raft/src/storage.rs\<close>): a table of entries
  keyed by index, the persisted hard state, and the installed snapshot. Each operation is
  one committed transaction. The byte-level store is related to this view in
  \<open>Raft_Storage\<close>.
\<close>

record raft_log =
  log_table :: "(log_index, log_entry) table"
  log_hard :: hard_state
  log_snapshot :: "(snapshot_meta \<times> byte list) option"

definition log_open :: raft_log where
  "log_open = \<lparr>log_table = [], log_hard = hard_new, log_snapshot = None\<rparr>"

definition log_append_all :: "log_entry list \<Rightarrow> raft_log \<Rightarrow> raft_log" where
  "log_append_all es l =
     l\<lparr>log_table := fold (\<lambda>(k, e). tbl_insert k e) (map (\<lambda>e. (le_index e, e)) es) (log_table l)\<rparr>"

definition log_append :: "log_entry \<Rightarrow> raft_log \<Rightarrow> raft_log" where
  "log_append e l = log_append_all [e] l"

definition log_get :: "raft_log \<Rightarrow> log_index \<Rightarrow> log_entry option" where
  "log_get l i = tbl_get (log_table l) i"

definition entries_from :: "raft_log \<Rightarrow> log_index \<Rightarrow> log_entry list" where
  "entries_from l i = map snd (tbl_range_from i (log_table l))"

definition log_snapshot_meta :: "raft_log \<Rightarrow> snapshot_meta option" where
  "log_snapshot_meta l = map_option fst (log_snapshot l)"

definition last_index_and_term :: "raft_log \<Rightarrow> log_index \<times> raft_term" where
  "last_index_and_term l =
     (case tbl_last (log_table l) of
        Some (k, e) \<Rightarrow> (k, le_term e)
      | None \<Rightarrow>
          (case log_snapshot_meta l of
             Some m \<Rightarrow> (last_included_index m, last_included_term m)
           | None \<Rightarrow> (0, 0)))"

definition last_index :: "raft_log \<Rightarrow> log_index" where
  "last_index l = fst (last_index_and_term l)"

definition last_term :: "raft_log \<Rightarrow> raft_term" where
  "last_term l = snd (last_index_and_term l)"

definition first_index :: "raft_log \<Rightarrow> log_index" where
  "first_index l = (case tbl_first (log_table l) of Some (k, _) \<Rightarrow> k | None \<Rightarrow> 0)"

definition truncate_from :: "log_index \<Rightarrow> raft_log \<Rightarrow> raft_log" where
  "truncate_from from l =
     (let to_remove = map fst (tbl_range_from from (log_table l))
      in l\<lparr>log_table := fold tbl_remove to_remove (log_table l)\<rparr>)"

definition write_snapshot :: "snapshot_meta \<Rightarrow> byte list \<Rightarrow> bool \<Rightarrow> raft_log \<Rightarrow> raft_log" where
  "write_snapshot meta data wipe_entire_log l =
     l\<lparr>log_snapshot := Some (meta, data),
       log_table :=
         (if wipe_entire_log then tbl_retain (\<lambda>_ _. False) (log_table l)
          else tbl_retain (\<lambda>k _. \<not> k \<le> last_included_index meta) (log_table l))\<rparr>"

definition compact_to :: "snapshot_meta \<Rightarrow> byte list \<Rightarrow> raft_log \<Rightarrow> raft_log" where
  "compact_to meta data l = write_snapshot meta data False l"

definition install_snapshot_replacing_log ::
  "snapshot_meta \<Rightarrow> byte list \<Rightarrow> raft_log \<Rightarrow> raft_log" where
  "install_snapshot_replacing_log meta data l = write_snapshot meta data True l"

definition save_hard_state :: "hard_state \<Rightarrow> raft_log \<Rightarrow> raft_log" where
  "save_hard_state h l = l\<lparr>log_hard := h\<rparr>"

definition load_hard_state :: "raft_log \<Rightarrow> hard_state" where
  "load_hard_state l = log_hard l"

section \<open>What the operations leave alone\<close>

lemma log_frame [simp]:
  "log_hard (log_append_all es l) = log_hard l" "log_snapshot (log_append_all es l) = log_snapshot l"
  "log_hard (log_append e l) = log_hard l" "log_snapshot (log_append e l) = log_snapshot l"
  "log_hard (truncate_from i l) = log_hard l" "log_snapshot (truncate_from i l) = log_snapshot l"
  "log_hard (write_snapshot m d w l) = log_hard l"
  "log_snapshot (write_snapshot m d w l) = Some (m, d)"
  "log_hard (compact_to m d l) = log_hard l" "log_snapshot (compact_to m d l) = Some (m, d)"
  "log_hard (install_snapshot_replacing_log m d l) = log_hard l"
  "log_snapshot (install_snapshot_replacing_log m d l) = Some (m, d)"
  "log_table (save_hard_state h l) = log_table l"
  "log_snapshot (save_hard_state h l) = log_snapshot l"
  "log_hard (save_hard_state h l) = h"
  by (simp_all add: log_append_all_def log_append_def truncate_from_def write_snapshot_def Let_def
      compact_to_def install_snapshot_replacing_log_def save_hard_state_def)

lemma log_frame_meta [simp]:
  "log_snapshot_meta (log_append_all es l) = log_snapshot_meta l"
  "log_snapshot_meta (log_append e l) = log_snapshot_meta l"
  "log_snapshot_meta (truncate_from i l) = log_snapshot_meta l"
  "log_snapshot_meta (save_hard_state h l) = log_snapshot_meta l"
  "log_snapshot_meta (compact_to m d l) = Some m"
  "log_snapshot_meta (install_snapshot_replacing_log m d l) = Some m"
  "log_get (save_hard_state h l) = log_get l"
  "entries_from (save_hard_state h l) = entries_from l"
  "last_index_and_term (save_hard_state h l) = last_index_and_term l"
  "last_index (save_hard_state h l) = last_index l"
  by (simp_all add: log_snapshot_meta_def log_get_def entries_from_def last_index_and_term_def
      last_index_def fun_eq_iff cong: option.case_cong)

section \<open>Contiguous logs\<close>

text \<open>
  The log a node holds is an unbroken run of entries directly above a base index: the
  snapshot's last included index, or 0 when there is no snapshot.
\<close>

definition log_base :: "raft_log \<Rightarrow> log_index" where
  "log_base l = (case log_snapshot_meta l of Some m \<Rightarrow> last_included_index m | None \<Rightarrow> 0)"

definition run_from :: "log_index \<Rightarrow> (log_index, log_entry) table \<Rightarrow> bool" where
  "run_from b t \<longleftrightarrow>
     map fst t = [Suc b..<Suc (b + length t)] \<and> (\<forall>(k, e) \<in> set t. le_index e = k)"

definition log_wf :: "raft_log \<Rightarrow> bool" where
  "log_wf l \<longleftrightarrow> run_from (log_base l) (log_table l)"

lemma log_base_frame [simp]:
  "log_base (log_append_all es l) = log_base l" "log_base (log_append e l) = log_base l"
  "log_base (truncate_from i l) = log_base l" "log_base (save_hard_state h l) = log_base l"
  "log_base (compact_to m d l) = last_included_index m"
  "log_base (install_snapshot_replacing_log m d l) = last_included_index m"
  by (simp_all add: log_base_def)

lemma run_from_Nil [simp]: "run_from b []"
  by (simp add: run_from_def)

lemma run_from_tbl_wf: "run_from b t \<Longrightarrow> tbl_wf t"
  by (simp add: run_from_def tbl_wf_def sorted_wrt_upt del: upt_Suc)

lemma run_from_keys: "run_from b t \<Longrightarrow> tbl_keys t = {Suc b..b + length t}"
  by (auto simp: run_from_def tbl_keys_def simp del: set_map)

lemma run_from_nth: "run_from b t \<Longrightarrow> j < length t \<Longrightarrow> fst (t ! j) = Suc (b + j)"
proof -
  assume "run_from b t" "j < length t"
  then have "map fst t ! j = [Suc b..<Suc (b + length t)] ! j" by (simp add: run_from_def)
  with \<open>j < length t\<close> show ?thesis by (simp del: upt_Suc)
qed

lemma run_from_get:
  assumes "run_from b t"
  shows "tbl_get t i = (if b < i \<and> i \<le> b + length t then Some (snd (t ! (i - b - 1))) else None)"
proof (cases "b < i \<and> i \<le> b + length t")
  case True
  then have "i - b - 1 < length t" by linarith
  moreover from this have "fst (t ! (i - b - 1)) = i"
    using run_from_nth [OF assms] True by simp
  ultimately have "(i, snd (t ! (i - b - 1))) \<in> set t"
    by (metis nth_mem prod.collapse)
  then show ?thesis
    using True tbl_get_Some_iff [OF run_from_tbl_wf [OF assms]] by simp
next
  case False
  then show ?thesis
    using tbl_get_None_iff [of t i] run_from_keys [OF assms] by auto
qed

lemma run_from_le_index:
  assumes "run_from b t" "(k, e) \<in> set t"
  shows "le_index e = k \<and> b < k \<and> k \<le> b + length t"
proof -
  from assms(2) have "k \<in> tbl_keys t" by (force simp: tbl_keys_def)
  then have "b < k \<and> k \<le> b + length t" using run_from_keys [OF assms(1)] by auto
  moreover from assms have "le_index e = k" unfolding run_from_def by blast
  ultimately show ?thesis by blast
qed

lemma run_from_snoc:
  "run_from b t \<Longrightarrow> le_index e = Suc (b + length t) \<Longrightarrow> run_from b (t @ [(Suc (b + length t), e)])"
  by (auto simp: run_from_def)

lemma run_from_take: "run_from b t \<Longrightarrow> run_from b (take n t)"
  by (auto simp: run_from_def take_map [symmetric] min_def dest: in_set_takeD)

lemma run_from_drop:
  assumes "run_from b t"
  shows "run_from (b + n) (drop n t)"
proof (cases "n \<le> length t")
  case True
  with assms show ?thesis
    by (auto simp: run_from_def drop_map [symmetric] dest: in_set_dropD simp del: upt_Suc)
next
  case False
  then show ?thesis by simp
qed

lemma run_from_insert_next:
  "run_from b t \<Longrightarrow> tbl_insert (Suc (b + length t)) e t = t @ [(Suc (b + length t), e)]"
  by (rule tbl_insert_above) (auto dest: run_from_le_index)

lemma keys_insert_present: "tbl_wf t \<Longrightarrow> k \<in> tbl_keys t \<Longrightarrow> map fst (tbl_insert k v t) = map fst t"
  by (induction t) (auto simp: tbl_keys_def tbl_wf_Cons)

lemma run_from_insert_present:
  assumes "run_from b t" "k \<in> tbl_keys t" "le_index e = k"
  shows "run_from b (tbl_insert k e t)"
proof -
  have keys: "map fst (tbl_insert k e t) = map fst t"
    using keys_insert_present [OF run_from_tbl_wf [OF assms(1)] assms(2)] .
  then have "length (tbl_insert k e t) = length t" by (metis length_map)
  with keys assms show ?thesis
    using set_tbl_insert [of k e t] by (auto simp: run_from_def)
qed

lemma run_from_retain_above:
  assumes "run_from b t" "b \<le> i"
  shows "tbl_retain (\<lambda>k _. \<not> k \<le> i) t = drop (i - b) t"
proof -
  have "filter (\<lambda>p. \<not> fst p \<le> i) t = drop (i - b) t"
    using assms
  proof (induction t arbitrary: b)
    case Nil
    then show ?case by simp
  next
    case (Cons p t)
    have p: "fst p = Suc b" using run_from_nth [OF Cons.prems(1), of 0] by simp
    have t: "run_from (Suc b) t" using run_from_drop [OF Cons.prems(1), of 1] by simp
    show ?case
    proof (cases "b = i")
      case True
      have "\<not> fst q \<le> i" if "q \<in> set t" for q
        using run_from_le_index [OF t, of "fst q" "snd q"] that True by simp
      then have "filter (\<lambda>p. \<not> fst p \<le> i) t = t" by (intro filter_True) blast
      with True p show ?thesis by simp
    next
      case False
      then have "Suc b \<le> i" using Cons.prems(2) by simp
      with Cons.IH [OF t] p False show ?thesis by (simp add: Suc_diff_le drop_Cons')
    qed
  qed
  then show ?thesis by (simp add: tbl_retain_def case_prod_beta')
qed

lemma run_from_retain_below:
  assumes "run_from b t" "b < i"
  shows "tbl_retain (\<lambda>k _. k < i) t = take (i - b - 1) t"
proof -
  have "filter (\<lambda>p. fst p < i) t = take (i - b - 1) t"
    using assms
  proof (induction t arbitrary: b)
    case Nil
    then show ?case by simp
  next
    case (Cons p t)
    have p: "fst p = Suc b" using run_from_nth [OF Cons.prems(1), of 0] by simp
    have t: "run_from (Suc b) t" using run_from_drop [OF Cons.prems(1), of 1] by simp
    show ?case
    proof (cases "Suc b = i")
      case True
      have "\<not> fst q < i" if "q \<in> set t" for q
        using run_from_le_index [OF t, of "fst q" "snd q"] that True by simp
      then have "filter (\<lambda>p. fst p < i) t = []" by (intro filter_False) blast
      with True p show ?thesis by simp
    next
      case False
      then have "Suc b < i" using Cons.prems(2) by simp
      with Cons.IH [OF t] p show ?thesis by (simp add: take_Cons')
    qed
  qed
  then show ?thesis by (simp add: tbl_retain_def case_prod_beta')
qed

section \<open>The operations keep a contiguous log\<close>

lemma last_index_run: "log_wf l \<Longrightarrow> last_index l = log_base l + length (log_table l)"
proof -
  assume wf: "log_wf l"
  show ?thesis
  proof (cases "log_table l = []")
    case True
    then show ?thesis
      by (simp add: last_index_def last_index_and_term_def tbl_last_def log_base_def split: option.splits)
  next
    case False
    then have "length (log_table l) - 1 < length (log_table l)" by simp
    from run_from_nth [OF wf [unfolded log_wf_def] this] False
    have "fst (last (log_table l)) = log_base l + length (log_table l)"
      by (simp add: last_conv_nth Suc_diff_Suc)
    with False show ?thesis
      by (simp add: last_index_def last_index_and_term_def tbl_last_def case_prod_beta)
  qed
qed

lemma log_get_run:
  "log_wf l \<Longrightarrow>
   log_get l i = (if log_base l < i \<and> i \<le> last_index l
                  then Some (snd (log_table l ! (i - log_base l - 1))) else None)"
  using run_from_get [of "log_base l" "log_table l" i] last_index_run [of l]
  by (simp add: log_get_def log_wf_def)

lemma log_get_Some_bounds: "log_wf l \<Longrightarrow> log_get l i = Some e \<Longrightarrow> log_base l < i \<and> i \<le> last_index l"
  by (simp add: log_get_run split: if_splits)

lemma log_get_index: "log_wf l \<Longrightarrow> log_get l i = Some e \<Longrightarrow> le_index e = i"
  using run_from_le_index [of "log_base l" "log_table l" i e] tbl_get_SomeD [of "log_table l" i e]
  by (simp add: log_wf_def log_get_def)

lemma log_base_le_last: "log_wf l \<Longrightarrow> log_base l \<le> last_index l"
  by (simp add: last_index_run)

lemma log_wf_open [simp]: "log_wf log_open"
  by (simp add: log_wf_def log_open_def)

lemma log_wf_save [simp]: "log_wf (save_hard_state h l) = log_wf l"
  by (simp add: log_wf_def)

lemma log_append_table:
  assumes "log_wf l" "le_index e = Suc (last_index l)"
  shows "log_table (log_append e l) = log_table l @ [(Suc (last_index l), e)]"
  using assms run_from_insert_next [of "log_base l" "log_table l" e]
  by (simp add: log_append_def log_append_all_def log_wf_def last_index_run)

lemma log_append_wf:
  assumes "log_wf l" "le_index e = Suc (last_index l)"
  shows "log_wf (log_append e l)" and "last_index (log_append e l) = Suc (last_index l)"
proof -
  show wf: "log_wf (log_append e l)"
    using assms run_from_snoc [of "log_base l" "log_table l" e]
    by (simp add: log_wf_def log_append_table last_index_run)
  show "last_index (log_append e l) = Suc (last_index l)"
    using assms wf by (simp add: last_index_run log_append_table)
qed

lemma log_append_all_Cons: "log_append_all (e # es) l = log_append_all es (log_append e l)"
  by (simp add: log_append_all_def log_append_def)

lemma log_append_all_Nil [simp]: "log_append_all [] l = l"
  by (simp add: log_append_all_def)

text \<open>A batch of entries with consecutive indices.\<close>

fun entries_run :: "log_index \<Rightarrow> log_entry list \<Rightarrow> bool" where
  "entries_run i [] = True"
| "entries_run i (e # es) = (le_index e = Suc i \<and> entries_run (Suc i) es)"

lemma log_append_all_wf:
  assumes "log_wf l" "entries_run (last_index l) es"
  shows "log_wf (log_append_all es l) \<and> last_index (log_append_all es l) = last_index l + length es"
  using assms
  by (induction es arbitrary: l) (auto simp: log_append_all_Cons log_append_wf)

lemma log_append_all_get:
  "tbl_get (log_table (log_append_all es l)) = tbl_get (log_table l) ++ map_of (rev (map (\<lambda>e. (le_index e, e)) es))"
proof -
  have "tbl_get (fold (\<lambda>(k, e). tbl_insert k e) ps t) = tbl_get t ++ map_of (rev ps)"
    for ps :: "(log_index \<times> log_entry) list" and t
    by (induction ps arbitrary: t) (auto simp: tbl_get_insert map_add_def fun_eq_iff split: option.splits)
  then show ?thesis by (simp add: log_append_all_def rev_map)
qed

lemma range_from_key: "tbl_get t k = Some v \<Longrightarrow> k \<in> set (map fst (tbl_range_from i t)) \<longleftrightarrow> i \<le> k"
  using tbl_get_SomeD [of t k v] by (force simp: tbl_range_from_def tbl_retain_def)

lemma truncate_table:
  assumes "log_wf l" "log_base l < i"
  shows "log_table (truncate_from i l) = take (i - log_base l - 1) (log_table l)"
proof -
  have wf: "tbl_wf (log_table l)" using assms(1) by (simp add: log_wf_def run_from_tbl_wf)
  have "log_table (truncate_from i l) = tbl_retain (\<lambda>k _. k < i) (log_table l)"
  proof (rule tbl_ext)
    show "tbl_wf (log_table (truncate_from i l))"
      using wf by (simp add: truncate_from_def Let_def tbl.wf_fold_rem)
    show "tbl_get (log_table (truncate_from i l)) = tbl_get (tbl_retain (\<lambda>k _. k < i) (log_table l))"
      using wf by (auto simp: truncate_from_def Let_def tbl.get_fold_rem tbl_get_retain fun_eq_iff
          range_from_key simp del: set_map split: option.splits)
  qed (use wf in simp)
  with run_from_retain_below [of "log_base l" "log_table l" i] assms show ?thesis
    by (simp add: log_wf_def)
qed

lemma truncate_wf:
  assumes "log_wf l" "log_base l < i" "i \<le> last_index l"
  shows "log_wf (truncate_from i l)" and "last_index (truncate_from i l) = i - 1"
proof -
  show wf: "log_wf (truncate_from i l)"
    using assms by (simp add: log_wf_def truncate_table run_from_take)
  have "length (take (i - log_base l - 1) (log_table l)) = i - log_base l - 1"
    using assms by (simp add: last_index_run)
  then show "last_index (truncate_from i l) = i - 1"
    using assms by (simp add: last_index_run [OF wf] truncate_table)
qed

lemma compact_table:
  assumes "log_wf l" "log_base l \<le> last_included_index m"
  shows "log_table (compact_to m d l) = drop (last_included_index m - log_base l) (log_table l)"
  using assms run_from_retain_above [of "log_base l" "log_table l" "last_included_index m"]
  by (simp add: compact_to_def write_snapshot_def log_wf_def)

lemma compact_wf:
  assumes "log_wf l" "log_base l \<le> last_included_index m"
  shows "log_wf (compact_to m d l)"
  using assms run_from_drop [of "log_base l" "log_table l" "last_included_index m - log_base l"]
  by (simp add: log_wf_def compact_table)

lemma compact_last_index:
  assumes "log_wf l" "log_base l \<le> last_included_index m" "last_included_index m \<le> last_index l"
  shows "last_index (compact_to m d l) = last_index l"
  using assms by (simp add: last_index_run compact_wf compact_table)

lemma install_table [simp]: "log_table (install_snapshot_replacing_log m d l) = []"
  by (simp add: install_snapshot_replacing_log_def write_snapshot_def tbl_retain_def)

lemma install_wf [simp]: "log_wf (install_snapshot_replacing_log m d l)"
  by (simp add: log_wf_def)

lemma install_last_index [simp]:
  "last_index (install_snapshot_replacing_log m d l) = last_included_index m"
  using last_index_run [OF install_wf, of m d l] by simp

lemma log_get_save [simp]: "log_get (save_hard_state h l) i = log_get l i"
  by simp

lemma compact_get:
  assumes "log_wf l" "log_base l \<le> last_included_index m"
  shows "log_get (compact_to m d l) i = (if last_included_index m < i then log_get l i else None)"
proof -
  have "tbl_wf (log_table l)" using assms(1) by (simp add: log_wf_def run_from_tbl_wf)
  then show ?thesis
    by (auto simp: log_get_def compact_to_def write_snapshot_def tbl_get_retain split: option.splits)
qed

lemma truncate_get:
  assumes "log_wf l"
  shows "log_get (truncate_from i l) j = (if j < i then log_get l j else None)"
proof -
  have wf: "tbl_wf (log_table l)" using assms(1) by (simp add: log_wf_def run_from_tbl_wf)
  then show ?thesis
    by (cases "tbl_get (log_table l) j")
       (auto simp: log_get_def truncate_from_def Let_def tbl.get_fold_rem range_from_key simp del: set_map)
qed

lemma entries_from_set:
  "log_wf l \<Longrightarrow> e \<in> set (entries_from l i) \<longleftrightarrow> (\<exists>j \<ge> i. log_get l j = Some e)"
  using tbl_get_Some_iff [OF run_from_tbl_wf, of "log_base l" "log_table l"]
  by (force simp: entries_from_def tbl_range_from_def tbl_retain_def log_get_def log_wf_def)

end
