(* ===== verification/Raft_Config.thy ===== *)
theory Raft_Config
  imports Raft_Log
begin

text \<open>
  The configuration tracker of \<open>brokkr-raft/src/node.rs\<close>: which membership is in force,
  given the configuration entries visible in the log. Its specification is the log itself:
  the tracked list is always exactly the configuration entries the log holds, so the active
  configuration is the latest one in the log, after any append, truncation or compaction.
\<close>

record config_tracker =
  base :: cluster_config
  base_index :: log_index
  in_log :: "(log_index \<times> cluster_config) list"

definition tracker_new :: "cluster_config \<Rightarrow> log_index \<Rightarrow> config_tracker" where
  "tracker_new c i = \<lparr>base = c, base_index = i, in_log = []\<rparr>"

definition active :: "config_tracker \<Rightarrow> cluster_config" where
  "active t = (if in_log t = [] then base t else snd (last (in_log t)))"

definition latest_index :: "config_tracker \<Rightarrow> log_index" where
  "latest_index t = (if in_log t = [] then base_index t else fst (last (in_log t)))"

definition config_at :: "config_tracker \<Rightarrow> log_index \<Rightarrow> cluster_config" where
  "config_at t i =
     (case find (\<lambda>(j, _). j \<le> i) (rev (in_log t)) of Some (_, c) \<Rightarrow> c | None \<Rightarrow> base t)"

definition on_append :: "log_index \<Rightarrow> cluster_config \<Rightarrow> config_tracker \<Rightarrow> config_tracker" where
  "on_append i c t = t\<lparr>in_log := filter (\<lambda>(j, _). j < i) (in_log t) @ [(i, c)]\<rparr>"

definition on_truncate :: "log_index \<Rightarrow> config_tracker \<Rightarrow> config_tracker" where
  "on_truncate i t = t\<lparr>in_log := filter (\<lambda>(j, _). j < i) (in_log t)\<rparr>"

definition on_compact :: "log_index \<Rightarrow> config_tracker \<Rightarrow> config_tracker" where
  "on_compact to t =
     t\<lparr>base := config_at t to, base_index := to, in_log := filter (\<lambda>(j, _). j > to) (in_log t)\<rparr>"

definition on_install_snapshot ::
  "cluster_config \<Rightarrow> log_index \<Rightarrow> bool \<Rightarrow> config_tracker \<Rightarrow> config_tracker" where
  "on_install_snapshot c i log_wiped t =
     (let t = (if voters c \<noteq> {} then t\<lparr>base := c\<rparr> else t);
          t = t\<lparr>base_index := i\<rparr>
      in if log_wiped then t\<lparr>in_log := []\<rparr>
         else t\<lparr>in_log := filter (\<lambda>(j, _). j > i) (in_log t)\<rparr>)"

text \<open>Recording a run of appended entries, as \<open>note_appended_configs\<close> and the start-up scan do.\<close>

definition note_configs :: "log_entry list \<Rightarrow> config_tracker \<Rightarrow> config_tracker" where
  "note_configs es t =
     fold (\<lambda>e t. case le_payload e of Config c \<Rightarrow> on_append (le_index e) c t | _ \<Rightarrow> t) es t"

section \<open>The tracker against the log\<close>

definition config_entries :: "(log_index, log_entry) table \<Rightarrow> (log_index \<times> cluster_config) list" where
  "config_entries t =
     List.map_filter (\<lambda>(k, e). case le_payload e of Config c \<Rightarrow> Some (k, c) | _ \<Rightarrow> None) t"

definition tracks :: "config_tracker \<Rightarrow> raft_log \<Rightarrow> bool" where
  "tracks t l \<longleftrightarrow> in_log t = config_entries (log_table l) \<and> base_index t = log_base l"

lemma config_entries_simps [simp]:
  "config_entries [] = []"
  "config_entries (t @ u) = config_entries t @ config_entries u"
  "config_entries (p # t) =
     (case le_payload (snd p) of Config c \<Rightarrow> (fst p, c) # config_entries t | _ \<Rightarrow> config_entries t)"
  by (auto simp: config_entries_def map_filter_def split: entry_payload.splits prod.splits)

lemma config_entries_keys: "(k, c) \<in> set (config_entries t) \<Longrightarrow> k \<in> tbl_keys t"
  by (induction t) (auto simp: tbl_keys_def split: entry_payload.splits)

lemma config_entries_retain:
  "config_entries (tbl_retain (\<lambda>k _. P k) t) = filter (\<lambda>(k, _). P k) (config_entries t)"
  by (induction t) (auto simp: tbl_retain_def split: entry_payload.splits)

lemma tracks_empty: "log_table l = [] \<Longrightarrow> base_index t = log_base l \<Longrightarrow> in_log t = [] \<Longrightarrow> tracks t l"
  by (simp add: tracks_def)

lemma tracker_frame [simp]:
  "base (on_append i c t) = base t" "base_index (on_append i c t) = base_index t"
  "base (on_truncate i t) = base t" "base_index (on_truncate i t) = base_index t"
  "base_index (on_compact i t) = i" "base_index (on_install_snapshot c i w t) = i"
  by (simp_all add: on_append_def on_truncate_def on_compact_def on_install_snapshot_def Let_def)

lemma active_on_append [simp]: "active (on_append i c t) = c"
  by (simp add: active_def on_append_def)

lemma latest_index_on_append [simp]: "latest_index (on_append i c t) = i"
  by (simp add: latest_index_def on_append_def)

lemma note_configs_simps [simp]:
  "note_configs [] t = t"
  "note_configs (e # es) t =
     note_configs es (case le_payload e of Config c \<Rightarrow> on_append (le_index e) c t | _ \<Rightarrow> t)"
  by (simp_all add: note_configs_def)

lemma note_configs_base [simp]:
  "base (note_configs es t) = base t" "base_index (note_configs es t) = base_index t"
  by (induction es arbitrary: t) (auto split: entry_payload.splits)

lemma in_log_bound: "tracks t l \<Longrightarrow> log_wf l \<Longrightarrow> (k, c) \<in> set (in_log t) \<Longrightarrow> log_base l < k \<and> k \<le> last_index l"
  using config_entries_keys [of k c "log_table l"] run_from_keys [of "log_base l" "log_table l"]
  by (auto simp: tracks_def log_wf_def last_index_run)

lemma tracks_append:
  assumes "tracks t l" "log_wf l" "le_index e = Suc (last_index l)"
  shows "tracks (note_configs [e] t) (log_append e l)"
proof -
  have "filter (\<lambda>(j, _). j < Suc (last_index l)) (in_log t) = in_log t"
    using in_log_bound [OF assms(1,2)] by (intro filter_True) (auto simp: less_Suc_eq_le)
  with assms show ?thesis
    by (auto simp: tracks_def log_append_table on_append_def split: entry_payload.splits)
qed

lemma tracks_append_all:
  assumes "tracks t l" "log_wf l" "entries_run (last_index l) es"
  shows "tracks (note_configs es t) (log_append_all es l)"
  using assms
proof (induction es arbitrary: t l)
  case Nil
  then show ?case by simp
next
  case (Cons e es)
  from Cons.prems have e: "le_index e = Suc (last_index l)" by simp
  have "tracks (note_configs [e] t) (log_append e l)"
    using Cons.prems(1,2) e by (rule tracks_append)
  moreover have "log_wf (log_append e l)" "entries_run (last_index (log_append e l)) es"
    using Cons.prems e by (simp_all add: log_append_wf)
  ultimately have "tracks (note_configs es (note_configs [e] t)) (log_append_all es (log_append e l))"
    by (rule Cons.IH)
  then show ?case by (simp add: log_append_all_Cons)
qed

lemma tracks_truncate:
  assumes "tracks t l" "log_wf l" "log_base l < i"
  shows "tracks (on_truncate i t) (truncate_from i l)"
proof -
  have "log_table (truncate_from i l) = tbl_retain (\<lambda>k _. k < i) (log_table l)"
    using assms run_from_retain_below [of "log_base l" "log_table l" i]
    by (simp add: truncate_table log_wf_def)
  with assms(1) show ?thesis
    by (simp add: tracks_def on_truncate_def config_entries_retain)
qed

lemma tracks_compact:
  assumes "tracks t l" "last_included_index m = i"
  shows "tracks (on_compact i t) (compact_to m d l)"
  using assms
  by (simp add: tracks_def on_compact_def compact_to_def write_snapshot_def config_entries_retain
      log_base_def log_snapshot_meta_def not_le)

lemma tracks_install:
  assumes "tracks t l" "last_included_index m = i"
  shows "tracks (on_install_snapshot c i False t) (compact_to m d l)"
    and "tracks (on_install_snapshot c i True t) (install_snapshot_replacing_log m d l)"
  using assms
  by (simp_all add: tracks_def on_install_snapshot_def compact_to_def write_snapshot_def
      config_entries_retain log_base_def log_snapshot_meta_def not_le Let_def)

text \<open>The start-up scan rebuilds the tracker from the log alone.\<close>

lemma note_configs_in_log:
  assumes "sorted_wrt (<) (map le_index es)" "\<And>j c e. (j, c) \<in> set (in_log t) \<Longrightarrow> e \<in> set es \<Longrightarrow> j < le_index e"
  shows "in_log (note_configs es t) = in_log t @ config_entries (map (\<lambda>e. (le_index e, e)) es)"
  using assms
proof (induction es arbitrary: t)
  case Nil
  then show ?case by simp
next
  case (Cons e es)
  have keep: "filter (\<lambda>(j, _). j < le_index e) (in_log t) = in_log t"
    using Cons.prems(2) by (intro filter_True) auto
  show ?case
  proof (cases "le_payload e")
    case (Config c)
    have "in_log (note_configs es (on_append (le_index e) c t)) =
        in_log (on_append (le_index e) c t) @ config_entries (map (\<lambda>e. (le_index e, e)) es)"
      using Cons.prems keep by (intro Cons.IH) (auto simp: on_append_def)
    with Config keep show ?thesis by (simp add: on_append_def)
  qed (use Cons in auto)
qed

lemma run_from_pairs: "run_from b t \<Longrightarrow> map (\<lambda>e. (le_index e, e)) (map snd t) = t"
  by (auto simp: run_from_def simp del: upt_Suc intro!: map_idI)

lemma run_from_sorted: "run_from b t \<Longrightarrow> sorted_wrt (<) (map le_index (map snd t))"
proof -
  assume r: "run_from b t"
  then have eq: "map le_index (map snd t) = map fst t"
    unfolding run_from_def map_map by (intro map_cong) auto
  show ?thesis using run_from_tbl_wf [OF r] by (simp only: tbl_wf_def eq)
qed

lemma entries_from_all: "log_wf l \<Longrightarrow> i \<le> Suc (log_base l) \<Longrightarrow> entries_from l i = map snd (log_table l)"
proof -
  assume "log_wf l" "i \<le> Suc (log_base l)"
  then have "\<forall>p \<in> set (log_table l). i \<le> fst p"
    using run_from_le_index [of "log_base l" "log_table l"] by (fastforce simp: log_wf_def)
  then show ?thesis
    by (auto simp: entries_from_def tbl_range_from_def tbl_retain_def intro!: arg_cong [where f = "map snd"] filter_True)
qed

lemma tracks_recovered:
  assumes "log_wf l"
  shows "tracks (note_configs (map snd (log_table l)) (tracker_new c (log_base l))) l"
proof -
  have "in_log (note_configs (map snd (log_table l)) (tracker_new c (log_base l))) = config_entries (log_table l)"
    using assms run_from_pairs [of "log_base l" "log_table l"] run_from_sorted [of "log_base l" "log_table l"]
    by (subst note_configs_in_log) (auto simp: tracker_new_def log_wf_def)
  then show ?thesis by (simp add: tracks_def tracker_new_def)
qed

end
