(* ===== verification/Raft_Node.thy ===== *)
theory Raft_Node
  imports Raft_Wire Raft_Rng Raft_Config
begin

text \<open>
  The consensus node of \<open>brokkr-raft/src/node.rs\<close>: elections, log replication, the commit
  rule, snapshots, joint-consensus membership changes and ReadIndex. The node is a record;
  every method is a function from the node to its result and the node it leaves behind.
  Reads and writes of the durable log always succeed here: a storage fault ends the driver's
  event loop, so it is treated where the store is (\<open>Raft_Storage\<close>).
\<close>

section \<open>State\<close>

type_synonym instant = nat

record raft_config =
  min_election_timeout :: duration
  max_election_timeout :: duration
  heartbeat_interval :: duration
  snapshot_threshold :: nat
  catch_up_margin :: nat

definition raft_config_default :: raft_config where
  "raft_config_default =
     \<lparr>min_election_timeout = from_millis 150, max_election_timeout = from_millis 300,
      heartbeat_interval = from_millis 50, snapshot_threshold = 8192, catch_up_margin = 256\<rparr>"

record pending_read =
  pr_id :: nat
  pr_read_index :: log_index
  pr_confirm_seq :: nat
  pr_acks :: "node_id set"

record leader_state =
  next_index :: "(node_id, log_index) table"
  match_index :: "(node_id, log_index) table"
  ae_seq :: nat
  term_start_index :: log_index
  pending_reads :: "pending_read list"

datatype role = Follower | Candidate "node_id set" | Leader leader_state

datatype outbound =
    OutRequestVote node_id request_vote
  | OutAppendEntries node_id append_entries
  | OutInstallSnapshot node_id install_snapshot

record raft_node =
  n_id :: node_id
  n_configs :: config_tracker
  n_role :: role
  n_log :: raft_log
  n_hard :: hard_state
  n_commit_index :: log_index
  n_snapshot :: "snapshot_meta option"
  n_leader_id :: "node_id option"
  n_last_leader_contact :: "instant option"
  n_rng :: rng
  n_config :: raft_config
  n_election_deadline :: instant
  n_heartbeat_deadline :: instant
  n_read_seq :: nat
  n_read_results :: "(nat \<times> (raft_error + log_index)) list"

type_synonym 'a outcome = "(raft_error + 'a) \<times> raft_node"

text \<open>The \<open>?\<close> operator: go on with the value, or return the error with the node as it is.\<close>

definition and_then :: "'a outcome \<Rightarrow> ('a \<Rightarrow> raft_node \<Rightarrow> 'b outcome) \<Rightarrow> 'b outcome" where
  "and_then r f = (case r of (Inl e, n) \<Rightarrow> (Inl e, n) | (Inr x, n) \<Rightarrow> f x n)"

section \<open>Accessors\<close>

definition is_leader :: "raft_node \<Rightarrow> bool" where
  "is_leader n = (case n_role n of Leader _ \<Rightarrow> True | _ \<Rightarrow> False)"

definition is_candidate :: "raft_node \<Rightarrow> bool" where
  "is_candidate n = (case n_role n of Candidate _ \<Rightarrow> True | _ \<Rightarrow> False)"

definition snapshot_index :: "raft_node \<Rightarrow> log_index" where
  "snapshot_index n = (case n_snapshot n of Some m \<Rightarrow> last_included_index m | None \<Rightarrow> 0)"

definition active_config :: "raft_node \<Rightarrow> cluster_config" where
  "active_config n = active (n_configs n)"

definition replication_targets :: "raft_node \<Rightarrow> node_id list" where
  "replication_targets n =
     (let a = active_config n;
          members = voters a;
          members = (case old_voters a of Some old \<Rightarrow> members \<union> old | None \<Rightarrow> members);
          members = members \<union> learners a
      in sorted_list_of_set (members - {n_id n}))"

definition vote_targets :: "raft_node \<Rightarrow> node_id list" where
  "vote_targets n =
     (let a = active_config n;
          vs = voters a;
          vs = (case old_voters a of Some old \<Rightarrow> vs \<union> old | None \<Rightarrow> vs)
      in sorted_list_of_set (vs - {n_id n}))"

definition term_at :: "raft_node \<Rightarrow> log_index \<Rightarrow> raft_term option" where
  "term_at n i =
     (case log_get (n_log n) i of
        Some e \<Rightarrow> Some (le_term e)
      | None \<Rightarrow>
          (case n_snapshot n of
             Some m \<Rightarrow> if last_included_index m = i then Some (last_included_term m) else None
           | None \<Rightarrow> None))"

definition is_voter :: "raft_node \<Rightarrow> bool" where
  "is_voter n \<longleftrightarrow>
     n_id n \<in> voters (active_config n) \<or>
     (case old_voters (active_config n) of Some old \<Rightarrow> n_id n \<in> old | None \<Rightarrow> False)"

section \<open>Timers, terms\<close>

definition arm_election_timer :: "instant \<Rightarrow> raft_node \<Rightarrow> raft_node" where
  "arm_election_timer now n =
     (let (timeout, r) =
        election_timeout (min_election_timeout (n_config n)) (max_election_timeout (n_config n)) (n_rng n)
      in n\<lparr>n_rng := r, n_election_deadline := now + timeout\<rparr>)"

definition arm_heartbeat_timer :: "instant \<Rightarrow> raft_node \<Rightarrow> raft_node" where
  "arm_heartbeat_timer now n = n\<lparr>n_heartbeat_deadline := now + heartbeat_interval (n_config n)\<rparr>"

definition step_down_to_follower :: "raft_node \<Rightarrow> raft_node" where
  "step_down_to_follower n =
     (let n = (case n_role n of
                 Leader s \<Rightarrow>
                   n\<lparr>n_read_results :=
                       n_read_results n @ map (\<lambda>r. (pr_id r, Inl (NotLeader None))) (pending_reads s)\<rparr>
               | _ \<Rightarrow> n)
      in n\<lparr>n_role := Follower\<rparr>)"

definition observe_term :: "raft_term \<Rightarrow> instant \<Rightarrow> raft_node \<Rightarrow> bool \<times> raft_node" where
  "observe_term t now n =
     (if t > current_term (n_hard n) then
        (let n = n\<lparr>n_hard := stepped_to t (n_hard n)\<rparr>;
             n = step_down_to_follower n;
             n = n\<lparr>n_leader_id := None\<rparr>;
             n = n\<lparr>n_log := save_hard_state (n_hard n) (n_log n)\<rparr>;
             n = arm_election_timer now n
         in (True, n))
      else (False, n))"

section \<open>Replication messages\<close>

definition append_entries_for :: "raft_node \<Rightarrow> node_id \<Rightarrow> log_index \<Rightarrow> nat \<Rightarrow> raft_error + outbound" where
  "append_entries_for n peer nxt seq =
     (if nxt \<le> snapshot_index n then
        (case log_snapshot (n_log n) of
           None \<Rightarrow> Inl (SnapshotError ''snapshot metadata cached but blob missing'')
         | Some (meta, data) \<Rightarrow>
             Inr (OutInstallSnapshot peer
               \<lparr>is_term = current_term (n_hard n), is_leader_id = n_id n,
                is_last_included_index = last_included_index meta,
                is_last_included_term = last_included_term meta,
                is_offset = 0, is_data = data, is_done = True, is_config = snap_config meta\<rparr>))
      else
        (let prev_log_index = index_prev nxt;
             prev_log_term =
               (if prev_log_index = 0 then 0
                else (case term_at n prev_log_index of Some t \<Rightarrow> t | None \<Rightarrow> 0))
         in Inr (OutAppendEntries peer
              \<lparr>ae_term = current_term (n_hard n), ae_leader_id = n_id n,
               ae_prev_log_index = prev_log_index, ae_prev_log_term = prev_log_term,
               ae_entries = entries_from (n_log n) nxt,
               ae_leader_commit = n_commit_index n, ae_seq_no = seq\<rparr>)))"

definition next_for :: "leader_state \<Rightarrow> node_id \<Rightarrow> log_index" where
  "next_for s peer = (case tbl_get (next_index s) peer of Some i \<Rightarrow> i | None \<Rightarrow> 1)"

fun replication_plans :: "leader_state \<Rightarrow> node_id list \<Rightarrow> (node_id \<times> log_index \<times> nat) list \<times> leader_state" where
  "replication_plans s [] = ([], s)"
| "replication_plans s (peer # ps) =
     (let nxt = next_for s peer;
          s = s\<lparr>ae_seq := wrap_add (ae_seq s) 1\<rparr>;
          (rest, s') = replication_plans s ps
      in ((peer, nxt, ae_seq s) # rest, s'))"

definition replicate_all :: "raft_node \<Rightarrow> outbound list outcome" where
  "replicate_all n =
     (case n_role n of
        Leader s \<Rightarrow>
          (let (plans, s') = replication_plans s (replication_targets n);
               n = n\<lparr>n_role := Leader s'\<rparr>
           in (collect_results (\<lambda>(peer, nxt, seq). append_entries_for n peer nxt seq) plans, n))
      | _ \<Rightarrow> (Inr [], n))"

definition replicate_to :: "node_id \<Rightarrow> raft_node \<Rightarrow> outbound list outcome" where
  "replicate_to peer n =
     (case n_role n of
        Leader s \<Rightarrow>
          (let nxt = next_for s peer;
               s = s\<lparr>ae_seq := wrap_add (ae_seq s) 1\<rparr>;
               n = n\<lparr>n_role := Leader s\<rparr>
           in (case append_entries_for n peer nxt (ae_seq s) of
                 Inl e \<Rightarrow> (Inl e, n)
               | Inr m \<Rightarrow> (Inr [m], n)))
      | _ \<Rightarrow> (Inr [], n))"

definition refresh_leader_state :: "raft_node \<Rightarrow> raft_node" where
  "refresh_leader_state n =
     (let targets = replication_targets n;
          optimistic_next = index_next (last_index (n_log n))
      in (case n_role n of
            Leader s \<Rightarrow>
              (let nx = tbl_retain (\<lambda>p _. p \<in> set targets) (next_index s);
                   mt = tbl_retain (\<lambda>p _. p \<in> set targets) (match_index s);
                   nx = fold (\<lambda>t m. if tbl_get m t = None then tbl_insert t optimistic_next m else m) targets nx;
                   mt = fold (\<lambda>t m. if tbl_get m t = None then tbl_insert t 0 m else m) targets mt
               in n\<lparr>n_role := Leader (s\<lparr>next_index := nx, match_index := mt\<rparr>)\<rparr>)
          | _ \<Rightarrow> n))"

section \<open>The commit rule and its follow-ups\<close>

definition commit_acks :: "raft_node \<Rightarrow> leader_state \<Rightarrow> log_index \<Rightarrow> node_id set" where
  "commit_acks n s i = insert (n_id n) (set (map fst (filter (\<lambda>(_, m). m \<ge> i) (match_index s))))"

definition committable :: "raft_node \<Rightarrow> leader_state \<Rightarrow> log_index \<Rightarrow> bool" where
  "committable n s i \<longleftrightarrow>
     has_quorum (active_config n) (commit_acks n s i) \<and>
     (case log_get (n_log n) i of Some e \<Rightarrow> le_term e | None \<Rightarrow> 0) = current_term (n_hard n)"

fun commit_scan :: "raft_node \<Rightarrow> leader_state \<Rightarrow> log_index \<Rightarrow> log_index" where
  "commit_scan n s 0 = n_commit_index n"
| "commit_scan n s (Suc k) =
     (if Suc k > n_commit_index n then
        (if committable n s (Suc k) then Suc k else commit_scan n s (index_prev (Suc k)))
      else n_commit_index n)"

definition joint_weight :: "cluster_config \<Rightarrow> nat" where
  "joint_weight c = (if is_joint c then 4 else 0)"

definition final_config :: "cluster_config \<Rightarrow> cluster_config" where
  "final_config a = \<lparr>voters = voters a, old_voters = None, learners = learners a\<rparr>"

lemma active_config_commit [simp]: "active_config (n\<lparr>n_commit_index := i\<rparr>) = active_config n"
  by (simp add: active_config_def)

lemma active_config_refresh [simp]: "active_config (refresh_leader_state n) = active_config n"
  by (auto simp: refresh_leader_state_def active_config_def Let_def split: role.splits)

lemma joint_weight_final [simp]: "joint_weight (final_config a) = 0"
  by (simp add: joint_weight_def final_config_def is_joint_def)

text \<open>
  A moved commit index can append a configuration entry, whose append can move the commit
  index again. The recursion ends because the follow-up configuration is never joint.
\<close>

function advance_commit_index :: "instant \<Rightarrow> raft_node \<Rightarrow> outbound list outcome"
  and after_commit_config_actions :: "instant \<Rightarrow> raft_node \<Rightarrow> outbound list outcome"
  and append_config_entry :: "cluster_config \<Rightarrow> instant \<Rightarrow> raft_node \<Rightarrow> outbound list outcome"
where
  "advance_commit_index now n =
     (case n_role n of
        Leader s \<Rightarrow>
          (let new_commit = commit_scan n s (last_index (n_log n))
           in if new_commit = n_commit_index n then (Inr [], n)
              else after_commit_config_actions now (n\<lparr>n_commit_index := new_commit\<rparr>))
      | _ \<Rightarrow> (Inr [], n))"
| "after_commit_config_actions now n =
     (if \<not> is_leader n then (Inr [], n)
      else if latest_index (n_configs n) > n_commit_index n then (Inr [], n)
      else if is_joint (active_config n) then
        append_config_entry (final_config (active_config n)) now n
      else if n_id n \<notin> voters (active_config n) then
        (Inr [], arm_election_timer now ((step_down_to_follower n)\<lparr>n_leader_id := None\<rparr>))
      else (Inr [], n))"
| "append_config_entry c now n =
     (let i = index_next (last_index (n_log n));
          e = entry_with_payload (current_term (n_hard n)) i (Config c);
          n = n\<lparr>n_log := log_append e (n_log n)\<rparr>;
          n = n\<lparr>n_configs := on_append i c (n_configs n)\<rparr>;
          n = refresh_leader_state n
      in and_then (advance_commit_index now n) (\<lambda>outs n.
         and_then (replicate_all n) (\<lambda>outs' n. (Inr (outs @ outs'), n))))"
  by pat_completeness auto
termination
proof (relation "measure (\<lambda>x. case x of
      Inl (now, n) \<Rightarrow> joint_weight (active_config n) + 2
    | Inr (Inl (now, n)) \<Rightarrow> joint_weight (active_config n) + 1
    | Inr (Inr (c, now, n)) \<Rightarrow> joint_weight c + 3)")
qed (auto simp: joint_weight_def final_config_def is_joint_def active_config_def refresh_leader_state_def
      Let_def split: role.splits)

declare advance_commit_index.simps [simp del] after_commit_config_actions.simps [simp del]
  append_config_entry.simps [simp del]

section \<open>Elections\<close>

definition become_leader :: "instant \<Rightarrow> raft_node \<Rightarrow> outbound list outcome" where
  "become_leader now n =
     (let last = last_index (n_log n);
          targets = replication_targets n;
          nx = fold (\<lambda>p. tbl_insert p (index_next last)) targets [];
          mt = fold (\<lambda>p. tbl_insert p 0) targets [];
          noop_index = index_next last;
          noop = entry_with_payload (current_term (n_hard n)) noop_index Noop;
          n = n\<lparr>n_log := log_append noop (n_log n)\<rparr>;
          n = n\<lparr>n_role := Leader \<lparr>next_index = nx, match_index = mt, ae_seq = 0,
                                 term_start_index = noop_index, pending_reads = []\<rparr>\<rparr>;
          n = n\<lparr>n_leader_id := Some (n_id n)\<rparr>;
          n = arm_heartbeat_timer now n
      in and_then (advance_commit_index now n) (\<lambda>outs n.
         and_then (replicate_all n) (\<lambda>outs' n. (Inr (outs @ outs'), n))))"

definition start_election :: "instant \<Rightarrow> raft_node \<Rightarrow> outbound list outcome" where
  "start_election now n =
     (let new_term = term_next (current_term (n_hard n));
          n = n\<lparr>n_hard := voting_for (n_id n) (stepped_to new_term (n_hard n))\<rparr>;
          n = n\<lparr>n_log := save_hard_state (n_hard n) (n_log n)\<rparr>;
          votes = {n_id n};
          self_quorum = has_quorum (active_config n) votes;
          n = n\<lparr>n_role := Candidate votes\<rparr>;
          n = n\<lparr>n_leader_id := None\<rparr>;
          n = arm_election_timer now n
      in if self_quorum then become_leader now n
         else
           (let (last_log_index, last_log_term) = last_index_and_term (n_log n);
                request = \<lparr>rv_term = new_term, rv_candidate_id = n_id n,
                           rv_last_log_index = last_log_index, rv_last_log_term = last_log_term\<rparr>
            in (Inr (map (\<lambda>peer. OutRequestVote peer request) (vote_targets n)), n)))"

definition tick :: "instant \<Rightarrow> raft_node \<Rightarrow> outbound list outcome" where
  "tick now n =
     (if is_leader n then
        (if now \<ge> n_heartbeat_deadline n then replicate_all (arm_heartbeat_timer now n)
         else (Inr [], n))
      else if now \<ge> n_election_deadline n then
        (if \<not> is_voter n then (Inr [], arm_election_timer now n)
         else start_election now n)
      else (Inr [], n))"

definition leader_is_current :: "instant \<Rightarrow> raft_node \<Rightarrow> bool" where
  "leader_is_current now n \<longleftrightarrow>
     is_leader n \<or>
     (case n_last_leader_contact n of
        Some contact \<Rightarrow> now - contact < min_election_timeout (n_config n)
      | None \<Rightarrow> False)"

definition candidate_is_up_to_date :: "raft_node \<Rightarrow> raft_term \<Rightarrow> log_index \<Rightarrow> bool" where
  "candidate_is_up_to_date n cand_term cand_index \<longleftrightarrow>
     (let (our_index, our_term) = last_index_and_term (n_log n)
      in cand_term > our_term \<or> cand_term = our_term \<and> cand_index \<ge> our_index)"

definition handle_request_vote ::
  "request_vote \<Rightarrow> instant \<Rightarrow> raft_node \<Rightarrow> request_vote_response \<times> raft_node" where
  "handle_request_vote req now n =
     (if leader_is_current now n then
        (\<lparr>rvr_term = current_term (n_hard n), rvr_vote_granted = False\<rparr>, n)
      else
        (let n = snd (observe_term (rv_term req) now n);
             t = current_term (n_hard n)
         in if rv_term req < t then (\<lparr>rvr_term = t, rvr_vote_granted = False\<rparr>, n)
            else
              (let free_to_vote =
                     (case voted_for (n_hard n) of None \<Rightarrow> True | Some v \<Rightarrow> v = rv_candidate_id req);
                   up_to_date = candidate_is_up_to_date n (rv_last_log_term req) (rv_last_log_index req)
               in if free_to_vote \<and> up_to_date then
                    (let n = n\<lparr>n_hard := voting_for (rv_candidate_id req) (n_hard n)\<rparr>;
                         n = n\<lparr>n_log := save_hard_state (n_hard n) (n_log n)\<rparr>;
                         n = arm_election_timer now n
                     in (\<lparr>rvr_term = t, rvr_vote_granted = True\<rparr>, n))
                  else (\<lparr>rvr_term = t, rvr_vote_granted = False\<rparr>, n))))"

definition handle_request_vote_response ::
  "node_id \<Rightarrow> request_vote_response \<Rightarrow> instant \<Rightarrow> raft_node \<Rightarrow> outbound list outcome" where
  "handle_request_vote_response from resp now n =
     (let (stepped, n) = observe_term (rvr_term resp) now n
      in if stepped then (Inr [], n)
         else if rvr_term resp \<noteq> current_term (n_hard n) then (Inr [], n)
         else (case n_role n of
                 Candidate votes \<Rightarrow>
                   (let votes = (if rvr_vote_granted resp then insert from votes else votes);
                        n = n\<lparr>n_role := Candidate votes\<rparr>
                    in if has_quorum (active_config n) votes then become_leader now n
                       else (Inr [], n))
               | _ \<Rightarrow> (Inr [], n)))"

section \<open>The AppendEntries receiver\<close>

definition reject :: "raft_term \<Rightarrow> nat \<Rightarrow> append_entries_response" where
  "reject t seq =
     \<lparr>aer_term = t, aer_success = False, aer_conflict_term = 0, aer_conflict_index = 0,
      aer_match_index = 0, aer_seq = seq\<rparr>"

definition log_matches :: "raft_node \<Rightarrow> log_index \<Rightarrow> raft_term \<Rightarrow> bool" where
  "log_matches n prev_index prev_term \<longleftrightarrow>
     prev_index = 0 \<or> prev_index < snapshot_index n \<or> term_at n prev_index = Some prev_term"

fun conflict_scan :: "raft_log \<Rightarrow> raft_term \<Rightarrow> log_index \<Rightarrow> log_index" where
  "conflict_scan l ct (Suc (Suc k)) =
     (case log_get l (index_prev (Suc (Suc k))) of
        Some e \<Rightarrow> if le_term e = ct then conflict_scan l ct (Suc k) else Suc (Suc k)
      | None \<Rightarrow> Suc (Suc k))"
| "conflict_scan l ct i = i"

definition conflict_hint :: "raft_node \<Rightarrow> log_index \<Rightarrow> raft_term \<times> log_index" where
  "conflict_hint n prev_index =
     (let last = last_index (n_log n)
      in if prev_index > last then (0, index_next last)
         else
           (let conflict_term = (case log_get (n_log n) prev_index of Some e \<Rightarrow> le_term e | None \<Rightarrow> 0)
            in (conflict_term, conflict_scan (n_log n) conflict_term prev_index)))"

definition note_appended_configs :: "log_entry list \<Rightarrow> raft_node \<Rightarrow> raft_node" where
  "note_appended_configs es n = n\<lparr>n_configs := note_configs es (n_configs n)\<rparr>"

fun append_new_entries :: "log_entry list \<Rightarrow> raft_node \<Rightarrow> raft_node" where
  "append_new_entries [] n = n"
| "append_new_entries (e # es) n =
     (if le_index e \<le> snapshot_index n then append_new_entries es n
      else (case log_get (n_log n) (le_index e) of
              Some existing \<Rightarrow>
                if le_term existing = le_term e then append_new_entries es n
                else
                  (let n = n\<lparr>n_log := truncate_from (le_index e) (n_log n)\<rparr>;
                       n = n\<lparr>n_configs := on_truncate (le_index e) (n_configs n)\<rparr>;
                       n = n\<lparr>n_log := log_append_all (e # es) (n_log n)\<rparr>
                   in note_appended_configs (e # es) n)
            | None \<Rightarrow>
                note_appended_configs (e # es) (n\<lparr>n_log := log_append_all (e # es) (n_log n)\<rparr>)))"

definition recognize_leader :: "node_id \<Rightarrow> instant \<Rightarrow> raft_node \<Rightarrow> raft_node" where
  "recognize_leader l now n =
     (let n = step_down_to_follower n;
          n = n\<lparr>n_leader_id := Some l\<rparr>;
          n = n\<lparr>n_last_leader_contact := Some now\<rparr>
      in arm_election_timer now n)"

definition handle_append_entries ::
  "append_entries \<Rightarrow> instant \<Rightarrow> raft_node \<Rightarrow> append_entries_response \<times> raft_node" where
  "handle_append_entries req now n =
     (let n = snd (observe_term (ae_term req) now n);
          t = current_term (n_hard n)
      in if ae_term req < t then (reject t (ae_seq_no req), n)
         else
           (let n = recognize_leader (ae_leader_id req) now n
            in if \<not> log_matches n (ae_prev_log_index req) (ae_prev_log_term req) then
                 (let (ct, ci) = conflict_hint n (ae_prev_log_index req)
                  in (\<lparr>aer_term = t, aer_success = False, aer_conflict_term = ct,
                       aer_conflict_index = ci, aer_match_index = 0, aer_seq = ae_seq_no req\<rparr>, n))
               else
                 (let n = append_new_entries (ae_entries req) n;
                      matched = wrap_add (ae_prev_log_index req) (length (ae_entries req));
                      n = (if ae_leader_commit req > n_commit_index n
                           then n\<lparr>n_commit_index := min (ae_leader_commit req) matched\<rparr> else n)
                  in (\<lparr>aer_term = t, aer_success = True, aer_conflict_term = 0,
                       aer_conflict_index = 0, aer_match_index = matched, aer_seq = ae_seq_no req\<rparr>, n))))"

section \<open>The AppendEntries sender\<close>

definition note_leadership_ack :: "node_id \<Rightarrow> nat \<Rightarrow> raft_node \<Rightarrow> raft_node" where
  "note_leadership_ack from seq n =
     (case n_role n of
        Leader s \<Rightarrow>
          (let a = active_config n;
               credited = map (\<lambda>r. if seq \<ge> pr_confirm_seq r
                                   then r\<lparr>pr_acks := insert from (pr_acks r)\<rparr> else r) (pending_reads s);
               ready = map (\<lambda>r. (pr_id r, Inr (pr_read_index r))) (filter (\<lambda>r. has_quorum a (pr_acks r)) credited);
               waiting = filter (\<lambda>r. \<not> has_quorum a (pr_acks r)) credited
           in n\<lparr>n_role := Leader (s\<lparr>pending_reads := waiting\<rparr>),
                n_read_results := n_read_results n @ ready\<rparr>)
      | _ \<Rightarrow> n)"

definition record_match :: "node_id \<Rightarrow> log_index \<Rightarrow> raft_node \<Rightarrow> raft_node" where
  "record_match peer m n =
     (case n_role n of
        Leader s \<Rightarrow>
          (let old = (case tbl_get (match_index s) peer of Some i \<Rightarrow> i | None \<Rightarrow> 0)
           in n\<lparr>n_role := Leader
                  (s\<lparr>match_index := tbl_insert peer (if m > old then m else old) (match_index s),
                     next_index := tbl_insert peer (index_next m) (next_index s)\<rparr>)\<rparr>)
      | _ \<Rightarrow> n)"

definition back_off :: "node_id \<Rightarrow> log_index \<Rightarrow> raft_node \<Rightarrow> raft_node" where
  "back_off peer conflict_index n =
     (case n_role n of
        Leader s \<Rightarrow>
          n\<lparr>n_role := Leader (s\<lparr>next_index := tbl_insert peer (max conflict_index 1) (next_index s)\<rparr>)\<rparr>
      | _ \<Rightarrow> n)"

definition peer_is_behind :: "node_id \<Rightarrow> raft_node \<Rightarrow> bool" where
  "peer_is_behind peer n =
     (case n_role n of Leader s \<Rightarrow> next_for s peer \<le> last_index (n_log n) | _ \<Rightarrow> False)"

definition advance_and_continue :: "node_id \<Rightarrow> instant \<Rightarrow> raft_node \<Rightarrow> outbound list outcome" where
  "advance_and_continue from now n =
     and_then (advance_commit_index now n) (\<lambda>outs n.
       if peer_is_behind from n
       then and_then (replicate_to from n) (\<lambda>outs' n. (Inr (outs @ outs'), n))
       else (Inr outs, n))"

definition handle_append_entries_response ::
  "node_id \<Rightarrow> append_entries_response \<Rightarrow> instant \<Rightarrow> raft_node \<Rightarrow> outbound list outcome" where
  "handle_append_entries_response from resp now n =
     (let (stepped, n) = observe_term (aer_term resp) now n
      in if stepped then (Inr [], n)
         else if aer_term resp \<noteq> current_term (n_hard n) \<or> \<not> is_leader n then (Inr [], n)
         else
           (let n = note_leadership_ack from (aer_seq resp) n
            in if aer_success resp
               then advance_and_continue from now (record_match from (aer_match_index resp) n)
               else replicate_to from (back_off from (aer_conflict_index resp) n)))"

section \<open>Snapshots\<close>

definition handle_install_snapshot ::
  "install_snapshot \<Rightarrow> instant \<Rightarrow> raft_node \<Rightarrow> install_snapshot_response outcome" where
  "handle_install_snapshot req now n =
     (let n = snd (observe_term (is_term req) now n);
          t = current_term (n_hard n)
      in if is_term req < t then (Inr \<lparr>isr_term = t\<rparr>, n)
         else if is_offset req \<noteq> 0 \<or> \<not> is_done req then
           (Inl (SnapshotError ''chunked InstallSnapshot is not supported (single-shot only)''), n)
         else
           (let n = recognize_leader (is_leader_id req) now n
            in if is_last_included_index req \<le> snapshot_index n
                 \<or> is_last_included_index req \<le> n_commit_index n
               then (Inr \<lparr>isr_term = t\<rparr>, n)
               else
                 (let meta = \<lparr>last_included_index = is_last_included_index req,
                              last_included_term = is_last_included_term req,
                              snap_config = is_config req\<rparr>;
                      basis_matches =
                        (map_option le_term (log_get (n_log n) (last_included_index meta))
                           = Some (last_included_term meta));
                      n = n\<lparr>n_log :=
                            (if basis_matches then compact_to meta (is_data req) (n_log n)
                             else install_snapshot_replacing_log meta (is_data req) (n_log n))\<rparr>;
                      n = n\<lparr>n_configs :=
                            on_install_snapshot (is_config req) (last_included_index meta)
                              (\<not> basis_matches) (n_configs n)\<rparr>;
                      n = n\<lparr>n_commit_index := last_included_index meta\<rparr>;
                      n = n\<lparr>n_snapshot := Some meta\<rparr>
                  in (Inr \<lparr>isr_term = t\<rparr>, n))))"

definition handle_install_snapshot_response ::
  "node_id \<Rightarrow> install_snapshot_response \<Rightarrow> instant \<Rightarrow> raft_node \<Rightarrow> outbound list outcome" where
  "handle_install_snapshot_response from resp now n =
     (let (stepped, n) = observe_term (isr_term resp) now n
      in if stepped then (Inr [], n)
         else if isr_term resp \<noteq> current_term (n_hard n) \<or> \<not> is_leader n then (Inr [], n)
         else (case n_snapshot n of
                 None \<Rightarrow> (Inr [], n)
               | Some m \<Rightarrow> advance_and_continue from now (record_match from (last_included_index m) n)))"

definition needs_snapshot :: "raft_node \<Rightarrow> bool" where
  "needs_snapshot n \<longleftrightarrow>
     sat_sub (n_commit_index n) (snapshot_index n) > snapshot_threshold (n_config n)"

definition compact :: "byte list \<Rightarrow> raft_node \<Rightarrow> snapshot_meta outcome" where
  "compact data n =
     (let i = n_commit_index n
      in if i = 0 \<or> i \<le> snapshot_index n then
           (Inl (SnapshotError (''nothing to compact: commit index '' @ show_nat i @
                   '', snapshot already at '' @ show_nat (snapshot_index n))), n)
         else (case term_at n i of
                 None \<Rightarrow> (Inl (SnapshotError (''no term known for committed index '' @ show_nat i)), n)
               | Some t \<Rightarrow>
                   (let meta = \<lparr>last_included_index = i, last_included_term = t,
                                snap_config = config_at (n_configs n) i\<rparr>;
                        n = n\<lparr>n_log := compact_to meta data (n_log n)\<rparr>;
                        n = n\<lparr>n_snapshot := Some meta\<rparr>;
                        n = n\<lparr>n_configs := on_compact i (n_configs n)\<rparr>
                    in (Inr meta, n))))"

section \<open>The client interface\<close>

definition propose :: "byte list \<Rightarrow> instant \<Rightarrow> raft_node \<Rightarrow> outbound list outcome" where
  "propose command now n =
     (if \<not> is_leader n then (Inl (NotLeader (n_leader_id n)), n)
      else
        (let i = index_next (last_index (n_log n));
             e = entry_new (current_term (n_hard n)) i command;
             n = n\<lparr>n_log := log_append e (n_log n)\<rparr>
         in and_then (advance_commit_index now n) (\<lambda>outs n.
            and_then (replicate_all n) (\<lambda>outs' n. (Inr (outs @ outs'), n)))))"

definition start_read :: "instant \<Rightarrow> raft_node \<Rightarrow> (nat \<times> outbound list) outcome" where
  "start_read now n =
     (case n_role n of
        Leader s \<Rightarrow>
          (let rid = wrap_add (n_read_seq n) 1;
               n = n\<lparr>n_read_seq := rid\<rparr>;
               self_is_quorum = has_quorum (active_config n) {n_id n};
               read_index = max (term_start_index s) (n_commit_index n)
           in if self_is_quorum then
                (Inr (rid, []), n\<lparr>n_read_results := n_read_results n @ [(rid, Inr read_index)]\<rparr>)
              else
                (let r = \<lparr>pr_id = rid, pr_read_index = read_index,
                          pr_confirm_seq = wrap_add (ae_seq s) 1, pr_acks = {n_id n}\<rparr>;
                     n = n\<lparr>n_role := Leader (s\<lparr>pending_reads := pending_reads s @ [r]\<rparr>)\<rparr>
                 in and_then (replicate_all n) (\<lambda>outs n. (Inr (rid, outs), n))))
      | _ \<Rightarrow> (Inl (NotLeader (n_leader_id n)), n))"

definition drain_read_results ::
  "raft_node \<Rightarrow> (nat \<times> (raft_error + log_index)) list \<times> raft_node" where
  "drain_read_results n = (n_read_results n, n\<lparr>n_read_results := []\<rparr>)"

definition change_in_flight :: "raft_node \<Rightarrow> bool" where
  "change_in_flight n \<longleftrightarrow>
     is_joint (active_config n) \<or> latest_index (n_configs n) > n_commit_index n"

definition not_caught_up :: "raft_node \<Rightarrow> leader_state \<Rightarrow> node_id set \<Rightarrow> node_id option" where
  "not_caught_up n s new_voters =
     (let last = last_index (n_log n);
          floor = sat_sub last (catch_up_margin (n_config n))
      in find (\<lambda>added. (case tbl_get (match_index s) added of Some m \<Rightarrow> m | None \<Rightarrow> 0) < floor)
           (sorted_list_of_set (new_voters - voters (active_config n))))"

definition propose_conf_change :: "node_id set \<Rightarrow> instant \<Rightarrow> raft_node \<Rightarrow> outbound list outcome" where
  "propose_conf_change new_voters now n =
     (case n_role n of
        Leader s \<Rightarrow>
          (if new_voters = {} then
             (Inl (ConfChange ''the new configuration must have at least one voter''), n)
           else if change_in_flight n then
             (Inl (ConfChange ''a configuration change is already in flight (one at a time)''), n)
           else if new_voters = voters (active_config n) then
             (Inl (ConfChange ''the new configuration is identical to the current one''), n)
           else (case not_caught_up n s new_voters of
                   Some added \<Rightarrow>
                     (Inl (ConfChange (''voter '' @ added @ '' is not caught up (replicated to '' @
                        show_nat (case tbl_get (match_index s) added of Some m \<Rightarrow> m | None \<Rightarrow> 0) @
                        '', leader log at '' @ show_nat (last_index (n_log n)) @
                        ''); add it as a learner first'')), n)
                 | None \<Rightarrow>
                     append_config_entry
                       \<lparr>voters = new_voters, old_voters = Some (voters (active_config n)),
                        learners = {l \<in> learners (active_config n). l \<notin> new_voters}\<rparr> now n))
      | _ \<Rightarrow> (Inl (NotLeader (n_leader_id n)), n))"

definition propose_add_learner :: "node_id \<Rightarrow> instant \<Rightarrow> raft_node \<Rightarrow> outbound list outcome" where
  "propose_add_learner ident now n =
     (if \<not> is_leader n then (Inl (NotLeader (n_leader_id n)), n)
      else if change_in_flight n then
        (Inl (ConfChange ''a configuration change is already in flight (one at a time)''), n)
      else if ident \<in> voters (active_config n) then
        (Inl (ConfChange (ident @ '' is already a voter'')), n)
      else if ident \<in> learners (active_config n) then
        (Inl (ConfChange (ident @ '' is already a learner'')), n)
      else append_config_entry
             ((active_config n)\<lparr>learners := insert ident (learners (active_config n))\<rparr>) now n)"

section \<open>Start-up\<close>

definition with_bootstrap ::
  "node_id \<Rightarrow> cluster_config \<Rightarrow> raft_log \<Rightarrow> rng \<Rightarrow> raft_config \<Rightarrow> instant \<Rightarrow> raft_node" where
  "with_bootstrap ident bootstrap l r cfg now =
     (let hard = load_hard_state l;
          snapshot = log_snapshot_meta l;
          commit_floor = (case snapshot of Some m \<Rightarrow> last_included_index m | None \<Rightarrow> 0);
          (b, bi) = (case snapshot of
                       Some m \<Rightarrow> (if voters (snap_config m) \<noteq> {} then (snap_config m, last_included_index m)
                                  else (bootstrap, last_included_index m))
                     | None \<Rightarrow> (bootstrap, 0));
          first = first_index l;
          configs = (if first \<noteq> 0 then note_configs (entries_from l first) (tracker_new b bi)
                     else tracker_new b bi)
      in arm_election_timer now
           \<lparr>n_id = ident, n_configs = configs, n_role = Follower, n_log = l, n_hard = hard,
            n_commit_index = commit_floor, n_snapshot = snapshot, n_leader_id = None,
            n_last_leader_contact = None, n_rng = r, n_config = cfg, n_election_deadline = now,
            n_heartbeat_deadline = now, n_read_seq = 0, n_read_results = []\<rparr>)"

definition raft_node_new ::
  "node_id \<Rightarrow> node_id list \<Rightarrow> raft_log \<Rightarrow> rng \<Rightarrow> raft_config \<Rightarrow> instant \<Rightarrow> raft_node" where
  "raft_node_new ident peers l r cfg now =
     with_bootstrap ident (config_single (insert ident (set peers))) l r cfg now"

definition raft_node_new_learner ::
  "node_id \<Rightarrow> node_id list \<Rightarrow> raft_log \<Rightarrow> rng \<Rightarrow> raft_config \<Rightarrow> instant \<Rightarrow> raft_node" where
  "raft_node_new_learner ident vs l r cfg now =
     with_bootstrap ident \<lparr>voters = set vs, old_voters = None, learners = {ident}\<rparr> l r cfg now"

end
