(* ===== verification/Raft_Node_Frame.thy ===== *)
theory Raft_Node_Frame
  imports Raft_Node
begin

text \<open>
  What each method of the node leaves alone. The relation \<open>steady\<close> collects it for the
  methods that neither vote nor change term; it is reflexive and transitive, so a composed
  handler inherits it from its parts.
\<close>

section \<open>Timers, step-down, term observation\<close>

lemma arm_election_frame [simp]:
  "n_id (arm_election_timer now n) = n_id n"
  "n_configs (arm_election_timer now n) = n_configs n"
  "n_role (arm_election_timer now n) = n_role n"
  "n_log (arm_election_timer now n) = n_log n"
  "n_hard (arm_election_timer now n) = n_hard n"
  "n_commit_index (arm_election_timer now n) = n_commit_index n"
  "n_snapshot (arm_election_timer now n) = n_snapshot n"
  "n_leader_id (arm_election_timer now n) = n_leader_id n"
  "n_last_leader_contact (arm_election_timer now n) = n_last_leader_contact n"
  "n_config (arm_election_timer now n) = n_config n"
  "n_heartbeat_deadline (arm_election_timer now n) = n_heartbeat_deadline n"
  "n_read_seq (arm_election_timer now n) = n_read_seq n"
  "n_read_results (arm_election_timer now n) = n_read_results n"
  by (simp_all add: arm_election_timer_def case_prod_beta)

lemma arm_heartbeat_frame [simp]:
  "n_id (arm_heartbeat_timer now n) = n_id n"
  "n_configs (arm_heartbeat_timer now n) = n_configs n"
  "n_role (arm_heartbeat_timer now n) = n_role n"
  "n_log (arm_heartbeat_timer now n) = n_log n"
  "n_hard (arm_heartbeat_timer now n) = n_hard n"
  "n_commit_index (arm_heartbeat_timer now n) = n_commit_index n"
  "n_snapshot (arm_heartbeat_timer now n) = n_snapshot n"
  "n_config (arm_heartbeat_timer now n) = n_config n"
  "n_read_results (arm_heartbeat_timer now n) = n_read_results n"
  by (simp_all add: arm_heartbeat_timer_def)

lemma step_down_frame [simp]:
  "n_id (step_down_to_follower n) = n_id n"
  "n_configs (step_down_to_follower n) = n_configs n"
  "n_role (step_down_to_follower n) = Follower"
  "n_log (step_down_to_follower n) = n_log n"
  "n_hard (step_down_to_follower n) = n_hard n"
  "n_commit_index (step_down_to_follower n) = n_commit_index n"
  "n_snapshot (step_down_to_follower n) = n_snapshot n"
  "n_config (step_down_to_follower n) = n_config n"
  by (simp_all add: step_down_to_follower_def Let_def split: role.splits)

lemma recognize_leader_frame [simp]:
  "n_id (recognize_leader l now n) = n_id n"
  "n_configs (recognize_leader l now n) = n_configs n"
  "n_role (recognize_leader l now n) = Follower"
  "n_log (recognize_leader l now n) = n_log n"
  "n_hard (recognize_leader l now n) = n_hard n"
  "n_commit_index (recognize_leader l now n) = n_commit_index n"
  "n_snapshot (recognize_leader l now n) = n_snapshot n"
  "n_config (recognize_leader l now n) = n_config n"
  "n_leader_id (recognize_leader l now n) = Some l"
  "n_last_leader_contact (recognize_leader l now n) = Some now"
  by (simp_all add: recognize_leader_def Let_def)

lemma observe_term_frame [simp]:
  "n_id (snd (observe_term t now n)) = n_id n"
  "n_configs (snd (observe_term t now n)) = n_configs n"
  "n_commit_index (snd (observe_term t now n)) = n_commit_index n"
  "n_snapshot (snd (observe_term t now n)) = n_snapshot n"
  "n_config (snd (observe_term t now n)) = n_config n"
  "log_table (n_log (snd (observe_term t now n))) = log_table (n_log n)"
  "log_snapshot (n_log (snd (observe_term t now n))) = log_snapshot (n_log n)"
  "current_term (n_hard (snd (observe_term t now n))) = max (current_term (n_hard n)) t"
  by (simp_all add: observe_term_def Let_def)

lemma observe_term_higher:
  "t > current_term (n_hard n) \<Longrightarrow>
   fst (observe_term t now n) \<and> n_hard (snd (observe_term t now n)) = stepped_to t (n_hard n) \<and>
   n_role (snd (observe_term t now n)) = Follower \<and> n_leader_id (snd (observe_term t now n)) = None \<and>
   n_log (snd (observe_term t now n)) = save_hard_state (stepped_to t (n_hard n)) (n_log n)"
  by (simp add: observe_term_def Let_def)

lemma observe_term_not_higher:
  "\<not> t > current_term (n_hard n) \<Longrightarrow> observe_term t now n = (False, n)"
  by (simp add: observe_term_def)

lemma observe_term_fst: "fst (observe_term t now n) \<longleftrightarrow> t > current_term (n_hard n)"
  by (simp add: observe_term_def Let_def)

section \<open>Steady methods\<close>

definition same_or_less :: "role \<Rightarrow> role \<Rightarrow> bool" where
  "same_or_less r r' \<longleftrightarrow>
     (case r' of
        Follower \<Rightarrow> True
      | Candidate vs \<Rightarrow> r = Candidate vs
      | Leader _ \<Rightarrow> (\<exists>s. r = Leader s))"

definition steady :: "raft_node \<Rightarrow> raft_node \<Rightarrow> bool" where
  "steady n n' \<longleftrightarrow>
     n_id n' = n_id n \<and> n_hard n' = n_hard n \<and> n_snapshot n' = n_snapshot n \<and>
     n_config n' = n_config n \<and>
     log_hard (n_log n') = log_hard (n_log n) \<and> log_snapshot (n_log n') = log_snapshot (n_log n) \<and>
     n_commit_index n \<le> n_commit_index n' \<and> same_or_less (n_role n) (n_role n')"

lemma same_or_less_refl [simp]: "same_or_less r r"
  by (simp add: same_or_less_def split: role.splits)

lemma same_or_less_Follower [simp]: "same_or_less r Follower"
  by (simp add: same_or_less_def)

lemma same_or_less_Leader [simp]: "same_or_less (Leader s) (Leader s')"
  by (simp add: same_or_less_def)

lemma same_or_less_trans: "same_or_less a b \<Longrightarrow> same_or_less b c \<Longrightarrow> same_or_less a c"
  by (auto simp: same_or_less_def split: role.splits)

lemma steady_refl [simp, intro]: "steady n n"
  by (simp add: steady_def)

lemma steady_trans [trans]: "steady a b \<Longrightarrow> steady b c \<Longrightarrow> steady a c"
  by (auto simp: steady_def intro: same_or_less_trans)

lemma steady_arm [simp]: "steady n (arm_election_timer now n)" "steady n (arm_heartbeat_timer now n)"
  by (simp_all add: steady_def)

lemma steady_step_down [simp]: "steady n (step_down_to_follower n)"
  by (simp add: steady_def)

lemma steady_replicate_all [simp]: "steady n (snd (replicate_all n))"
  by (auto simp: replicate_all_def steady_def Let_def case_prod_beta split: role.splits)

lemma replicate_all_frame [simp]:
  "n_log (snd (replicate_all n)) = n_log n" "n_configs (snd (replicate_all n)) = n_configs n"
  "n_commit_index (snd (replicate_all n)) = n_commit_index n"
  by (auto simp: replicate_all_def Let_def case_prod_beta split: role.splits)

lemma steady_replicate_to [simp]: "steady n (snd (replicate_to p n))"
  by (auto simp: replicate_to_def steady_def Let_def split: role.splits sum.splits)

lemma replicate_to_frame [simp]:
  "n_log (snd (replicate_to p n)) = n_log n" "n_configs (snd (replicate_to p n)) = n_configs n"
  "n_commit_index (snd (replicate_to p n)) = n_commit_index n"
  by (auto simp: replicate_to_def Let_def split: role.splits sum.splits)

lemma refresh_frame [simp]:
  "n_id (refresh_leader_state n) = n_id n" "n_hard (refresh_leader_state n) = n_hard n"
  "n_log (refresh_leader_state n) = n_log n" "n_configs (refresh_leader_state n) = n_configs n"
  "n_commit_index (refresh_leader_state n) = n_commit_index n"
  "n_snapshot (refresh_leader_state n) = n_snapshot n" "n_config (refresh_leader_state n) = n_config n"
  "is_leader (refresh_leader_state n) = is_leader n"
  by (auto simp: refresh_leader_state_def Let_def is_leader_def split: role.splits)

lemma steady_refresh [simp]: "steady n (refresh_leader_state n)"
  by (auto simp: refresh_leader_state_def steady_def Let_def split: role.splits)

lemma steady_append [simp]: "steady n (n\<lparr>n_log := log_append e (n_log n)\<rparr>)"
  by (simp add: steady_def)

lemma steady_configs [simp]: "steady n (n\<lparr>n_configs := c\<rparr>)"
  by (simp add: steady_def)

lemma steady_commit: "n_commit_index n \<le> i \<Longrightarrow> steady n (n\<lparr>n_commit_index := i\<rparr>)"
  by (simp add: steady_def)

lemma steady_leader_id [simp]: "steady n (n\<lparr>n_leader_id := l\<rparr>)"
  by (simp add: steady_def)

lemma steady_and_then:
  "steady n (snd r) \<Longrightarrow> (\<And>x. steady (snd r) (snd (f x (snd r)))) \<Longrightarrow> steady n (snd (and_then r f))"
  by (cases r) (auto simp: and_then_def split: sum.splits intro: steady_trans)

lemma commit_scan_ge: "n_commit_index n \<le> commit_scan n s k"
  by (induction k) auto

lemma steady_advance:
  "steady n (snd (advance_commit_index now n))"
  "steady n (snd (after_commit_config_actions now n))"
  "steady n (snd (append_config_entry c now n))"
proof (induction now n and now n and c now n
    rule: advance_commit_index_after_commit_config_actions_append_config_entry.induct)
  case (1 now n)
  show ?case
  proof (cases "n_role n")
    case (Leader s)
    let ?k = "commit_scan n s (last_index (n_log n))"
    show ?thesis
    proof (cases "?k = n_commit_index n")
      case True
      with Leader show ?thesis by (simp add: advance_commit_index.simps)
    next
      case False
      have "steady n (n\<lparr>n_commit_index := ?k\<rparr>)"
        by (rule steady_commit) (rule commit_scan_ge)
      also have "steady \<dots> (snd (after_commit_config_actions now (n\<lparr>n_commit_index := ?k\<rparr>)))"
        using 1 [OF Leader refl False] .
      finally show ?thesis using Leader False by (simp add: advance_commit_index.simps Let_def)
    qed
  qed (simp_all add: advance_commit_index.simps)
next
  case (2 now n)
  have "steady n (arm_election_timer now ((step_down_to_follower n)\<lparr>n_leader_id := None\<rparr>))"
    by (rule steady_trans [OF steady_trans [OF steady_step_down steady_leader_id] steady_arm(1)])
  with 2 show ?case by (subst after_commit_config_actions.simps) auto
next
  case (3 c now n)
  let ?i = "index_next (last_index (n_log n))"
  let ?n1 = "n\<lparr>n_log := log_append (entry_with_payload (current_term (n_hard n)) ?i (Config c)) (n_log n)\<rparr>"
  let ?n2 = "?n1\<lparr>n_configs := on_append ?i c (n_configs ?n1)\<rparr>"
  let ?n3 = "refresh_leader_state ?n2"
  have "steady n ?n3"
    by (rule steady_trans [OF steady_trans [OF steady_append steady_configs] steady_refresh])
  also have "steady ?n3 (snd (advance_commit_index now ?n3))"
    using 3 [OF refl refl refl refl refl] .
  finally show ?case
    unfolding append_config_entry.simps Let_def
    by (intro steady_and_then) simp_all
qed

end
