(* ===== verification/Raft_Node_Inv.thy ===== *)
theory Raft_Node_Inv
  imports Raft_Node_Frame
begin

text \<open>
  The node's own invariant and its preservation by every method: the log is contiguous above
  the snapshot, the cached snapshot metadata and hard state are what the store holds, the
  configuration tracker agrees with the log, and nothing below the snapshot is uncommitted.
\<close>

text \<open>A leader's next index for a peer is never zero: index zero is the sentinel before the log.\<close>

definition next_pos :: "(node_id, log_index) table \<Rightarrow> bool" where
  "next_pos t \<longleftrightarrow> (\<forall>p i. tbl_get t p = Some i \<longrightarrow> 0 < i)"

definition role_wf :: "role \<Rightarrow> bool" where
  "role_wf r =
     (case r of
        Leader s \<Rightarrow> tbl_wf (next_index s) \<and> tbl_wf (match_index s) \<and> next_pos (next_index s)
      | _ \<Rightarrow> True)"

definition node_inv :: "raft_node \<Rightarrow> bool" where
  "node_inv n \<longleftrightarrow>
     log_wf (n_log n) \<and> n_snapshot n = log_snapshot_meta (n_log n) \<and>
     n_hard n = log_hard (n_log n) \<and> tracks (n_configs n) (n_log n) \<and>
     snapshot_index n \<le> n_commit_index n \<and> role_wf (n_role n)"

text \<open>Room for \<open>k\<close> more entries before the index would saturate.\<close>

definition room :: "nat \<Rightarrow> raft_node \<Rightarrow> bool" where
  "room k n \<longleftrightarrow> last_index (n_log n) + k \<le> u64_max"

lemma role_wf_simps [simp]:
  "role_wf Follower" "role_wf (Candidate vs)"
  "role_wf (Leader s) \<longleftrightarrow> tbl_wf (next_index s) \<and> tbl_wf (match_index s) \<and> next_pos (next_index s)"
  by (simp_all add: role_wf_def)

lemma index_next_pos [simp]: "0 < index_next i"
  by (simp add: index_next_def sat_add_def u64_max_def)

lemma next_pos_Nil [simp]: "next_pos []"
  by (simp add: next_pos_def)

lemma next_pos_insert [simp]: "tbl_wf t \<Longrightarrow> next_pos t \<Longrightarrow> 0 < i \<Longrightarrow> next_pos (tbl_insert p i t)"
  by (simp add: next_pos_def table_simps)

lemma next_pos_retain [simp]: "tbl_wf t \<Longrightarrow> next_pos t \<Longrightarrow> next_pos (tbl_retain P t)"
  by (auto simp: next_pos_def table_simps split: option.splits if_splits)

lemma next_pos_fold_default:
  "tbl_wf m \<Longrightarrow> next_pos m \<Longrightarrow> 0 < v \<Longrightarrow>
   next_pos (fold (\<lambda>t m. if tbl_get m t = None then tbl_insert t v m else m) ts m)"
  by (induction ts arbitrary: m) auto

lemma next_pos_fold_const:
  "tbl_wf m \<Longrightarrow> next_pos m \<Longrightarrow> 0 < v \<Longrightarrow> next_pos (fold (\<lambda>p. tbl_insert p v) ps m)"
  by (induction ps arbitrary: m) auto

lemma snapshot_index_base: "node_inv n \<Longrightarrow> snapshot_index n = log_base (n_log n)"
  by (simp add: node_inv_def snapshot_index_def log_base_def)

lemma snapshot_index_cong: "n_snapshot n' = n_snapshot n \<Longrightarrow> snapshot_index n' = snapshot_index n"
  by (simp add: snapshot_index_def)

lemma node_inv_cong:
  assumes "node_inv n" "n_log n' = n_log n" "n_snapshot n' = n_snapshot n" "n_hard n' = n_hard n"
    "n_configs n' = n_configs n" "n_commit_index n \<le> n_commit_index n'" "role_wf (n_role n')"
  shows "node_inv n'"
  using assms snapshot_index_cong [of n' n] by (simp add: node_inv_def)

lemma node_inv_arm [simp]:
  "node_inv (arm_election_timer now n) = node_inv n"
  "node_inv (arm_heartbeat_timer now n) = node_inv n"
  by (simp_all add: node_inv_def snapshot_index_def)

lemma node_inv_step_down [simp]: "node_inv n \<Longrightarrow> node_inv (step_down_to_follower n)"
  by (rule node_inv_cong [of n]) simp_all

lemma node_inv_recognize [simp]: "node_inv n \<Longrightarrow> node_inv (recognize_leader l now n)"
  by (rule node_inv_cong [of n]) simp_all

lemma node_inv_fields [simp]:
  "node_inv (n\<lparr>n_leader_id := l\<rparr>) = node_inv n"
  "node_inv (n\<lparr>n_read_results := rr\<rparr>) = node_inv n"
  "node_inv (n\<lparr>n_read_seq := k\<rparr>) = node_inv n"
  "node_inv (n\<lparr>n_last_leader_contact := c\<rparr>) = node_inv n"
  by (simp_all add: node_inv_def snapshot_index_def)

lemma tracks_save [simp]: "tracks t (save_hard_state h l) = tracks t l"
  by (simp add: tracks_def)

lemma node_inv_vote:
  assumes "node_inv n"
  shows "node_inv (n\<lparr>n_hard := h, n_log := save_hard_state h (n_log n)\<rparr>)"
  using assms by (auto simp: node_inv_def snapshot_index_def)

lemma node_inv_observe: "node_inv n \<Longrightarrow> node_inv (snd (observe_term t now n))"
proof (cases "t > current_term (n_hard n)")
  case True
  assume "node_inv n"
  then show ?thesis
    using observe_term_higher [OF True, of now] observe_term_frame [of t now n]
    by (auto simp: node_inv_def snapshot_index_def)
qed (simp add: observe_term_not_higher)

lemma node_inv_role:
  "node_inv n \<Longrightarrow> role_wf r \<Longrightarrow> node_inv (n\<lparr>n_role := r\<rparr>)"
  by (rule node_inv_cong [of n]) simp_all

lemma node_inv_commit:
  "node_inv n \<Longrightarrow> n_commit_index n \<le> i \<Longrightarrow> node_inv (n\<lparr>n_commit_index := i\<rparr>)"
  by (rule node_inv_cong [of n]) (simp_all add: node_inv_def)

section \<open>Replication\<close>

lemma replication_plans_state:
  "next_index (snd (replication_plans s ps)) = next_index s"
  "match_index (snd (replication_plans s ps)) = match_index s"
  "term_start_index (snd (replication_plans s ps)) = term_start_index s"
  "pending_reads (snd (replication_plans s ps)) = pending_reads s"
  by (induction ps arbitrary: s) (auto simp: Let_def case_prod_beta)

lemma replicate_all_role:
  "n_role (snd (replicate_all n)) =
     (case n_role n of Leader s \<Rightarrow> Leader (snd (replication_plans s (replication_targets n))) | r \<Rightarrow> r)"
  by (auto simp: replicate_all_def Let_def case_prod_beta split: role.splits)

lemma node_inv_replicate_all: "node_inv n \<Longrightarrow> node_inv (snd (replicate_all n))"
proof (rule node_inv_cong [of n])
  show "node_inv n \<Longrightarrow> role_wf (n_role (snd (replicate_all n)))"
    by (auto simp: replicate_all_role node_inv_def replication_plans_state split: role.splits)
qed (use steady_replicate_all [of n] in \<open>auto simp: steady_def\<close>)

lemma node_inv_replicate_to: "node_inv n \<Longrightarrow> node_inv (snd (replicate_to p n))"
proof (rule node_inv_cong [of n])
  show "node_inv n \<Longrightarrow> role_wf (n_role (snd (replicate_to p n)))"
    by (auto simp: replicate_to_def node_inv_def Let_def split: role.splits sum.splits)
qed (use steady_replicate_to [of n p] in \<open>auto simp: steady_def\<close>)

lemma tbl_wf_fold_default:
  "tbl_wf m \<Longrightarrow> tbl_wf (fold (\<lambda>t m. if tbl_get m t = None then tbl_insert t v m else m) ts m)"
  by (induction ts arbitrary: m) auto

lemma tbl_wf_fold_const: "tbl_wf m \<Longrightarrow> tbl_wf (fold (\<lambda>p. tbl_insert p v) ps m)"
  by (induction ps arbitrary: m) auto

lemma node_inv_refresh: "node_inv n \<Longrightarrow> node_inv (refresh_leader_state n)"
proof (rule node_inv_cong [of n])
  show "node_inv n \<Longrightarrow> role_wf (n_role (refresh_leader_state n))"
    by (auto simp: refresh_leader_state_def node_inv_def Let_def tbl_wf_fold_default
        next_pos_fold_default split: role.splits)
qed auto

lemma node_inv_append:
  assumes "node_inv n" "le_index e = Suc (last_index (n_log n))"
  shows "node_inv (n\<lparr>n_log := log_append e (n_log n), n_configs := note_configs [e] (n_configs n)\<rparr>)"
  using assms log_append_wf [of "n_log n" e] tracks_append [of "n_configs n" "n_log n" e]
  by (auto simp: node_inv_def snapshot_index_def)

section \<open>Growing the leader's log\<close>

text \<open>
  A leader only appends: its table after any commit or proposal is its table before, followed
  by entries of its own current term.
\<close>

definition grows :: "raft_node \<Rightarrow> raft_node \<Rightarrow> bool" where
  "grows n n' \<longleftrightarrow>
     (\<exists>new. log_table (n_log n') = log_table (n_log n) @ new \<and>
            (\<forall>(k, e) \<in> set new. le_term e = current_term (n_hard n)))"

lemma grows_refl [simp, intro]: "grows n n"
  by (simp add: grows_def)

lemma grows_same: "n_log n' = n_log n \<Longrightarrow> grows n n'"
  by (simp add: grows_def)

lemma grows_trans: "grows a b \<Longrightarrow> grows b c \<Longrightarrow> n_hard b = n_hard a \<Longrightarrow> grows a c"
  by (force simp: grows_def)

lemma last_index_append: "log_wf l \<Longrightarrow> le_index e = Suc (last_index l) \<Longrightarrow> last_index (log_append e l) = Suc (last_index l)"
  by (rule log_append_wf(2))

lemma advance_inv:
  "node_inv n \<Longrightarrow> room (if is_joint (active_config n) then 1 else 0) n \<Longrightarrow>
     node_inv (snd (advance_commit_index now n)) \<and> grows n (snd (advance_commit_index now n))"
  "node_inv n \<Longrightarrow> room (if is_joint (active_config n) then 1 else 0) n \<Longrightarrow>
     node_inv (snd (after_commit_config_actions now n)) \<and> grows n (snd (after_commit_config_actions now n))"
  "node_inv n \<Longrightarrow> room (if is_joint c then 2 else 1) n \<Longrightarrow>
     node_inv (snd (append_config_entry c now n)) \<and> grows n (snd (append_config_entry c now n))"
proof (induction now n and now n and c now n
    rule: advance_commit_index_after_commit_config_actions_append_config_entry.induct)
  case (1 now n)
  show ?case
  proof (cases "n_role n")
    case (Leader s)
    let ?k = "commit_scan n s (last_index (n_log n))"
    show ?thesis
    proof (cases "?k = n_commit_index n")
      case True
      with Leader 1 show ?thesis by (simp add: advance_commit_index.simps)
    next
      case False
      let ?n = "n\<lparr>n_commit_index := ?k\<rparr>"
      have "node_inv ?n" using "1.prems"(1) commit_scan_ge by (rule node_inv_commit)
      moreover have "room (if is_joint (active_config ?n) then 1 else 0) ?n"
        using "1.prems"(2) by (simp add: room_def)
      ultimately have "node_inv (snd (after_commit_config_actions now ?n)) \<and> grows ?n (snd (after_commit_config_actions now ?n))"
        by (rule "1.IH" [OF Leader refl False])
      then show ?thesis using Leader False by (simp add: advance_commit_index.simps Let_def grows_def)
    qed
  qed (use 1 in \<open>simp_all add: advance_commit_index.simps\<close>)
next
  case (2 now n)
  show ?case
  proof (cases "is_leader n \<and> \<not> latest_index (n_configs n) > n_commit_index n \<and> is_joint (active_config n)")
    case True
    then have "room (if is_joint (final_config (active_config n)) then 2 else 1) n"
      using "2.prems"(2) by (simp add: room_def final_config_def is_joint_def)
    with True 2 show ?thesis by (subst (1 2) after_commit_config_actions.simps) simp
  next
    case False
    with 2 show ?thesis
      by (subst (1 2) after_commit_config_actions.simps) (auto intro: grows_same)
  qed
next
  case (3 c now n)
  let ?i = "index_next (last_index (n_log n))"
  let ?e = "entry_with_payload (current_term (n_hard n)) ?i (Config c)"
  let ?n1 = "n\<lparr>n_log := log_append ?e (n_log n)\<rparr>"
  let ?n2 = "?n1\<lparr>n_configs := on_append ?i c (n_configs ?n1)\<rparr>"
  let ?n3 = "refresh_leader_state ?n2"
  let ?n4 = "snd (advance_commit_index now ?n3)"
  have i: "?i = Suc (last_index (n_log n))"
    using "3.prems"(2) by (intro index_next_exact) (simp add: room_def split: if_splits)
  have wf: "log_wf (n_log n)" using "3.prems"(1) by (simp add: node_inv_def)
  have "node_inv ?n2" using node_inv_append [OF "3.prems"(1), of ?e] i by simp
  then have inv3: "node_inv ?n3" by (rule node_inv_refresh)
  have "room (if is_joint (active_config ?n3) then 1 else 0) ?n3"
    using "3.prems"(2) i wf
    by (auto simp: room_def last_index_append active_config_def split: if_splits)
  then have 4: "node_inv ?n4 \<and> grows ?n3 ?n4"
    using "3.IH" [OF refl refl refl refl refl inv3] by simp
  have "grows n ?n3"
    using wf i log_append_table [OF wf, of ?e] by (auto simp: grows_def)
  with 4 have "grows n ?n4" by (auto intro: grows_trans)
  with 4 show ?case
    unfolding append_config_entry.simps Let_def
    by (auto simp: and_then_def case_prod_beta node_inv_replicate_all grows_def split: sum.splits)
qed

lemma and_then_snd:
  "snd (and_then r f) = (case fst r of Inl _ \<Rightarrow> snd r | Inr x \<Rightarrow> snd (f x (snd r)))"
  by (cases r) (auto simp: and_then_def split: sum.splits)

lemma node_inv_and_then:
  "node_inv (snd r) \<Longrightarrow> (\<And>x. node_inv (snd (f x (snd r)))) \<Longrightarrow> node_inv (snd (and_then r f))"
  by (simp add: and_then_snd split: sum.splits)

lemma node_inv_then_replicate:
  "node_inv (snd r) \<Longrightarrow>
   node_inv (snd (and_then r (\<lambda>outs n. and_then (replicate_all n) (\<lambda>outs' n. (Inr (outs @ outs'), n)))))"
  by (intro node_inv_and_then) (simp_all add: node_inv_replicate_all)

section \<open>Elections\<close>

lemma node_inv_append_plain:
  assumes "node_inv n" "le_index e = Suc (last_index (n_log n))" "\<And>c. le_payload e \<noteq> Config c"
  shows "node_inv (n\<lparr>n_log := log_append e (n_log n)\<rparr>)"
proof -
  have "note_configs [e] (n_configs n) = n_configs n"
    using assms(3) by (simp split: entry_payload.splits)
  with node_inv_append [OF assms(1,2)] show ?thesis by simp
qed

lemma node_inv_become_leader:
  assumes "node_inv n" "room 2 n"
  shows "node_inv (snd (become_leader now n))"
proof -
  let ?i = "index_next (last_index (n_log n))"
  let ?n1 = "n\<lparr>n_log := log_append (entry_with_payload (current_term (n_hard n)) ?i Noop) (n_log n)\<rparr>"
  let ?n2 = "arm_heartbeat_timer now (?n1\<lparr>n_role := Leader
      \<lparr>next_index = fold (\<lambda>p. tbl_insert p ?i) (replication_targets n) [],
       match_index = fold (\<lambda>p. tbl_insert p 0) (replication_targets n) [], ae_seq = 0,
       term_start_index = ?i, pending_reads = []\<rparr>, n_leader_id := Some (n_id n)\<rparr>)"
  have i: "?i = Suc (last_index (n_log n))"
    using assms(2) by (intro index_next_exact) (simp add: room_def)
  have wf: "log_wf (n_log n)" using assms(1) by (simp add: node_inv_def)
  have "node_inv ?n1" using assms(1) i by (intro node_inv_append_plain) simp_all
  then have inv2: "node_inv ?n2"
    by (simp add: tbl_wf_fold_const next_pos_fold_const node_inv_role)
  have "room (if is_joint (active_config ?n2) then 1 else 0) ?n2"
    using assms(2) i wf by (auto simp: room_def last_index_append)
  from advance_inv(1) [OF inv2 this] show ?thesis
    unfolding become_leader_def Let_def
    by (intro node_inv_then_replicate) simp
qed

lemma node_inv_start_election:
  assumes "node_inv n" "room 2 n"
  shows "node_inv (snd (start_election now n))"
proof -
  let ?h = "voting_for (n_id n) (stepped_to (term_next (current_term (n_hard n))) (n_hard n))"
  let ?n = "arm_election_timer now
      (n\<lparr>n_hard := ?h, n_log := save_hard_state ?h (n_log n), n_role := Candidate {n_id n}, n_leader_id := None\<rparr>)"
  have "node_inv (n\<lparr>n_hard := ?h, n_log := save_hard_state ?h (n_log n)\<rparr>)"
    using assms(1) by (rule node_inv_vote)
  then have inv: "node_inv ?n" by (simp add: node_inv_role)
  have "room 2 ?n" using assms(2) by (simp add: room_def)
  from node_inv_become_leader [OF inv this] inv show ?thesis
    by (simp add: start_election_def Let_def case_prod_beta)
qed

lemma node_inv_tick: "node_inv n \<Longrightarrow> room 2 n \<Longrightarrow> node_inv (snd (tick now n))"
  by (simp add: tick_def node_inv_replicate_all node_inv_start_election)

lemma node_inv_request_vote: "node_inv n \<Longrightarrow> node_inv (snd (handle_request_vote req now n))"
  by (simp add: handle_request_vote_def Let_def node_inv_observe node_inv_vote)

lemma room_observe [simp]: "room k (snd (observe_term t now n)) = room k n"
  by (cases "t > current_term (n_hard n)")
     (use observe_term_higher [of n t now] in \<open>simp_all add: room_def observe_term_not_higher\<close>)

lemma node_inv_request_vote_response:
  assumes "node_inv n" "room 2 n"
  shows "node_inv (snd (handle_request_vote_response from resp now n))"
proof -
  let ?n = "snd (observe_term (rvr_term resp) now n)"
  have inv: "node_inv ?n" and room: "room 2 ?n"
    using assms by (simp_all add: node_inv_observe)
  have "node_inv (snd (become_leader now (?n\<lparr>n_role := Candidate vs\<rparr>)))" for vs
    using inv room by (intro node_inv_become_leader) (simp_all add: node_inv_role room_def)
  with inv show ?thesis
    by (auto simp: handle_request_vote_response_def Let_def case_prod_beta node_inv_role split: role.splits)
qed

section \<open>The AppendEntries receiver\<close>

text \<open>A well-formed request: consecutive entries above \<open>prev_log_index\<close>, and a commit index
  the batch reaches.\<close>

definition ae_wf :: "append_entries \<Rightarrow> bool" where
  "ae_wf req \<longleftrightarrow>
     entries_run (ae_prev_log_index req) (ae_entries req) \<and>
     ae_leader_commit req \<le> ae_prev_log_index req + length (ae_entries req) \<and>
     ae_prev_log_index req + length (ae_entries req) \<le> u64_max"

lemma append_new_frame [simp]:
  "n_id (append_new_entries es n) = n_id n" "n_hard (append_new_entries es n) = n_hard n"
  "n_role (append_new_entries es n) = n_role n" "n_commit_index (append_new_entries es n) = n_commit_index n"
  "n_snapshot (append_new_entries es n) = n_snapshot n" "n_config (append_new_entries es n) = n_config n"
  "log_hard (n_log (append_new_entries es n)) = log_hard (n_log n)"
  "log_snapshot (n_log (append_new_entries es n)) = log_snapshot (n_log n)"
  "base (n_configs (append_new_entries es n)) = base (n_configs n)"
  by (induction es n rule: append_new_entries.induct)
     (auto simp: Let_def note_appended_configs_def simp del: note_configs_simps split: option.splits)

lemma node_inv_batch:
  assumes "node_inv n" "entries_run (last_index (n_log n)) es"
  shows "node_inv (note_appended_configs es (n\<lparr>n_log := log_append_all es (n_log n)\<rparr>))"
  using assms log_append_all_wf [of "n_log n" es] tracks_append_all [of "n_configs n" "n_log n" es]
  by (auto simp: node_inv_def snapshot_index_def note_appended_configs_def)

lemma node_inv_truncate:
  assumes "node_inv n" "log_get (n_log n) i = Some e"
  shows "node_inv (n\<lparr>n_log := truncate_from i (n_log n), n_configs := on_truncate i (n_configs n)\<rparr>)"
    and "last_index (truncate_from i (n_log n)) = i - 1" and "0 < i"
proof -
  have wf: "log_wf (n_log n)" using assms(1) by (simp add: node_inv_def)
  have b: "log_base (n_log n) < i" "i \<le> last_index (n_log n)"
    using log_get_Some_bounds [OF wf assms(2)] by simp_all
  then show "node_inv (n\<lparr>n_log := truncate_from i (n_log n), n_configs := on_truncate i (n_configs n)\<rparr>)"
    using assms(1) truncate_wf(1) [OF wf b] tracks_truncate [of "n_configs n" "n_log n" i]
    by (auto simp: node_inv_def snapshot_index_def)
  show "last_index (truncate_from i (n_log n)) = i - 1" by (rule truncate_wf(2) [OF wf b])
  show "0 < i" using b by simp
qed

lemma append_new_entries_inv:
  assumes "node_inv n" "entries_run p es" "p \<le> last_index (n_log n)"
  shows "node_inv (append_new_entries es n) \<and> p + length es \<le> last_index (n_log (append_new_entries es n))"
  using assms
proof (induction es n arbitrary: p rule: append_new_entries.induct)
  case (1 n)
  then show ?case by simp
next
  case (2 e es n)
  have idx: "le_index e = Suc p" and run: "entries_run (Suc p) es" using "2.prems"(2) by simp_all
  have wf: "log_wf (n_log n)" using "2.prems"(1) by (simp add: node_inv_def)
  show ?case
  proof (cases "le_index e \<le> snapshot_index n")
    case True
    then have "Suc p \<le> last_index (n_log n)"
      using idx snapshot_index_base [OF "2.prems"(1)] log_base_le_last [OF wf] by simp
    with "2.IH"(1) [OF True "2.prems"(1) run] True show ?thesis by simp
  next
    case above: False
    show ?thesis
    proof (cases "log_get (n_log n) (le_index e)")
      case None
      then have "p = last_index (n_log n)"
        using above idx "2.prems"(3) wf snapshot_index_base [OF "2.prems"(1)]
        by (simp add: log_get_run split: if_splits)
      then have run': "entries_run (last_index (n_log n)) (e # es)" using "2.prems"(2) by simp
      from node_inv_batch [OF "2.prems"(1) run'] log_append_all_wf [OF wf run'] None above
      show ?thesis using \<open>p = last_index (n_log n)\<close>
        by (simp add: note_appended_configs_def del: note_configs_simps)
    next
      case (Some ex)
      show ?thesis
      proof (cases "le_term ex = le_term e")
        case True
        have "Suc p \<le> last_index (n_log n)"
          using log_get_Some_bounds [OF wf Some] idx by simp
        with "2.IH"(2) [OF above Some True "2.prems"(1) run] above Some True show ?thesis by simp
      next
        case False
        note tr = node_inv_truncate [OF "2.prems"(1) Some]
        let ?n = "n\<lparr>n_log := truncate_from (le_index e) (n_log n), n_configs := on_truncate (le_index e) (n_configs n)\<rparr>"
        have run': "entries_run (last_index (n_log ?n)) (e # es)"
          using tr(2) idx "2.prems"(2) by simp
        have "log_wf (n_log ?n)" using tr(1) by (simp add: node_inv_def)
        from node_inv_batch [OF tr(1) run'] log_append_all_wf [OF this run'] above Some False
        show ?thesis using tr(2) idx by (simp add: note_appended_configs_def Let_def del: note_configs_simps)
      qed
    qed
  qed
qed

lemma log_matches_le_last:
  assumes "node_inv n" "log_matches n p t"
  shows "p \<le> last_index (n_log n)"
proof -
  have wf: "log_wf (n_log n)" using assms(1) by (simp add: node_inv_def)
  have "snapshot_index n \<le> last_index (n_log n)"
    using snapshot_index_base [OF assms(1)] log_base_le_last [OF wf] by simp
  moreover have "p \<le> last_index (n_log n)" if "term_at n p = Some t"
    using that wf calculation
    by (auto simp: term_at_def snapshot_index_def dest: log_get_Some_bounds split: option.splits if_splits)
  ultimately show ?thesis using assms(2) by (auto simp: log_matches_def)
qed

lemma node_inv_append_entries:
  assumes "node_inv n" "ae_wf req"
  shows "node_inv (snd (handle_append_entries req now n))"
proof -
  let ?n1 = "snd (observe_term (ae_term req) now n)"
  let ?n2 = "recognize_leader (ae_leader_id req) now ?n1"
  let ?n3 = "append_new_entries (ae_entries req) ?n2"
  have inv2: "node_inv ?n2" using assms(1) by (simp add: node_inv_observe)
  have inv3: "node_inv ?n3" if "log_matches ?n2 (ae_prev_log_index req) (ae_prev_log_term req)"
    using append_new_entries_inv [OF inv2 _ log_matches_le_last [OF inv2 that]] assms(2)
    by (simp add: ae_wf_def)
  have "node_inv (?n3\<lparr>n_commit_index := min (ae_leader_commit req) (wrap_add (ae_prev_log_index req) (length (ae_entries req)))\<rparr>)"
    if "log_matches ?n2 (ae_prev_log_index req) (ae_prev_log_term req)" "ae_leader_commit req > n_commit_index ?n3"
    using inv3 [OF that(1)] that(2) assms(2)
    by (intro node_inv_commit) (simp_all add: ae_wf_def wrap_add_exact)
  with inv2 inv3 show ?thesis
    using assms(1) by (simp add: handle_append_entries_def Let_def case_prod_beta node_inv_observe)
qed

section \<open>The sender, snapshots, clients and start-up\<close>

lemma node_inv_note_ack: "node_inv n \<Longrightarrow> node_inv (note_leadership_ack from seq n)"
  by (auto simp: note_leadership_ack_def Let_def node_inv_def snapshot_index_def split: role.splits)

lemma node_inv_record_match: "node_inv n \<Longrightarrow> node_inv (record_match p m n)"
  by (auto simp: record_match_def Let_def node_inv_def snapshot_index_def split: role.splits)

lemma node_inv_back_off: "node_inv n \<Longrightarrow> node_inv (back_off p c n)"
  by (auto simp: back_off_def Let_def node_inv_def snapshot_index_def split: role.splits)

lemma role_only_frame [simp]:
  "n_log (note_leadership_ack from seq n) = n_log n" "n_configs (note_leadership_ack from seq n) = n_configs n"
  "n_log (record_match p m n) = n_log n" "n_configs (record_match p m n) = n_configs n"
  "n_log (back_off p c n) = n_log n" "n_configs (back_off p c n) = n_configs n"
  by (auto simp: note_leadership_ack_def record_match_def back_off_def Let_def split: role.splits)

lemma steady_role_only [simp]:
  "steady n (note_leadership_ack from seq n)" "steady n (record_match p m n)" "steady n (back_off p c n)"
  by (auto simp: note_leadership_ack_def record_match_def back_off_def Let_def steady_def split: role.splits)

lemma node_inv_advance_and_continue:
  assumes "node_inv n" "room 1 n"
  shows "node_inv (snd (advance_and_continue from now n))"
proof -
  have "room (if is_joint (active_config n) then 1 else 0) n"
    using assms(2) by (simp add: room_def)
  from advance_inv(1) [OF assms(1) this] show ?thesis
    unfolding advance_and_continue_def
    by (intro node_inv_and_then) (auto intro!: node_inv_and_then simp: node_inv_replicate_to)
qed

lemma node_inv_append_entries_response:
  assumes "node_inv n" "room 1 n"
  shows "node_inv (snd (handle_append_entries_response from resp now n))"
proof -
  let ?n = "snd (observe_term (aer_term resp) now n)"
  let ?a = "note_leadership_ack from (aer_seq resp) ?n"
  have inv: "node_inv ?a" "node_inv ?n" using assms(1) by (simp_all add: node_inv_observe node_inv_note_ack)
  have "room 1 ?n" using assms(2) by simp
  then have "room 1 (record_match from (aer_match_index resp) ?a)" by (simp add: room_def)
  with inv show ?thesis
    by (auto simp: handle_append_entries_response_def Let_def case_prod_beta
        intro!: node_inv_advance_and_continue node_inv_replicate_to node_inv_record_match node_inv_back_off)
qed

lemma node_inv_install_snapshot_response:
  assumes "node_inv n" "room 1 n"
  shows "node_inv (snd (handle_install_snapshot_response from resp now n))"
proof -
  let ?n = "snd (observe_term (isr_term resp) now n)"
  have inv: "node_inv ?n" using assms(1) by (simp add: node_inv_observe)
  have "room 1 ?n" using assms(2) by simp
  then have "room 1 (record_match from i ?n)" for i by (simp add: room_def)
  with inv show ?thesis
    by (auto simp: handle_install_snapshot_response_def Let_def case_prod_beta split: option.splits
        intro!: node_inv_advance_and_continue node_inv_record_match)
qed

lemma node_inv_installed:
  assumes "node_inv n" "n_commit_index n < last_included_index m"
  shows "node_inv (n\<lparr>n_log := compact_to m d (n_log n),
      n_configs := on_install_snapshot c (last_included_index m) False (n_configs n),
      n_commit_index := last_included_index m, n_snapshot := Some m\<rparr>)"
    and "node_inv (n\<lparr>n_log := install_snapshot_replacing_log m d (n_log n),
      n_configs := on_install_snapshot c (last_included_index m) True (n_configs n),
      n_commit_index := last_included_index m, n_snapshot := Some m\<rparr>)"
proof -
  have wf: "log_wf (n_log n)" using assms(1) by (simp add: node_inv_def)
  have "log_base (n_log n) \<le> last_included_index m"
    using assms snapshot_index_base [OF assms(1)] by (simp add: node_inv_def)
  from compact_wf [OF wf this] assms(1) tracks_install [of "n_configs n" "n_log n" m]
  show "node_inv (n\<lparr>n_log := compact_to m d (n_log n),
      n_configs := on_install_snapshot c (last_included_index m) False (n_configs n),
      n_commit_index := last_included_index m, n_snapshot := Some m\<rparr>)"
    and "node_inv (n\<lparr>n_log := install_snapshot_replacing_log m d (n_log n),
      n_configs := on_install_snapshot c (last_included_index m) True (n_configs n),
      n_commit_index := last_included_index m, n_snapshot := Some m\<rparr>)"
    by (simp_all add: node_inv_def snapshot_index_def)
qed

lemma node_inv_install_snapshot:
  assumes "node_inv n"
  shows "node_inv (snd (handle_install_snapshot req now n))"
proof -
  let ?n1 = "snd (observe_term (is_term req) now n)"
  let ?n2 = "recognize_leader (is_leader_id req) now ?n1"
  let ?m = "\<lparr>last_included_index = is_last_included_index req,
             last_included_term = is_last_included_term req, snap_config = is_config req\<rparr>"
  have inv1: "node_inv ?n1" using assms by (simp add: node_inv_observe)
  then have inv2: "node_inv ?n2" by simp
  show ?thesis
  proof (cases "is_term req < current_term (n_hard ?n1) \<or> is_offset req \<noteq> 0 \<or> \<not> is_done req
      \<or> is_last_included_index req \<le> snapshot_index ?n2 \<or> is_last_included_index req \<le> n_commit_index ?n2")
    case True
    with inv1 inv2 show ?thesis by (auto simp: handle_install_snapshot_def Let_def)
  next
    case False
    then have "n_commit_index ?n2 < last_included_index ?m" by simp
    from node_inv_installed [OF inv2 this, where d = "is_data req" and c = "is_config req"] False
    show ?thesis
      by (cases "map_option le_term (log_get (n_log ?n2) (last_included_index ?m))
                   = Some (last_included_term ?m)")
        (simp_all add: handle_install_snapshot_def Let_def del: map_option_eq_Some)
  qed
qed

lemma node_inv_compact:
  assumes "node_inv n"
  shows "node_inv (snd (compact data n))"
proof -
  have wf: "log_wf (n_log n)" and tr: "tracks (n_configs n) (n_log n)"
    using assms by (simp_all add: node_inv_def)
  have "node_inv (n\<lparr>n_log := compact_to m data (n_log n), n_snapshot := Some m,
      n_configs := on_compact (n_commit_index n) (n_configs n)\<rparr>)"
    if "last_included_index m = n_commit_index n" for m
  proof -
    have "log_base (n_log n) \<le> last_included_index m"
      using assms that snapshot_index_base [OF assms] by (simp add: node_inv_def)
    from compact_wf [OF wf this] tracks_compact [OF tr that] assms that show ?thesis
      by (simp add: node_inv_def snapshot_index_def)
  qed
  with assms show ?thesis
    by (auto simp: compact_def Let_def split: option.splits)
qed

lemma node_inv_propose:
  assumes "node_inv n" "room 2 n"
  shows "node_inv (snd (propose cmd now n))"
proof -
  let ?i = "index_next (last_index (n_log n))"
  let ?n = "n\<lparr>n_log := log_append (entry_new (current_term (n_hard n)) ?i cmd) (n_log n)\<rparr>"
  have i: "?i = Suc (last_index (n_log n))"
    using assms(2) by (intro index_next_exact) (simp add: room_def)
  have wf: "log_wf (n_log n)" using assms(1) by (simp add: node_inv_def)
  have inv: "node_inv ?n" using assms(1) i by (intro node_inv_append_plain) simp_all
  have "room (if is_joint (active_config ?n) then 1 else 0) ?n"
    using assms(2) i wf by (auto simp: room_def last_index_append)
  from advance_inv(1) [OF inv this] assms(1) show ?thesis
    by (simp add: propose_def Let_def node_inv_then_replicate)
qed

lemma node_inv_start_read:
  assumes "node_inv n"
  shows "node_inv (snd (start_read now n))"
proof (cases "n_role n")
  case (Leader s)
  have "node_inv (n\<lparr>n_read_seq := k, n_role := Leader (s\<lparr>pending_reads := rs\<rparr>)\<rparr>)" for k rs
    using assms Leader by (intro node_inv_role) (auto simp: node_inv_def snapshot_index_def)
  with assms Leader show ?thesis
    by (auto simp: start_read_def Let_def intro!: node_inv_and_then node_inv_replicate_all)
qed (use assms in \<open>simp_all add: start_read_def\<close>)

lemma node_inv_conf_change:
  assumes "node_inv n" "room 2 n"
  shows "node_inv (snd (propose_conf_change vs now n))"
proof -
  have "node_inv (snd (append_config_entry c now n))" for c
    using advance_inv(3) [OF assms(1), of c now] assms(2) by (simp add: room_def)
  with assms(1) show ?thesis
    by (auto simp: propose_conf_change_def split: role.splits option.splits)
qed

lemma node_inv_add_learner:
  assumes "node_inv n" "room 2 n"
  shows "node_inv (snd (propose_add_learner i now n))"
proof -
  have "node_inv (snd (append_config_entry c now n))" for c
    using advance_inv(3) [OF assms(1), of c now] assms(2) by (simp add: room_def)
  with assms(1) show ?thesis by (simp add: propose_add_learner_def)
qed

lemma first_index_wf: "log_wf l \<Longrightarrow> first_index l = (if log_table l = [] then 0 else Suc (log_base l))"
  using run_from_nth [of "log_base l" "log_table l" 0]
  by (auto simp: first_index_def tbl_first_def log_wf_def split: list.splits)

lemma node_inv_bootstrap:
  assumes "log_wf l"
  shows "node_inv (with_bootstrap i c l r cfg now)"
proof -
  define b where "b = (case log_snapshot_meta l of
      Some m \<Rightarrow> if voters (snap_config m) \<noteq> {} then snap_config m else c | None \<Rightarrow> c)"
  let ?t = "note_configs (map snd (log_table l)) (tracker_new b (log_base l))"
  have cfgs: "n_configs (with_bootstrap i c l r cfg now) = ?t"
    using assms by (auto simp: with_bootstrap_def Let_def b_def first_index_wf entries_from_all log_base_def
        split: option.splits)
  have "tracks ?t l" using assms by (rule tracks_recovered)
  with cfgs show ?thesis
    by (auto simp: node_inv_def assms with_bootstrap_def Let_def load_hard_state_def snapshot_index_def
        split: option.splits prod.splits)
qed

end
