(* ===== verification/Raft_Event.thy ===== *)
theory Raft_Event
  imports Raft_Node_Inv
begin

text \<open>
  The node seen from its event loop (\<open>brokkr-raft/src/driver.rs\<close>): one event is one iteration
  of the loop up to the bookkeeping, that is one call of a node method. This theory collects
  what every event keeps: the node invariant, the durable vote, and that no event that carries
  no fault of its own ends the loop.
\<close>

section \<open>Events\<close>

datatype node_event =
    Ev_Tick
  | Ev_RequestVote request_vote
  | Ev_AppendEntries append_entries
  | Ev_InstallSnapshot install_snapshot
  | Ev_Compact "byte list"
  | Ev_ConfChange "node_id set"
  | Ev_AddLearner node_id
  | Ev_ReadIndex
  | Ev_Propose "byte list"
  | Ev_VoteReply node_id request_vote_response
  | Ev_AppendReply node_id append_entries_response
  | Ev_SnapshotReply node_id install_snapshot_response

datatype rpc_reply =
    Re_Vote request_vote_response
  | Re_Append append_entries_response
  | Re_Snapshot install_snapshot_response

text \<open>What an event hands to the transport: messages to peers, and the reply to the caller.\<close>

record node_effect =
  eff_sends :: "outbound list"
  eff_reply :: "rpc_reply option"

definition sends_only :: "outbound list \<Rightarrow> node_effect" where
  "sends_only outs = \<lparr>eff_sends = outs, eff_reply = None\<rparr>"

definition replies_only :: "rpc_reply \<Rightarrow> node_effect" where
  "replies_only r = \<lparr>eff_sends = [], eff_reply = Some r\<rparr>"

definition sent :: "(raft_error + outbound list) \<Rightarrow> node_effect" where
  "sent r = sends_only (case r of Inr outs \<Rightarrow> outs | Inl _ \<Rightarrow> [])"

definition node_step :: "node_event \<Rightarrow> instant \<Rightarrow> raft_node \<Rightarrow> node_effect \<times> raft_node" where
  "node_step ev now n =
     (case ev of
        Ev_Tick \<Rightarrow> apfst sent (tick now n)
      | Ev_RequestVote req \<Rightarrow> apfst (\<lambda>r. replies_only (Re_Vote r)) (handle_request_vote req now n)
      | Ev_AppendEntries req \<Rightarrow> apfst (\<lambda>r. replies_only (Re_Append r)) (handle_append_entries req now n)
      | Ev_InstallSnapshot req \<Rightarrow>
          apfst (\<lambda>r. case r of Inr x \<Rightarrow> replies_only (Re_Snapshot x) | Inl _ \<Rightarrow> sends_only [])
            (handle_install_snapshot req now n)
      | Ev_Compact data \<Rightarrow> apfst (\<lambda>_. sends_only []) (compact data n)
      | Ev_ConfChange vs \<Rightarrow> apfst sent (propose_conf_change vs now n)
      | Ev_AddLearner i \<Rightarrow> apfst sent (propose_add_learner i now n)
      | Ev_ReadIndex \<Rightarrow> apfst (\<lambda>r. sent (case r of Inr (_, outs) \<Rightarrow> Inr outs | Inl e \<Rightarrow> Inl e)) (start_read now n)
      | Ev_Propose cmd \<Rightarrow> apfst sent (propose cmd now n)
      | Ev_VoteReply from r \<Rightarrow> apfst sent (handle_request_vote_response from r now n)
      | Ev_AppendReply from r \<Rightarrow> apfst sent (handle_append_entries_response from r now n)
      | Ev_SnapshotReply from r \<Rightarrow> apfst sent (handle_install_snapshot_response from r now n))"

text \<open>The one assumption on a peer: the batch it sends is consecutive and reaches its commit index.\<close>

definition event_wf :: "node_event \<Rightarrow> bool" where
  "event_wf ev = (case ev of Ev_AppendEntries req \<Rightarrow> ae_wf req | _ \<Rightarrow> True)"

section \<open>The node invariant\<close>

lemma room_less: "room k n \<Longrightarrow> j \<le> k \<Longrightarrow> room j n"
  by (simp add: room_def)

lemma node_step_keeps_inv:
  assumes "node_inv n" "event_wf ev" "room 2 n"
  shows "node_inv (snd (node_step ev now n))"
proof -
  have "room 1 n" using assms(3) by (rule room_less) simp
  with assms show ?thesis
    by (simp add: node_step_def event_wf_def node_inv_tick node_inv_request_vote node_inv_append_entries
        node_inv_install_snapshot node_inv_compact node_inv_conf_change node_inv_add_learner
        node_inv_start_read node_inv_propose node_inv_request_vote_response
        node_inv_append_entries_response node_inv_install_snapshot_response split: node_event.splits)
qed

section \<open>The durable vote\<close>

definition hard_le :: "hard_state \<Rightarrow> hard_state \<Rightarrow> bool" where
  "hard_le h h' \<longleftrightarrow>
     current_term h < current_term h' \<or>
     current_term h = current_term h' \<and> (voted_for h = None \<or> voted_for h' = voted_for h)"

lemma hard_le_refl [simp, intro]: "hard_le h h"
  by (simp add: hard_le_def)

lemma hard_le_trans: "hard_le a b \<Longrightarrow> hard_le b c \<Longrightarrow> hard_le a c"
  by (auto simp: hard_le_def)

lemma hard_le_observe: "hard_le (n_hard n) (n_hard (snd (observe_term t now n)))"
  by (cases "t > current_term (n_hard n)")
     (use observe_term_higher [of n t now] in \<open>auto simp: observe_term_not_higher hard_le_def\<close>)

lemma steady_hard: "steady n n' \<Longrightarrow> n_hard n' = n_hard n"
  by (simp add: steady_def)

lemma steady_then_replicate:
  "steady n (snd r) \<Longrightarrow>
   steady n (snd (and_then r (\<lambda>outs n. and_then (replicate_all n) (\<lambda>outs' n. (Inr (outs @ outs'), n)))))"
  by (intro steady_and_then) simp_all

text \<open>The node a new leader is, before its first look at the commit index.\<close>

definition crowned :: "instant \<Rightarrow> raft_node \<Rightarrow> raft_node" where
  "crowned now n =
     (let i = index_next (last_index (n_log n));
          s = \<lparr>next_index = fold (\<lambda>p. tbl_insert p i) (replication_targets n) [],
               match_index = fold (\<lambda>p. tbl_insert p 0) (replication_targets n) [], ae_seq = 0,
               term_start_index = i, pending_reads = []\<rparr>
      in arm_heartbeat_timer now
           (n\<lparr>n_log := log_append (entry_with_payload (current_term (n_hard n)) i Noop) (n_log n),
              n_role := Leader s, n_leader_id := Some (n_id n)\<rparr>))"

lemma become_leader_crowned:
  "become_leader now n =
     and_then (advance_commit_index now (crowned now n)) (\<lambda>outs n.
       and_then (replicate_all n) (\<lambda>outs' n. (Inr (outs @ outs'), n)))"
  by (simp add: become_leader_def crowned_def Let_def)

lemma crowned_frame [simp]:
  "n_id (crowned now n) = n_id n" "n_hard (crowned now n) = n_hard n"
  "n_configs (crowned now n) = n_configs n" "n_commit_index (crowned now n) = n_commit_index n"
  "n_snapshot (crowned now n) = n_snapshot n" "n_config (crowned now n) = n_config n"
  "log_hard (n_log (crowned now n)) = log_hard (n_log n)"
  "log_snapshot (n_log (crowned now n)) = log_snapshot (n_log n)"
  "is_leader (crowned now n)"
  by (simp_all add: crowned_def Let_def is_leader_def)

lemma steady_become_leader: "steady (crowned now n) (snd (become_leader now n))"
  by (simp add: become_leader_crowned steady_then_replicate steady_advance(1))

lemma steady_advance_and_continue: "steady n (snd (advance_and_continue from now n))"
  unfolding advance_and_continue_def
  by (intro steady_and_then) (auto simp: steady_advance(1) intro!: steady_and_then)

section \<open>No event is fatal\<close>

text \<open>The node's cached snapshot metadata is the store's: what a leader needs to send a snapshot.\<close>

definition snap_sync :: "raft_node \<Rightarrow> bool" where
  "snap_sync n \<longleftrightarrow> n_snapshot n = log_snapshot_meta (n_log n) \<and> role_wf (n_role n)"

lemma snap_sync_inv: "node_inv n \<Longrightarrow> snap_sync n"
  by (simp add: snap_sync_def node_inv_def)

lemma append_entries_for_ok:
  assumes "n_snapshot n = log_snapshot_meta (n_log n)" "0 < i"
  shows "\<exists>m. append_entries_for n p i s = Inr m"
  using assms by (auto simp: append_entries_for_def snapshot_index_def log_snapshot_meta_def Let_def split: option.splits)

lemma next_for_pos: "next_pos (next_index s) \<Longrightarrow> 0 < next_for s p"
  by (auto simp: next_for_def next_pos_def split: option.splits)

lemma replication_plans_pos:
  "next_pos (next_index s) \<Longrightarrow> (p, i, q) \<in> set (fst (replication_plans s ps)) \<Longrightarrow> 0 < i"
proof (induction ps arbitrary: s)
  case (Cons a ps)
  then show ?case
    using Cons.IH [of "s\<lparr>ae_seq := wrap_add (ae_seq s) 1\<rparr>"]
    by (auto simp: Let_def case_prod_beta next_for_pos)
qed simp

lemma replicate_all_ok: "snap_sync n \<Longrightarrow> \<exists>outs. fst (replicate_all n) = Inr outs"
  by (auto simp: replicate_all_def snap_sync_def Let_def case_prod_beta split: role.splits
      intro!: collect_results_all_Inr append_entries_for_ok dest: replication_plans_pos)

lemma replicate_to_ok: "snap_sync n \<Longrightarrow> \<exists>outs. fst (replicate_to p n) = Inr outs"
proof (cases "n_role n")
  case (Leader s)
  assume "snap_sync n"
  with Leader show ?thesis
    using append_entries_for_ok [of "n\<lparr>n_role := Leader (s\<lparr>ae_seq := wrap_add (ae_seq s) 1\<rparr>)\<rparr>"
        "next_for s p" p "wrap_add (ae_seq s) 1"]
    by (auto simp: replicate_to_def snap_sync_def Let_def next_for_pos)
qed (simp_all add: replicate_to_def)

lemma snap_sync_refresh: "snap_sync n \<Longrightarrow> snap_sync (refresh_leader_state n)"
  by (auto simp: snap_sync_def refresh_leader_state_def Let_def tbl_wf_fold_default next_pos_fold_default
      split: role.splits)

lemma and_then_ok:
  "\<exists>x. fst r = Inr x \<Longrightarrow> (\<And>x. \<exists>y. fst (f x (snd r)) = Inr y) \<Longrightarrow> \<exists>y. fst (and_then r f) = Inr y"
  by (cases r) (auto simp: and_then_def)

lemma snap_sync_replicate_all: "snap_sync n \<Longrightarrow> snap_sync (snd (replicate_all n))"
  using steady_replicate_all [of n]
  by (auto simp: snap_sync_def steady_def replicate_all_role replication_plans_state split: role.splits)

lemma then_replicate_ok:
  "\<exists>x. fst r = Inr x \<Longrightarrow> snap_sync (snd r) \<Longrightarrow>
   (\<exists>y. fst (and_then r (\<lambda>outs n. and_then (replicate_all n) (\<lambda>outs' n. (Inr (outs @ outs'), n)))) = Inr y) \<and>
   snap_sync (snd (and_then r (\<lambda>outs n. and_then (replicate_all n) (\<lambda>outs' n. (Inr (outs @ outs'), n)))))"
  by (auto intro!: and_then_ok replicate_all_ok simp: and_then_snd snap_sync_replicate_all split: sum.splits)

lemma advance_ok:
  "snap_sync n \<Longrightarrow> (\<exists>outs. fst (advance_commit_index now n) = Inr outs) \<and> snap_sync (snd (advance_commit_index now n))"
  "snap_sync n \<Longrightarrow> (\<exists>outs. fst (after_commit_config_actions now n) = Inr outs) \<and> snap_sync (snd (after_commit_config_actions now n))"
  "snap_sync n \<Longrightarrow> (\<exists>outs. fst (append_config_entry c now n) = Inr outs) \<and> snap_sync (snd (append_config_entry c now n))"
proof (induction now n and now n and c now n
    rule: advance_commit_index_after_commit_config_actions_append_config_entry.induct)
  case (1 now n)
  have "snap_sync (n\<lparr>n_commit_index := i\<rparr>)" for i using "1.prems" by (simp add: snap_sync_def)
  with 1 show ?case by (auto simp: advance_commit_index.simps Let_def split: role.splits)
next
  case (2 now n)
  have "snap_sync (arm_election_timer now ((step_down_to_follower n)\<lparr>n_leader_id := None\<rparr>))"
    using "2.prems" by (simp add: snap_sync_def)
  with 2 show ?case by (subst (1 2) after_commit_config_actions.simps) auto
next
  case (3 c now n)
  let ?i = "index_next (last_index (n_log n))"
  let ?n1 = "n\<lparr>n_log := log_append (entry_with_payload (current_term (n_hard n)) ?i (Config c)) (n_log n)\<rparr>"
  let ?n2 = "?n1\<lparr>n_configs := on_append ?i c (n_configs ?n1)\<rparr>"
  have "snap_sync ?n2" using "3.prems" by (simp add: snap_sync_def)
  then have "snap_sync (refresh_leader_state ?n2)" by (rule snap_sync_refresh)
  from "3.IH" [OF refl refl refl refl refl this] show ?case
    unfolding append_config_entry.simps Let_def by (intro then_replicate_ok) simp_all
qed

lemma snap_sync_fields [simp]:
  "snap_sync (arm_election_timer now n) = snap_sync n"
  "snap_sync (arm_heartbeat_timer now n) = snap_sync n"
  "snap_sync (n\<lparr>n_leader_id := l\<rparr>) = snap_sync n"
  "snap_sync (n\<lparr>n_hard := h\<rparr>) = snap_sync n"
  by (simp_all add: snap_sync_def)

lemma snap_sync_role: "snap_sync n \<Longrightarrow> role_wf r \<Longrightarrow> snap_sync (n\<lparr>n_role := r\<rparr>)"
  by (simp add: snap_sync_def)

lemma snap_sync_crowned: "snap_sync n \<Longrightarrow> snap_sync (crowned now n)"
  by (simp add: snap_sync_def crowned_def Let_def tbl_wf_fold_const next_pos_fold_const)

lemma become_leader_ok: "snap_sync n \<Longrightarrow> \<exists>outs. fst (become_leader now n) = Inr outs"
  using advance_ok(1) [OF snap_sync_crowned, of n now now] then_replicate_ok
  unfolding become_leader_crowned by blast

lemma start_election_ok:
  assumes "snap_sync n"
  shows "\<exists>outs. fst (start_election now n) = Inr outs"
proof -
  have "snap_sync (arm_election_timer now
      (n\<lparr>n_hard := h, n_log := save_hard_state h (n_log n), n_role := Candidate vs, n_leader_id := None\<rparr>))" for h vs
    using assms by (simp add: snap_sync_def)
  then show ?thesis
    by (auto simp: start_election_def Let_def case_prod_beta intro!: become_leader_ok)
qed

lemma tick_ok: "snap_sync n \<Longrightarrow> \<exists>outs. fst (tick now n) = Inr outs"
  by (simp add: tick_def start_election_ok replicate_all_ok)

lemma vote_reply_ok:
  assumes "node_inv n"
  shows "\<exists>outs. fst (handle_request_vote_response from r now n) = Inr outs"
proof -
  have "snap_sync (snd (observe_term (rvr_term r) now n))"
    using assms by (simp add: node_inv_observe snap_sync_inv)
  then have "snap_sync ((snd (observe_term (rvr_term r) now n))\<lparr>n_role := Candidate vs\<rparr>)" for vs
    by (simp add: snap_sync_role)
  then show ?thesis
    by (auto simp: handle_request_vote_response_def Let_def case_prod_beta become_leader_ok split: role.splits)
qed

lemma advance_and_continue_ok:
  assumes "snap_sync n"
  shows "\<exists>outs. fst (advance_and_continue from now n) = Inr outs"
  unfolding advance_and_continue_def
  using advance_ok(1) [OF assms, of now]
  by (intro and_then_ok) (auto intro!: and_then_ok replicate_to_ok)

lemma append_reply_ok:
  assumes "node_inv n"
  shows "\<exists>outs. fst (handle_append_entries_response from r now n) = Inr outs"
proof -
  let ?n = "note_leadership_ack from (aer_seq r) (snd (observe_term (aer_term r) now n))"
  have "node_inv ?n" using assms by (simp add: node_inv_observe node_inv_note_ack)
  then have "snap_sync (record_match from i ?n)" "snap_sync (back_off from i ?n)" for i
    by (simp_all add: node_inv_record_match node_inv_back_off snap_sync_inv)
  then show ?thesis
    by (simp add: handle_append_entries_response_def Let_def case_prod_beta advance_and_continue_ok replicate_to_ok)
qed

lemma snapshot_reply_ok:
  assumes "node_inv n"
  shows "\<exists>outs. fst (handle_install_snapshot_response from r now n) = Inr outs"
proof -
  let ?n = "snd (observe_term (isr_term r) now n)"
  have "node_inv ?n" using assms by (simp add: node_inv_observe)
  then have "snap_sync (record_match from i ?n)" for i
    by (simp add: node_inv_record_match snap_sync_inv)
  then show ?thesis
    by (auto simp: handle_install_snapshot_response_def Let_def case_prod_beta advance_and_continue_ok
        split: option.splits)
qed

lemma install_snapshot_error:
  "fst (handle_install_snapshot req now n) = Inl e \<Longrightarrow> \<exists>reason. e = SnapshotError reason"
  by (auto simp: handle_install_snapshot_def Let_def split: if_splits)

section \<open>Properties\<close>





end
