(* ===== verification/Raft_Election.thy ===== *)
theory Raft_Election
  imports Raft_Event
begin

text \<open>
  What the node promises about elections, as an abstract machine over its hard state and its
  standing (following, campaigning with a set of votes, leading), and the proof that every
  event of the node is a step of that machine.
\<close>

section \<open>The abstract machine\<close>

datatype standing = Following | Campaigning "node_id set" | Leading

type_synonym elector = "hard_state \<times> standing"

definition standing_of :: "role \<Rightarrow> standing" where
  "standing_of r = (case r of Follower \<Rightarrow> Following | Candidate vs \<Rightarrow> Campaigning vs | Leader _ \<Rightarrow> Leading)"

definition elector_of :: "raft_node \<Rightarrow> elector" where
  "elector_of n = (n_hard n, standing_of (n_role n))"

definition grants :: "rpc_reply option \<Rightarrow> bool" where
  "grants r = (case r of Some (Re_Vote v) \<Rightarrow> rvr_vote_granted v | _ \<Rightarrow> False)"

text \<open>Where a campaign with votes \<open>vs\<close> may stand: still open, or over when \<open>vs\<close> is a quorum.\<close>

definition after_count :: "(node_id set \<Rightarrow> bool) \<Rightarrow> node_id set \<Rightarrow> standing \<Rightarrow> bool" where
  "after_count Q vs st \<longleftrightarrow> st = Campaigning vs \<or> Q vs \<and> (st = Leading \<or> st = Following)"

inductive elect ::
  "node_id \<Rightarrow> (node_id set \<Rightarrow> bool) \<Rightarrow> node_event \<Rightarrow> rpc_reply option \<Rightarrow> elector \<Rightarrow> elector \<Rightarrow> bool"
  for me Q where
  stay: "\<not> grants r \<Longrightarrow> st' = st \<or> st' = Following \<Longrightarrow> elect me Q ev r (h, st) (h, st')"
| newer_term: "\<not> grants r \<Longrightarrow> t > current_term h \<Longrightarrow> elect me Q ev r (h, st) (stepped_to t h, Following)"
| grant: "voted_for h = None \<or> voted_for h = Some (rv_candidate_id req) \<Longrightarrow>
    rv_term req = current_term h \<Longrightarrow>
    elect me Q (Ev_RequestVote req) (Some (Re_Vote \<lparr>rvr_term = current_term h, rvr_vote_granted = True\<rparr>))
      (h, st) (voting_for (rv_candidate_id req) h, st)"
| grant_newer: "rv_term req > current_term h \<Longrightarrow>
    elect me Q (Ev_RequestVote req) (Some (Re_Vote \<lparr>rvr_term = rv_term req, rvr_vote_granted = True\<rparr>))
      (h, st) (voting_for (rv_candidate_id req) (stepped_to (rv_term req) h), Following)"
| campaign: "after_count Q {me} st' \<Longrightarrow>
    elect me Q Ev_Tick None (h, st) (voting_for me (stepped_to (Suc (current_term h)) h), st')"
| count: "rvr_term v = current_term h \<Longrightarrow>
    vs' = (if rvr_vote_granted v then insert from vs else vs) \<Longrightarrow> after_count Q vs' st' \<Longrightarrow>
    elect me Q (Ev_VoteReply from v) None (h, Campaigning vs) (h, st')"

inductive_cases elect_cases: "elect me Q ev r s s'"

text \<open>The machine never goes back a term and never changes a vote within one.\<close>

lemma stepped_to_higher: "t > current_term h \<Longrightarrow> current_term (stepped_to t h) = t \<and> voted_for (stepped_to t h) = None"
  by simp

lemma elect_hard_le: "elect me Q ev r s s' \<Longrightarrow> hard_le (fst s) (fst s')"
  by (induction rule: elect.induct) (auto simp: hard_le_def)

section \<open>The node is such a machine\<close>

text \<open>A calm step leaves the hard state alone and at most gives up a role.\<close>

definition calm :: "raft_node \<Rightarrow> raft_node \<Rightarrow> bool" where
  "calm n n' \<longleftrightarrow> n_id n' = n_id n \<and> n_hard n' = n_hard n \<and> same_or_less (n_role n) (n_role n')"

lemma calm_refl [simp, intro]: "calm n n"
  by (simp add: calm_def)

lemma steady_calm: "steady n n' \<Longrightarrow> calm n n'"
  by (simp add: steady_def calm_def)

lemma calm_standing:
  "calm n n' \<Longrightarrow> standing_of (n_role n') = standing_of (n_role n) \<or> standing_of (n_role n') = Following"
  by (auto simp: calm_def same_or_less_def standing_of_def split: role.splits)

lemma elect_calm:
  "calm n n' \<Longrightarrow> \<not> grants r \<Longrightarrow> elect me Q ev r (elector_of n) (elector_of n')"
  using calm_standing [of n n'] elect.stay by (auto simp: elector_of_def calm_def)

lemma elector_observe:
  "elector_of (snd (observe_term t now n)) =
     (if t > current_term (n_hard n) then (stepped_to t (n_hard n), Following) else elector_of n)"
  using observe_term_higher [of n t now]
  by (auto simp: elector_of_def standing_of_def observe_term_not_higher)

lemma grants_simps [simp]:
  "\<not> grants None" "\<not> grants (Some (Re_Append a))" "\<not> grants (Some (Re_Snapshot s))"
  "grants (Some (Re_Vote v)) = rvr_vote_granted v"
  by (simp_all add: grants_def)

lemma elect_observe_then:
  assumes "calm (snd (observe_term t now n)) n'" "\<not> grants r"
  shows "elect me Q ev r (elector_of n) (elector_of n')"
proof (cases "t > current_term (n_hard n)")
  case True
  then have "elector_of n' = (stepped_to t (n_hard n), Following)"
    using calm_standing [OF assms(1)] assms(1) elector_observe [of t now n]
    by (auto simp: elector_of_def calm_def)
  with True assms(2) show ?thesis by (simp add: elector_of_def elect.newer_term)
next
  case False
  with assms show ?thesis by (simp add: observe_term_not_higher elect_calm)
qed

lemma calm_append_entries:
  "calm (snd (observe_term (ae_term req) now n)) (snd (handle_append_entries req now n))"
  by (simp add: handle_append_entries_def Let_def case_prod_beta calm_def)

lemma calm_install_snapshot:
  "calm (snd (observe_term (is_term req) now n)) (snd (handle_install_snapshot req now n))"
  by (simp add: handle_install_snapshot_def Let_def calm_def)

lemma calm_compact: "calm n (snd (compact data n))"
  by (auto simp: compact_def Let_def calm_def split: option.splits)

lemma calm_propose: "calm n (snd (propose cmd now n))"
proof -
  let ?n = "n\<lparr>n_log := log_append (entry_new (current_term (n_hard n)) (index_next (last_index (n_log n))) cmd) (n_log n)\<rparr>"
  have "steady n (snd (advance_commit_index now ?n))"
    by (rule steady_trans [OF steady_append steady_advance(1)])
  then show ?thesis
    by (simp add: propose_def Let_def steady_then_replicate steady_calm)
qed

lemma calm_start_read: "calm n (snd (start_read now n))"
proof (cases "n_role n")
  case (Leader s)
  have "steady n (snd (replicate_all (n\<lparr>n_read_seq := k, n_role := Leader (s\<lparr>pending_reads := rs\<rparr>)\<rparr>)))" for k rs
    by (rule steady_trans [OF _ steady_replicate_all]) (simp add: steady_def Leader)
  moreover have "calm n (n\<lparr>n_read_seq := k, n_read_results := rs\<rparr>)" for k rs
    by (simp add: calm_def)
  ultimately show ?thesis using Leader
    by (simp add: start_read_def Let_def and_then_snd steady_calm split: sum.splits)
qed (simp_all add: start_read_def)

lemma calm_conf_change: "calm n (snd (propose_conf_change vs now n))"
  by (auto simp: propose_conf_change_def steady_calm steady_advance(3) split: role.splits option.splits)

lemma calm_add_learner: "calm n (snd (propose_add_learner i now n))"
  by (simp add: propose_add_learner_def steady_calm steady_advance(3))

lemma calm_append_reply:
  "calm (snd (observe_term (aer_term v) now n)) (snd (handle_append_entries_response from v now n))"
proof -
  let ?n = "snd (observe_term (aer_term v) now n)"
  let ?a = "note_leadership_ack from (aer_seq v) ?n"
  have "steady ?n (snd (advance_and_continue from now (record_match from (aer_match_index v) ?a)))"
    by (rule steady_trans [OF steady_trans [OF steady_role_only(1) steady_role_only(2)] steady_advance_and_continue])
  moreover have "steady ?n (snd (replicate_to from (back_off from (aer_conflict_index v) ?a)))"
    by (rule steady_trans [OF steady_trans [OF steady_role_only(1) steady_role_only(3)] steady_replicate_to])
  ultimately show ?thesis
    by (simp add: handle_append_entries_response_def Let_def case_prod_beta steady_calm)
qed

lemma calm_snapshot_reply:
  "calm (snd (observe_term (isr_term v) now n)) (snd (handle_install_snapshot_response from v now n))"
proof -
  let ?n = "snd (observe_term (isr_term v) now n)"
  have "steady ?n (snd (advance_and_continue from now (record_match from i ?n)))" for i
    by (rule steady_trans [OF steady_role_only(2) steady_advance_and_continue])
  then show ?thesis
    by (simp add: handle_install_snapshot_response_def Let_def case_prod_beta steady_calm split: option.splits)
qed

lemma elect_request_vote:
  "elect me Q (Ev_RequestVote req) (Some (Re_Vote (fst (handle_request_vote req now n))))
     (elector_of n) (elector_of (snd (handle_request_vote req now n)))"
proof (cases "leader_is_current now n")
  case False
  let ?n = "snd (observe_term (rv_term req) now n)"
  show ?thesis
  proof (cases "rvr_vote_granted (fst (handle_request_vote req now n))")
    case True
    then have res: "rv_term req \<ge> current_term (n_hard n)"
        "handle_request_vote req now n = (\<lparr>rvr_term = rv_term req, rvr_vote_granted = True\<rparr>,
          arm_election_timer now (?n\<lparr>n_hard := voting_for (rv_candidate_id req) (n_hard ?n),
            n_log := save_hard_state (voting_for (rv_candidate_id req) (n_hard ?n)) (n_log ?n)\<rparr>))"
        "voted_for (n_hard ?n) = None \<or> voted_for (n_hard ?n) = Some (rv_candidate_id req)"
      using False by (auto simp: handle_request_vote_def Let_def max_def split: if_splits option.splits)
    show ?thesis
    proof (cases "rv_term req > current_term (n_hard n)")
      case True
      with observe_term_higher [OF True, of now] res(2) show ?thesis
        by (simp add: elector_of_def standing_of_def elect.grant_newer)
    next
      case False
      then have "?n = n" "rv_term req = current_term (n_hard n)"
        using res(1) by (simp_all add: observe_term_not_higher)
      with res elect.grant [of "n_hard n" req me Q "standing_of (n_role n)"] show ?thesis
        by (simp add: elector_of_def)
    qed
  next
    case not: False
    have "calm ?n (snd (handle_request_vote req now n))"
      using False not by (auto simp: handle_request_vote_def Let_def split: if_splits)
    then show ?thesis using not by (intro elect_observe_then) simp_all
  qed
qed (simp add: handle_request_vote_def elect_calm)

lemma elect_become_leader:
  "Q vs \<Longrightarrow> after_count Q vs (standing_of (n_role (snd (become_leader now n))))"
  using calm_standing [OF steady_calm [OF steady_become_leader, of now n]]
  by (auto simp: after_count_def crowned_def Let_def standing_of_def)

lemma become_leader_hard [simp]: "n_hard (snd (become_leader now n)) = n_hard n"
  using steady_hard [OF steady_become_leader [of now n]] by simp

lemma elect_tick:
  assumes "current_term (n_hard n) < u64_max"
  shows "elect (n_id n) (has_quorum (active_config n)) Ev_Tick None (elector_of n) (elector_of (snd (tick now n)))"
proof -
  have 1: "steady n (snd (replicate_all (arm_heartbeat_timer now n)))"
    by (rule steady_trans [OF steady_arm(2) steady_replicate_all])
  let ?h = "voting_for (n_id n) (stepped_to (Suc (current_term (n_hard n))) (n_hard n))"
  have t: "term_next (current_term (n_hard n)) = Suc (current_term (n_hard n))"
    using assms by (simp add: term_next_def sat_add_def)
  have "n_hard (snd (start_election now n)) = ?h \<and>
      after_count (has_quorum (active_config n)) {n_id n} (standing_of (n_role (snd (start_election now n))))"
    by (auto simp: start_election_def Let_def t case_prod_beta active_config_def elect_become_leader)
       (simp add: after_count_def standing_of_def)
  then have "elect (n_id n) (has_quorum (active_config n)) Ev_Tick None (elector_of n)
      (elector_of (snd (start_election now n)))"
    by (simp add: elector_of_def elect.campaign)
  then show ?thesis
    using 1 by (simp add: tick_def elect_calm steady_calm)
qed

lemma elect_vote_reply:
  "elect (n_id n) (has_quorum (active_config n)) (Ev_VoteReply from v) None (elector_of n)
     (elector_of (snd (handle_request_vote_response from v now n)))"
proof (cases "rvr_term v = current_term (n_hard n) \<and> is_candidate n")
  case True
  then obtain vs where vs: "n_role n = Candidate vs" by (auto simp: is_candidate_def split: role.splits)
  let ?vs = "if rvr_vote_granted v then insert from vs else vs"
  have "n_hard (snd (handle_request_vote_response from v now n)) = n_hard n \<and>
      after_count (has_quorum (active_config n)) ?vs
        (standing_of (n_role (snd (handle_request_vote_response from v now n))))"
    using True vs
    by (auto simp: handle_request_vote_response_def observe_term_not_higher Let_def active_config_def
        elect_become_leader) (simp_all add: after_count_def standing_of_def)
  with True vs elect.count [of v "n_hard n" ?vs "from" vs] show ?thesis
    by (simp add: elector_of_def standing_of_def)
next
  case False
  then have "calm (snd (observe_term (rvr_term v) now n)) (snd (handle_request_vote_response from v now n))"
    by (auto simp: handle_request_vote_response_def Let_def case_prod_beta is_candidate_def observe_term_fst
        observe_term_not_higher split: role.splits)
  then show ?thesis by (rule elect_observe_then) simp
qed

lemma node_step_elect:
  assumes "ev = Ev_Tick \<Longrightarrow> current_term (n_hard n) < u64_max"
  shows "elect (n_id n) (has_quorum (active_config n)) ev (eff_reply (fst (node_step ev now n)))
           (elector_of n) (elector_of (snd (node_step ev now n)))"
  using assms
  by (cases ev)
     (auto simp: node_step_def sent_def sends_only_def replies_only_def elect_tick elect_request_vote elect_vote_reply
       split: sum.splits
       intro: elect_observe_then [OF calm_append_entries] elect_observe_then [OF calm_install_snapshot]
         elect_observe_then [OF calm_append_reply] elect_observe_then [OF calm_snapshot_reply]
         elect_calm calm_compact calm_propose calm_start_read calm_conf_change calm_add_learner)

section \<open>Identity\<close>

lemma calm_id: "calm n n' \<Longrightarrow> n_id n' = n_id n"
  by (simp add: calm_def)

lemma become_leader_id [simp]: "n_id (snd (become_leader now n)) = n_id n"
  using steady_become_leader [of now n] by (simp add: steady_def)

lemma request_vote_id [simp]: "n_id (snd (handle_request_vote req now n)) = n_id n"
  by (simp add: handle_request_vote_def Let_def)

lemma tick_id [simp]: "n_id (snd (tick now n)) = n_id n"
  using steady_replicate_all [of "arm_heartbeat_timer now n"]
  by (simp add: tick_def start_election_def Let_def case_prod_beta steady_def)

lemma vote_reply_id [simp]: "n_id (snd (handle_request_vote_response from v now n)) = n_id n"
  by (simp add: handle_request_vote_response_def Let_def case_prod_beta split: role.splits)

lemma node_step_id [simp]: "n_id (snd (node_step ev now n)) = n_id n"
  using calm_id [OF calm_append_entries] calm_id [OF calm_install_snapshot] calm_id [OF calm_compact]
    calm_id [OF calm_propose] calm_id [OF calm_start_read] calm_id [OF calm_conf_change]
    calm_id [OF calm_add_learner] calm_id [OF calm_append_reply] calm_id [OF calm_snapshot_reply]
  by (simp add: node_step_def split: node_event.splits)

end
