(* ===== verification/Raft_Static.thy ===== *)
theory Raft_Static
  imports Raft_Event
begin

text \<open>
  A node whose membership never changes: its log holds no configuration entry, and its
  bootstrap and snapshot configurations are one fixed \<open>C\<close>. Every event that carries no
  membership change keeps it so, and what the node sends is of the same kind.
\<close>

definition plain_entry :: "log_entry \<Rightarrow> bool" where
  "plain_entry e = (case le_payload e of Config _ \<Rightarrow> False | _ \<Rightarrow> True)"

definition plain_log :: "cluster_config \<Rightarrow> raft_log \<Rightarrow> bool" where
  "plain_log C l \<longleftrightarrow>
     (\<forall>p \<in> set (log_table l). plain_entry (snd p)) \<and>
     (case log_snapshot l of Some (m, _) \<Rightarrow> snap_config m = C | None \<Rightarrow> True)"

definition static :: "cluster_config \<Rightarrow> raft_node \<Rightarrow> bool" where
  "static C n \<longleftrightarrow>
     base (n_configs n) = C \<and> in_log (n_configs n) = [] \<and> plain_log C (n_log n) \<and>
     n_snapshot n = log_snapshot_meta (n_log n) \<and> n_hard n = log_hard (n_log n)"

definition static_event :: "cluster_config \<Rightarrow> node_event \<Rightarrow> bool" where
  "static_event C ev =
     (case ev of
        Ev_AppendEntries req \<Rightarrow> (\<forall>e \<in> set (ae_entries req). plain_entry e)
      | Ev_InstallSnapshot req \<Rightarrow> is_config req = C
      | Ev_ConfChange _ \<Rightarrow> False
      | Ev_AddLearner _ \<Rightarrow> False
      | _ \<Rightarrow> True)"

definition static_out :: "cluster_config \<Rightarrow> node_id \<Rightarrow> outbound \<Rightarrow> bool" where
  "static_out C me out =
     (case out of
        OutRequestVote _ req \<Rightarrow> rv_candidate_id req = me
      | OutAppendEntries _ req \<Rightarrow> (\<forall>e \<in> set (ae_entries req). plain_entry e)
      | OutInstallSnapshot _ req \<Rightarrow> is_config req = C)"

section \<open>The log and the tracker\<close>

lemma plain_log_save [simp]: "plain_log C (save_hard_state h l) = plain_log C l"
  by (simp add: plain_log_def)

lemma plain_append_all: "plain_log C l \<Longrightarrow> \<forall>e \<in> set es. plain_entry e \<Longrightarrow> plain_log C (log_append_all es l)"
proof (induction es arbitrary: l)
  case (Cons e es)
  have "plain_log C (log_append e l)"
    using Cons.prems set_tbl_insert [of "le_index e" e "log_table l"]
    by (auto simp: plain_log_def log_append_def log_append_all_def)
  with Cons show ?case by (simp add: log_append_all_Cons)
qed simp

lemma plain_append: "plain_log C l \<Longrightarrow> plain_entry e \<Longrightarrow> plain_log C (log_append e l)"
  by (simp add: log_append_def plain_append_all)

lemma plain_fold_remove: "set (fold tbl_remove ks t) \<subseteq> set t"
proof (induction ks arbitrary: t)
  case (Cons k ks)
  have "set (tbl_remove k t) \<subseteq> set t" by (auto simp: tbl_remove_def tbl_retain_def)
  with Cons [of "tbl_remove k t"] show ?case by simp
qed simp

lemma plain_truncate: "plain_log C l \<Longrightarrow> plain_log C (truncate_from i l)"
  using plain_fold_remove [of "map fst (tbl_range_from i (log_table l))" "log_table l"]
  by (auto simp: plain_log_def truncate_from_def Let_def)

lemma meta_write_snapshot [simp]: "log_snapshot_meta (write_snapshot m d w l) = Some m"
  by (simp add: log_snapshot_meta_def write_snapshot_def)

lemma plain_write_snapshot:
  "plain_log C l \<Longrightarrow> snap_config m = C \<Longrightarrow> plain_log C (write_snapshot m d w l)"
  by (auto simp: plain_log_def write_snapshot_def tbl_retain_def)

lemma plain_entries_from: "plain_log C l \<Longrightarrow> e \<in> set (entries_from l i) \<Longrightarrow> plain_entry e"
  by (auto simp: plain_log_def entries_from_def tbl_range_from_def tbl_retain_def)

lemma note_configs_plain: "\<forall>e \<in> set es. plain_entry e \<Longrightarrow> note_configs es t = t"
  by (induction es arbitrary: t) (auto simp: plain_entry_def split: entry_payload.splits)

lemma plain_new [simp]: "plain_entry (entry_new t i cmd)" "plain_entry (entry_with_payload t i Noop)"
  by (simp_all add: plain_entry_def entry_new_def entry_with_payload_def)

section \<open>The node\<close>

lemma static_cong:
  "static C n \<Longrightarrow> n_configs n' = n_configs n \<Longrightarrow> n_log n' = n_log n \<Longrightarrow> n_snapshot n' = n_snapshot n \<Longrightarrow>
   n_hard n' = n_hard n \<Longrightarrow> static C n'"
  by (simp add: static_def)

lemma static_fields [simp]:
  "static C (arm_election_timer now n) = static C n"
  "static C (arm_heartbeat_timer now n) = static C n"
  "static C (step_down_to_follower n) = static C n"
  "static C (recognize_leader l now n) = static C n"
  "static C (n\<lparr>n_leader_id := x\<rparr>) = static C n"
  "static C (n\<lparr>n_role := r\<rparr>) = static C n"
  "static C (n\<lparr>n_commit_index := i\<rparr>) = static C n"
  "static C (n\<lparr>n_read_results := rs\<rparr>) = static C n"
  "static C (n\<lparr>n_read_seq := k\<rparr>) = static C n"
  by (simp_all add: static_def)

lemma static_active: "static C n \<Longrightarrow> active_config n = C"
  by (simp add: static_def active_config_def active_def)

lemma static_hard: "static C n \<Longrightarrow> static C (n\<lparr>n_hard := h, n_log := save_hard_state h (n_log n)\<rparr>)"
  by (auto simp: static_def)

lemma static_observe: "static C n \<Longrightarrow> static C (snd (observe_term t now n))"
  by (cases "t > current_term (n_hard n)")
     (use observe_term_higher [of n t now] observe_term_frame [of t now n] in
       \<open>auto simp: static_def observe_term_not_higher\<close>)

lemma static_log_append:
  "static C n \<Longrightarrow> plain_entry e \<Longrightarrow> static C (n\<lparr>n_log := log_append e (n_log n)\<rparr>)"
  by (auto simp: static_def plain_append)

lemma static_replicate_all [simp]: "static C n \<Longrightarrow> static C (snd (replicate_all n))"
  using steady_replicate_all [of n] by (auto simp: static_def steady_def)

lemma static_replicate_to [simp]: "static C n \<Longrightarrow> static C (snd (replicate_to p n))"
  using steady_replicate_to [of n p] by (auto simp: static_def steady_def)

text \<open>With a fixed membership a moved commit index has no configuration entry to follow up.\<close>

lemma static_advance:
  assumes "static C n" "\<not> is_joint C"
  shows "fst (advance_commit_index now n) = Inr []"
    and "static C (snd (advance_commit_index now n))"
    and "n_log (snd (advance_commit_index now n)) = n_log n"
  using assms static_active [of C n] static_active [of C "n\<lparr>n_commit_index := i\<rparr>" for i]
  by (auto simp: advance_commit_index.simps after_commit_config_actions.simps Let_def is_leader_def
      split: role.splits)

lemma static_append_new_entries:
  assumes "static C n" "\<forall>e \<in> set es. plain_entry e"
  shows "static C (append_new_entries es n)"
  using assms
proof (induction es n rule: append_new_entries.induct)
  case (2 e es n)
  have batch: "static C (note_appended_configs (e # es) (m\<lparr>n_log := log_append_all (e # es) (n_log m)\<rparr>))"
    if "static C m" for m
    using that "2.prems"(2) note_configs_plain [OF "2.prems"(2)] plain_append_all [of C "n_log m" "e # es"]
    by (auto simp: static_def note_appended_configs_def simp del: note_configs_simps)
  have "static C (n\<lparr>n_log := truncate_from i (n_log n), n_configs := on_truncate i (n_configs n)\<rparr>)" for i
    using "2.prems"(1) by (auto simp: static_def plain_truncate on_truncate_def)
  from batch [OF this] batch [OF "2.prems"(1)] 2 show ?case
    by (simp add: Let_def split: option.splits)
qed simp

lemma static_then_replicate:
  "static C (snd r) \<Longrightarrow>
   static C (snd (and_then r (\<lambda>outs n. and_then (replicate_all n) (\<lambda>outs' n. (Inr (outs @ outs'), n)))))"
  by (simp add: and_then_snd split: sum.splits)

lemma static_crowned: "static C n \<Longrightarrow> static C (crowned now n)"
  using static_log_append [of C n "entry_with_payload (current_term (n_hard n)) (index_next (last_index (n_log n))) Noop"]
  by (simp add: crowned_def Let_def)

lemma static_become_leader:
  "static C n \<Longrightarrow> \<not> is_joint C \<Longrightarrow> static C (snd (become_leader now n))"
  by (simp add: become_leader_crowned static_then_replicate static_advance(2) static_crowned)

lemma static_start_election:
  assumes "static C n" "\<not> is_joint C"
  shows "static C (snd (start_election now n))"
proof -
  have "static C (arm_election_timer now
      (n\<lparr>n_hard := h, n_log := save_hard_state h (n_log n), n_role := Candidate vs, n_leader_id := None\<rparr>))" for h vs
    using static_hard [OF assms(1), of h] by simp
  then show ?thesis
    using assms(2) by (auto simp: start_election_def Let_def case_prod_beta intro!: static_become_leader)
qed

lemma static_request_vote: "static C n \<Longrightarrow> static C (snd (handle_request_vote req now n))"
  by (simp add: handle_request_vote_def Let_def static_observe static_hard)

lemma static_vote_reply:
  "static C n \<Longrightarrow> \<not> is_joint C \<Longrightarrow> static C (snd (handle_request_vote_response from v now n))"
  by (simp add: handle_request_vote_response_def Let_def case_prod_beta static_observe static_become_leader
      split: role.splits)

lemma static_append_entries:
  assumes "static C n" "\<forall>e \<in> set (ae_entries req). plain_entry e"
  shows "static C (snd (handle_append_entries req now n))"
  using assms static_observe [OF assms(1), of "ae_term req" now]
  by (simp add: handle_append_entries_def Let_def case_prod_beta static_append_new_entries)

lemma static_role_only [simp]:
  "static C n \<Longrightarrow> static C (note_leadership_ack from seq n)"
  "static C n \<Longrightarrow> static C (record_match p m n)"
  "static C n \<Longrightarrow> static C (back_off p c n)"
  by (auto simp: note_leadership_ack_def record_match_def back_off_def Let_def split: role.splits)

lemma static_advance_and_continue:
  "static C n \<Longrightarrow> \<not> is_joint C \<Longrightarrow> static C (snd (advance_and_continue from now n))"
  by (simp add: advance_and_continue_def and_then_snd static_advance split: sum.splits)

lemma static_append_reply:
  "static C n \<Longrightarrow> \<not> is_joint C \<Longrightarrow> static C (snd (handle_append_entries_response from v now n))"
  by (simp add: handle_append_entries_response_def Let_def case_prod_beta static_observe
      static_advance_and_continue)

lemma static_snapshot_reply:
  "static C n \<Longrightarrow> \<not> is_joint C \<Longrightarrow> static C (snd (handle_install_snapshot_response from v now n))"
  by (simp add: handle_install_snapshot_response_def Let_def case_prod_beta static_observe
      static_advance_and_continue split: option.splits)

lemma static_install_snapshot:
  assumes "static C n" "is_config req = C"
  shows "static C (snd (handle_install_snapshot req now n))"
proof -
  let ?n = "recognize_leader (is_leader_id req) now (snd (observe_term (is_term req) now n))"
  have st: "static C ?n" using assms(1) by (simp add: static_observe)
  have "static C (?n\<lparr>n_log := write_snapshot m d w (n_log ?n),
      n_configs := on_install_snapshot C i w' (n_configs ?n), n_commit_index := i, n_snapshot := Some m\<rparr>)"
    if "snap_config m = C" for m d w i w'
    using st that plain_write_snapshot [of C "n_log ?n" m d w]
    by (auto simp: static_def on_install_snapshot_def Let_def)
  from this [where w = True] this [where w = False] st show ?thesis
    using assms static_observe [OF assms(1), of "is_term req" now]
    by (auto simp: handle_install_snapshot_def Let_def compact_to_def install_snapshot_replacing_log_def)
qed

lemma static_compact: "static C n \<Longrightarrow> static C (snd (compact data n))"
proof -
  assume st: "static C n"
  then have "config_at (n_configs n) i = C" for i by (simp add: static_def config_at_def)
  with st show ?thesis
    by (auto simp: compact_def Let_def compact_to_def static_def plain_write_snapshot on_compact_def
        split: option.splits)
qed

lemma static_propose: "static C n \<Longrightarrow> \<not> is_joint C \<Longrightarrow> static C (snd (propose cmd now n))"
  by (simp add: propose_def Let_def static_then_replicate static_advance(2) static_log_append)

lemma static_start_read: "static C n \<Longrightarrow> static C (snd (start_read now n))"
  by (simp add: start_read_def Let_def and_then_snd split: role.splits sum.splits)

lemma static_tick: "static C n \<Longrightarrow> \<not> is_joint C \<Longrightarrow> static C (snd (tick now n))"
  by (simp add: tick_def static_start_election)

lemma node_step_static:
  "static C n \<Longrightarrow> \<not> is_joint C \<Longrightarrow> static_event C ev \<Longrightarrow> static C (snd (node_step ev now n))"
  by (simp add: node_step_def static_event_def static_tick static_request_vote static_append_entries
      static_install_snapshot static_compact static_start_read static_propose static_vote_reply
      static_append_reply static_snapshot_reply split: node_event.splits)

lemma static_bootstrap:
  assumes "plain_log C l"
  shows "static C (with_bootstrap i C l r cfg now)"
proof -
  have es: "\<forall>e \<in> set (entries_from l k). plain_entry e" for k
    using assms plain_entries_from by blast
  have "snap_config m = C" if "log_snapshot_meta l = Some m" for m
    using assms that by (auto simp: plain_log_def log_snapshot_meta_def)
  then show ?thesis
    using assms by (auto simp: with_bootstrap_def Let_def static_def note_configs_plain [OF es]
        tracker_new_def load_hard_state_def split: option.splits)
qed

section \<open>Its messages\<close>

definition static_sends :: "cluster_config \<Rightarrow> node_id \<Rightarrow> raft_error + outbound list \<Rightarrow> bool" where
  "static_sends C me r = (case r of Inr outs \<Rightarrow> list_all (static_out C me) outs | Inl _ \<Rightarrow> True)"

lemma static_sends_simps [simp]:
  "static_sends C me (Inl e)" "static_sends C me (Inr outs) = list_all (static_out C me) outs"
  by (simp_all add: static_sends_def)

lemma static_append_entries_for:
  assumes "static C n"
  shows "case append_entries_for n p i q of Inr out \<Rightarrow> static_out C me out | Inl _ \<Rightarrow> True"
proof -
  have "plain_log C (n_log n)" using assms by (simp add: static_def)
  moreover from this have "\<forall>e \<in> set (entries_from (n_log n) i). plain_entry e"
    by (auto intro: plain_entries_from)
  ultimately show ?thesis
    by (auto simp: append_entries_for_def static_out_def Let_def plain_log_def split: option.splits)
qed

lemma static_collect:
  "(\<And>x. x \<in> set xs \<Longrightarrow> case f x of Inr out \<Rightarrow> static_out C me out | Inl _ \<Rightarrow> True) \<Longrightarrow>
   static_sends C me (collect_results f xs)"
proof (induction xs)
  case (Cons x xs)
  have "case f x of Inr out \<Rightarrow> static_out C me out | Inl _ \<Rightarrow> True" by (rule Cons.prems) simp
  moreover have "static_sends C me (collect_results f xs)" by (rule Cons.IH, rule Cons.prems) simp
  ultimately show ?case by (auto simp: static_sends_def split: sum.splits)
qed simp

lemma static_advance_sends [simp]:
  "static C n \<Longrightarrow> \<not> is_joint C \<Longrightarrow> static_sends C me (fst (advance_commit_index now n))"
  by (simp add: static_advance(1))

lemma static_replicate_all_sends [simp]: "static C n \<Longrightarrow> static_sends C me (fst (replicate_all n))"
  by (auto simp: replicate_all_def Let_def case_prod_beta split: role.splits
      intro!: static_collect static_append_entries_for)

lemma static_replicate_to_sends [simp]:
  assumes "static C n"
  shows "static_sends C me (fst (replicate_to p n))"
proof (cases "n_role n")
  case (Leader s)
  let ?s = "s\<lparr>ae_seq := wrap_add (ae_seq s) 1\<rparr>"
  have "case append_entries_for (n\<lparr>n_role := Leader ?s\<rparr>) p (next_for s p) (ae_seq ?s) of
      Inr out \<Rightarrow> static_out C me out | Inl _ \<Rightarrow> True"
    using assms by (intro static_append_entries_for) simp
  with Leader show ?thesis by (auto simp: replicate_to_def Let_def split: sum.splits)
qed (simp_all add: replicate_to_def)

lemma static_and_then_sends:
  assumes "static_sends C me (fst r)" "\<And>x. static_sends C me (fst (f (snd r)))"
  shows "static_sends C me (fst (and_then r (\<lambda>outs n. and_then (f n) (\<lambda>outs' n. (Inr (outs @ outs'), n)))))"
  using assms by (cases r) (auto simp: and_then_def static_sends_def case_prod_beta split: sum.splits)

lemma static_become_leader_sends [simp]:
  "static C n \<Longrightarrow> \<not> is_joint C \<Longrightarrow> static_sends C me (fst (become_leader now n))"
  unfolding become_leader_crowned
  by (rule static_and_then_sends) (simp_all add: static_advance static_crowned)

lemma static_tick_sends:
  assumes "static C n" "\<not> is_joint C"
  shows "static_sends C (n_id n) (fst (tick now n))"
proof -
  have "static C (arm_election_timer now
      (n\<lparr>n_hard := h, n_log := save_hard_state h (n_log n), n_role := Candidate vs, n_leader_id := None\<rparr>))" for h vs
    using static_hard [OF assms(1), of h] by simp
  then have "static_sends C (n_id n) (fst (start_election now n))"
    using assms(2)
    by (auto simp: start_election_def Let_def case_prod_beta list_all_iff static_out_def)
  with assms show ?thesis by (simp add: tick_def)
qed

lemma static_advance_and_continue_sends [simp]:
  assumes "static C n" "\<not> is_joint C"
  shows "static_sends C me (fst (advance_and_continue from now n))"
proof -
  note adv = static_advance [OF assms, of now]
  have "static_sends C me (fst (replicate_to from (snd (advance_commit_index now n))))"
    using adv(2) by simp
  with adv show ?thesis
    by (cases "advance_commit_index now n")
       (auto simp: advance_and_continue_def and_then_def case_prod_beta static_sends_def split: sum.splits)
qed

lemma static_reply_sends:
  assumes "static C n" "\<not> is_joint C"
  shows "static_sends C me (fst (handle_request_vote_response from v now n))"
    and "static_sends C me (fst (handle_append_entries_response from a now n))"
    and "static_sends C me (fst (handle_install_snapshot_response from s now n))"
  using assms
  by (auto simp: handle_request_vote_response_def handle_append_entries_response_def
      handle_install_snapshot_response_def Let_def case_prod_beta static_observe split: role.splits option.splits)

lemma static_propose_sends:
  assumes "static C n" "\<not> is_joint C"
  shows "static_sends C me (fst (propose cmd now n))"
proof -
  have "static C (n\<lparr>n_log := log_append (entry_new t i cmd) (n_log n)\<rparr>)" for t i
    using assms(1) by (rule static_log_append) simp
  with assms(2) show ?thesis
    by (auto simp: propose_def Let_def static_advance intro!: static_and_then_sends)
qed

lemma static_start_read_sends:
  assumes "static C n"
  shows "static_sends C me (case fst (start_read now n) of Inr (_, outs) \<Rightarrow> Inr outs | Inl e \<Rightarrow> Inl e)"
proof (cases "n_role n")
  case (Leader s)
  have "list_all (static_out C me) outs"
    if "fst (replicate_all (n\<lparr>n_read_seq := q, n_role := r\<rparr>)) = Inr outs" for q r outs
    using static_replicate_all_sends [of C "n\<lparr>n_read_seq := q, n_role := r\<rparr>" me] assms that by simp
  with Leader show ?thesis
    by (auto simp: start_read_def Let_def and_then_def case_prod_beta static_sends_def split: sum.splits prod.splits)
qed (simp_all add: start_read_def)

lemma static_sent: "static_sends C me r \<Longrightarrow> list_all (static_out C me) (eff_sends (sent r))"
  by (simp add: sent_def sends_only_def static_sends_def split: sum.splits)

lemma node_step_static_sends:
  assumes "static C n" "\<not> is_joint C" "static_event C ev"
  shows "list_all (static_out C (n_id n)) (eff_sends (fst (node_step ev now n)))"
  using assms
  by (cases ev)
     (auto simp: node_step_def static_event_def sends_only_def replies_only_def static_sent static_tick_sends
       static_reply_sends static_propose_sends static_start_read_sends split: sum.splits)

end
