(* ===== verification/Raft_Cluster.thy ===== *)
theory Raft_Cluster
  imports Raft_Election Raft_Static "HOL-Library.Code_Target_Nat"
begin

text \<open>
  A cluster of nodes over an asynchronous network that may lose, delay, reorder and duplicate
  messages, with crashes that lose everything but the durable log. A node's event is one
  iteration of its driver's loop; what it sends stays in the network for ever, so a delivery
  may happen late, twice or never. Two history variables record every vote a hard state ever
  held and every node that ever led a term.
\<close>

section \<open>The system\<close>

datatype envelope =
    Request node_id outbound
  | Reply node_id node_id rpc_reply

record cluster =
  cl_node :: "node_id \<Rightarrow> raft_node"
  cl_net :: "envelope set"
  cl_votes :: "(node_id \<times> raft_term \<times> node_id) set"
  cl_led :: "(raft_term \<times> node_id) set"

text \<open>What arrives where: a request at its addressee, a reply in the loop of the caller.\<close>

definition deliver :: "envelope \<Rightarrow> node_id \<times> node_event" where
  "deliver env =
     (case env of
        Request from out \<Rightarrow>
          (case out of
             OutRequestVote to req \<Rightarrow> (to, Ev_RequestVote req)
           | OutAppendEntries to req \<Rightarrow> (to, Ev_AppendEntries req)
           | OutInstallSnapshot to req \<Rightarrow> (to, Ev_InstallSnapshot req))
      | Reply from to r \<Rightarrow>
          (case r of
             Re_Vote v \<Rightarrow> (to, Ev_VoteReply from v)
           | Re_Append v \<Rightarrow> (to, Ev_AppendReply from v)
           | Re_Snapshot v \<Rightarrow> (to, Ev_SnapshotReply from v)))"

definition caller :: "envelope \<Rightarrow> node_id option" where
  "caller env = (case env of Request from _ \<Rightarrow> Some from | Reply _ _ _ \<Rightarrow> None)"

definition emit :: "node_id \<Rightarrow> node_id option \<Rightarrow> node_effect \<Rightarrow> envelope set" where
  "emit i c eff =
     Request i ` set (eff_sends eff) \<union>
     (case (c, eff_reply eff) of (Some j, Some r) \<Rightarrow> {Reply i j r} | _ \<Rightarrow> {})"

definition local_event :: "node_event \<Rightarrow> bool" where
  "local_event ev =
     (case ev of Ev_Tick \<Rightarrow> True | Ev_Compact _ \<Rightarrow> True | Ev_ReadIndex \<Rightarrow> True | Ev_Propose _ \<Rightarrow> True | _ \<Rightarrow> False)"

definition after_event ::
  "node_id \<Rightarrow> node_id option \<Rightarrow> node_effect \<Rightarrow> raft_node \<Rightarrow> cluster \<Rightarrow> cluster" where
  "after_event i c eff n s =
     s\<lparr>cl_node := (cl_node s)(i := n),
       cl_net := cl_net s \<union> emit i c eff,
       cl_votes := cl_votes s \<union>
         (case voted_for (n_hard n) of Some v \<Rightarrow> {(i, current_term (n_hard n), v)} | None \<Rightarrow> {}),
       cl_led := cl_led s \<union> (if is_leader n then {(current_term (n_hard n), i)} else {})\<rparr>"

definition crash_restart ::
  "cluster_config \<Rightarrow> node_id \<Rightarrow> rng \<Rightarrow> raft_config \<Rightarrow> instant \<Rightarrow> cluster \<Rightarrow> cluster" where
  "crash_restart C i r cfg now s =
     s\<lparr>cl_node := (cl_node s)(i := with_bootstrap i C (n_log (cl_node s i)) r cfg now)\<rparr>"

definition cluster_init :: "cluster_config \<Rightarrow> (node_id \<Rightarrow> rng) \<Rightarrow> raft_config \<Rightarrow> instant \<Rightarrow> cluster" where
  "cluster_init C rs cfg now =
     \<lparr>cl_node = (\<lambda>i. with_bootstrap i C log_open (rs i) cfg now), cl_net = {}, cl_votes = {}, cl_led = {}\<rparr>"

inductive cluster_step :: "cluster_config \<Rightarrow> cluster \<Rightarrow> cluster \<Rightarrow> bool" for C where
  local_step: "local_event ev \<Longrightarrow> (ev = Ev_Tick \<Longrightarrow> current_term (n_hard (cl_node s i)) < u64_max) \<Longrightarrow>
    node_step ev now (cl_node s i) = (eff, n) \<Longrightarrow> cluster_step C s (after_event i None eff n s)"
| receive: "env \<in> cl_net s \<Longrightarrow> deliver env = (i, ev) \<Longrightarrow>
    node_step ev now (cl_node s i) = (eff, n) \<Longrightarrow> cluster_step C s (after_event i (caller env) eff n s)"
| crash: "cluster_step C s (crash_restart C i r cfg now s)"

inductive reachable :: "cluster_config \<Rightarrow> cluster \<Rightarrow> bool" for C where
  init: "reachable C (cluster_init C rs cfg now)"
| step: "reachable C s \<Longrightarrow> cluster_step C s s' \<Longrightarrow> reachable C s'"

section \<open>The invariant\<close>

definition env_ok :: "cluster_config \<Rightarrow> cluster \<Rightarrow> envelope \<Rightarrow> bool" where
  "env_ok C s env =
     (case env of
        Request from out \<Rightarrow> static_out C from out
      | Reply from to r \<Rightarrow>
          (case r of Re_Vote v \<Rightarrow> rvr_vote_granted v \<longrightarrow> (from, rvr_term v, to) \<in> cl_votes s | _ \<Rightarrow> True))"

text \<open>One node against the history: its hard state is the latest vote on record, its open
  campaign counts recorded votes, its leadership is on record.\<close>

definition member_ok :: "cluster_config \<Rightarrow> cluster \<Rightarrow> node_id \<Rightarrow> bool" where
  "member_ok C s i \<longleftrightarrow>
     (let n = cl_node s i; h = n_hard n in
        static C n \<and> n_id n = i \<and>
        (\<forall>t c. (i, t, c) \<in> cl_votes s \<longrightarrow> t \<le> current_term h \<and> (t = current_term h \<longrightarrow> voted_for h = Some c)) \<and>
        (\<forall>c. voted_for h = Some c \<longrightarrow> (i, current_term h, c) \<in> cl_votes s) \<and>
        (case standing_of (n_role n) of
           Following \<Rightarrow> True
         | Campaigning vs \<Rightarrow> (\<forall>v \<in> vs. (v, current_term h, i) \<in> cl_votes s)
         | Leading \<Rightarrow> (current_term h, i) \<in> cl_led s))"

definition history_ok :: "cluster_config \<Rightarrow> cluster \<Rightarrow> bool" where
  "history_ok C s \<longleftrightarrow>
     (\<forall>i t c c'. (i, t, c) \<in> cl_votes s \<longrightarrow> (i, t, c') \<in> cl_votes s \<longrightarrow> c = c') \<and>
     (\<forall>t i. (t, i) \<in> cl_led s \<longrightarrow> (\<exists>vs. has_quorum C vs \<and> (\<forall>v \<in> vs. (v, t, i) \<in> cl_votes s)))"

definition cluster_inv :: "cluster_config \<Rightarrow> cluster \<Rightarrow> bool" where
  "cluster_inv C s \<longleftrightarrow> (\<forall>env \<in> cl_net s. env_ok C s env) \<and> (\<forall>i. member_ok C s i) \<and> history_ok C s"

text \<open>Why an event may happen at a node: the network holds what it was built from.\<close>

definition justified :: "cluster_config \<Rightarrow> cluster \<Rightarrow> node_id \<Rightarrow> node_id option \<Rightarrow> node_event \<Rightarrow> bool" where
  "justified C s i c ev \<longleftrightarrow>
     static_event C ev \<and>
     (case ev of
        Ev_RequestVote req \<Rightarrow> c = Some (rv_candidate_id req)
      | Ev_VoteReply from v \<Rightarrow> rvr_vote_granted v \<longrightarrow> (from, rvr_term v, i) \<in> cl_votes s
      | _ \<Rightarrow> True)"

lemma justified_local: "local_event ev \<Longrightarrow> justified C s i None ev"
  by (auto simp: justified_def local_event_def static_event_def split: node_event.splits)

lemma justified_receive:
  assumes "env_ok C s env" "deliver env = (i, ev)"
  shows "justified C s i (caller env) ev"
  using assms
  by (auto simp: justified_def env_ok_def deliver_def caller_def static_event_def static_out_def
      split: envelope.splits outbound.splits rpc_reply.splits)

lemma member_okD:
  assumes "member_ok C s i"
  shows "static C (cl_node s i)" "n_id (cl_node s i) = i"
    "(i, t, c) \<in> cl_votes s \<Longrightarrow> t \<le> current_term (n_hard (cl_node s i))"
    "(i, current_term (n_hard (cl_node s i)), c) \<in> cl_votes s \<Longrightarrow> voted_for (n_hard (cl_node s i)) = Some c"
    "voted_for (n_hard (cl_node s i)) = Some c \<Longrightarrow> (i, current_term (n_hard (cl_node s i)), c) \<in> cl_votes s"
    "standing_of (n_role (cl_node s i)) = Campaigning vs \<Longrightarrow> v \<in> vs \<Longrightarrow>
       (v, current_term (n_hard (cl_node s i)), i) \<in> cl_votes s"
    "standing_of (n_role (cl_node s i)) = Leading \<Longrightarrow> (current_term (n_hard (cl_node s i)), i) \<in> cl_led s"
  using assms by (auto simp: member_ok_def Let_def)

lemma after_event_simps [simp]:
  "cl_node (after_event i c eff n s) = (cl_node s)(i := n)"
  "cl_net (after_event i c eff n s) = cl_net s \<union> emit i c eff"
  "cl_votes (after_event i c eff n s) =
     cl_votes s \<union> {(i, current_term (n_hard n), v) |v. voted_for (n_hard n) = Some v}"
  "cl_led (after_event i c eff n s) =
     cl_led s \<union> (if is_leader n then {(current_term (n_hard n), i)} else {})"
  by (simp_all add: after_event_def split: option.splits)

lemma member_ok_other:
  assumes "member_ok C s j" "j \<noteq> i"
  shows "member_ok C (after_event i c eff n s) j"
  using assms by (auto simp: member_ok_def Let_def split: standing.splits)

text \<open>A vote on record pins the vote of every later hard state of that term.\<close>

lemma vote_kept:
  assumes "member_ok C s i" "hard_le (n_hard (cl_node s i)) h" "(i, t, c) \<in> cl_votes s"
  shows "t \<le> current_term h \<and> (t = current_term h \<longrightarrow> voted_for h = Some c)"
proof -
  let ?h = "n_hard (cl_node s i)"
  have "t \<le> current_term ?h" using member_okD(3) [OF assms(1,3)] .
  moreover have "voted_for ?h = Some c" if "t = current_term ?h"
    using member_okD(4) [OF assms(1)] assms(3) that by simp
  ultimately show ?thesis using assms(2) by (auto simp: hard_le_def)
qed

text \<open>The votes behind the standing a step ends in.\<close>

lemma elect_standing:
  assumes "elect i Q ev r (elector_of n) (h', st')" "justified C s i c ev"
    and "\<And>vs v. standing_of (n_role n) = Campaigning vs \<Longrightarrow> v \<in> vs \<Longrightarrow> (v, current_term (n_hard n), i) \<in> cl_votes s"
    and "standing_of (n_role n) = Leading \<Longrightarrow> (current_term (n_hard n), i) \<in> cl_led s"
  shows "case st' of
      Following \<Rightarrow> True
    | Campaigning vs \<Rightarrow> \<forall>v \<in> vs. (v, current_term h', i) \<in> cl_votes s \<or> v = i \<and> voted_for h' = Some i
    | Leading \<Rightarrow> (current_term h', i) \<in> cl_led s \<or>
        (\<exists>vs. Q vs \<and> (\<forall>v \<in> vs. (v, current_term h', i) \<in> cl_votes s \<or> v = i \<and> voted_for h' = Some i))"
proof -
  obtain h st where e: "elector_of n = (h, st)" by (cases "elector_of n")
  then have h: "h = n_hard n" and st: "st = standing_of (n_role n)" by (simp_all add: elector_of_def)
  from assms(1) [unfolded e] show ?thesis
  proof cases
    case stay
    then show ?thesis using assms(3,4) by (auto simp: h st split: standing.splits)
  next
    case (grant req)
    then show ?thesis using assms(3,4) by (auto simp: h st split: standing.splits)
  next
    case campaign
    then show ?thesis by (auto simp: after_count_def split: standing.splits intro!: exI [of _ "{i}"])
  next
    case (count v vs' "from" vs)
    then have "w \<in> vs' \<Longrightarrow> (w, current_term h', i) \<in> cl_votes s" for w
      using assms(2,3) by (auto simp: justified_def h st split: if_splits)
    with count show ?thesis by (auto simp: after_count_def split: standing.splits)
  qed simp_all
qed

lemma elect_standing_of:
  assumes "elect i Q ev r (elector_of (cl_node s i)) (h', st')" "justified C s i c ev" "member_ok C s i"
  shows "case st' of
      Following \<Rightarrow> True
    | Campaigning vs \<Rightarrow> \<forall>v \<in> vs. (v, current_term h', i) \<in> cl_votes s \<or> v = i \<and> voted_for h' = Some i
    | Leading \<Rightarrow> (current_term h', i) \<in> cl_led s \<or>
        (\<exists>vs. Q vs \<and> (\<forall>v \<in> vs. (v, current_term h', i) \<in> cl_votes s \<or> v = i \<and> voted_for h' = Some i))"
  using member_okD(6,7) [OF assms(3)] by (rule elect_standing [OF assms(1,2)])

lemma is_leader_standing: "is_leader n \<longleftrightarrow> standing_of (n_role n) = Leading"
  by (simp add: is_leader_def standing_of_def split: role.splits)

lemma member_ok_self:
  assumes "member_ok C s i" "justified C s i c ev" "\<not> is_joint C"
    and "ev = Ev_Tick \<Longrightarrow> current_term (n_hard (cl_node s i)) < u64_max"
    and "node_step ev now (cl_node s i) = (eff, n)"
  shows "member_ok C (after_event i c eff n s) i"
proof -
  let ?n = "cl_node s i"
  note m = member_okD [OF assms(1)]
  have n: "n = snd (node_step ev now ?n)" and eff: "eff = fst (node_step ev now ?n)"
    using assms(5) by simp_all
  have el: "elect i (has_quorum C) ev (eff_reply eff) (elector_of ?n) (n_hard n, standing_of (n_role n))"
    using node_step_elect [of ev ?n now] assms(4) m(1,2) static_active [of C ?n]
    by (simp add: n eff elector_of_def)
  then have le: "hard_le (n_hard ?n) (n_hard n)"
    using elect_hard_le by (fastforce simp: elector_of_def)
  have st: "static C n"
    using node_step_static m(1) assms(2,3) by (simp add: n justified_def)
  have keep: "(i, t, w) \<in> cl_votes s \<Longrightarrow>
      t \<le> current_term (n_hard n) \<and> (t = current_term (n_hard n) \<longrightarrow> voted_for (n_hard n) = Some w)" for t w
    by (rule vote_kept [OF assms(1) le])
  have id: "n_id n = i" using m(2) by (simp add: n)
  show ?thesis
    using elect_standing_of [OF el assms(2) assms(1)] st keep id
    by (auto simp: member_ok_def Let_def is_leader_standing split: standing.splits)
qed

lemma emit_ok:
  assumes "member_ok C s i" "justified C s i c ev" "\<not> is_joint C"
    and "ev = Ev_Tick \<Longrightarrow> current_term (n_hard (cl_node s i)) < u64_max"
    and "node_step ev now (cl_node s i) = (eff, n)" "env \<in> emit i c eff"
  shows "env_ok C (after_event i c eff n s) env"
proof -
  let ?n = "cl_node s i"
  note m = member_okD [OF assms(1)]
  have n: "n = snd (node_step ev now ?n)" and eff: "eff = fst (node_step ev now ?n)"
    using assms(5) by simp_all
  have el: "elect i (has_quorum C) ev (eff_reply eff) (elector_of ?n) (n_hard n, standing_of (n_role n))"
    using node_step_elect [of ev ?n now] assms(4) m(1,2) static_active [of C ?n]
    by (simp add: n eff elector_of_def)
  have sends: "out \<in> set (eff_sends eff) \<Longrightarrow> static_out C i out" for out
    using node_step_static_sends [OF m(1) assms(3), of ev now] assms(2) m(2)
    by (simp add: eff justified_def list_all_iff)
  have granted: "rvr_term v = current_term (n_hard n) \<and> c = voted_for (n_hard n)"
    if "eff_reply eff = Some (Re_Vote v)" "rvr_vote_granted v" for v
    using el that assms(2) by cases (auto simp: justified_def)
  from assms(6) consider
      (request) out where "env = Request i out" "out \<in> set (eff_sends eff)"
    | (reply) j r where "env = Reply i j r" "c = Some j" "eff_reply eff = Some r"
    by (auto simp: emit_def split: option.splits)
  then show ?thesis
  proof cases
    case request
    with sends show ?thesis by (simp add: env_ok_def)
  next
    case reply
    with granted show ?thesis by (auto simp: env_ok_def split: rpc_reply.splits)
  qed
qed

lemma env_ok_mono: "env_ok C s env \<Longrightarrow> cl_votes s \<subseteq> cl_votes s' \<Longrightarrow> env_ok C s' env"
  by (auto simp: env_ok_def split: envelope.splits rpc_reply.splits)

lemma history_okD:
  assumes "history_ok C s"
  shows "(i, t, c) \<in> cl_votes s \<Longrightarrow> (i, t, c') \<in> cl_votes s \<Longrightarrow> c = c'"
    and "(t, i) \<in> cl_led s \<Longrightarrow> \<exists>vs. has_quorum C vs \<and> (\<forall>v \<in> vs. (v, t, i) \<in> cl_votes s)"
  using assms by (simp_all add: history_ok_def)

lemma history_ok_step:
  assumes "history_ok C s" "member_ok C s i" "justified C s i c ev"
    and "ev = Ev_Tick \<Longrightarrow> current_term (n_hard (cl_node s i)) < u64_max"
    and "node_step ev now (cl_node s i) = (eff, n)"
  shows "history_ok C (after_event i c eff n s)"
proof -
  let ?n = "cl_node s i"
  note m = member_okD [OF assms(2)]
  have n: "n = snd (node_step ev now ?n)" and eff: "eff = fst (node_step ev now ?n)"
    using assms(5) by simp_all
  have el: "elect i (has_quorum C) ev (eff_reply eff) (elector_of ?n) (n_hard n, standing_of (n_role n))"
    using node_step_elect [of ev ?n now] assms(4) m(1,2) static_active [of C ?n]
    by (simp add: n eff elector_of_def)
  then have le: "hard_le (n_hard ?n) (n_hard n)"
    using elect_hard_le by (fastforce simp: elector_of_def)
  have one: "(i, current_term (n_hard n), w) \<in> cl_votes s \<Longrightarrow> voted_for (n_hard n) = Some w" for w
    using vote_kept [OF assms(2) le, of "current_term (n_hard n)" w] by simp
  let ?s = "after_event i c eff n s"
  have led: "\<exists>vs. has_quorum C vs \<and> (\<forall>v \<in> vs. (v, t, j) \<in> cl_votes ?s)" if "(t, j) \<in> cl_led ?s" for t j
  proof (cases "(t, j) \<in> cl_led s")
    case True
    from history_okD(2) [OF assms(1) this] obtain vs where "has_quorum C vs" "\<forall>v \<in> vs. (v, t, j) \<in> cl_votes s"
      by (elim exE conjE)
    then show ?thesis by (intro exI [of _ vs]) simp
  next
    case False
    with that have ji: "j = i" "t = current_term (n_hard n)" "standing_of (n_role n) = Leading"
      by (simp_all add: is_leader_standing split: if_splits)
    from elect_standing_of [OF el assms(3,2)] False obtain vs where vs: "has_quorum C vs"
      "\<forall>v \<in> vs. (v, t, i) \<in> cl_votes s \<or> v = i \<and> voted_for (n_hard n) = Some i"
      unfolding ji by simp blast
    show ?thesis using vs unfolding ji by (intro exI [of _ vs]) (simp add: ji)
  qed
  have single: "w = w'" if "(j, t, w) \<in> cl_votes ?s" "(j, t, w') \<in> cl_votes ?s" for j t w w'
  proof -
    have new: "(j, t, x) \<in> cl_votes s \<or> j = i \<and> t = current_term (n_hard n) \<and> voted_for (n_hard n) = Some x"
      if "(j, t, x) \<in> cl_votes ?s" for x
      using that by auto
    from new [OF that(1)] new [OF that(2)] show ?thesis
      by (metis history_okD(1) [OF assms(1)] one option.inject)
  qed
  show ?thesis
    unfolding history_ok_def by (intro conjI allI impI) (rule single, assumption+, rule led)
qed

section \<open>Every reachable cluster\<close>

lemma event_inv:
  assumes "cluster_inv C s" "justified C s i c ev" "\<not> is_joint C"
    and "ev = Ev_Tick \<Longrightarrow> current_term (n_hard (cl_node s i)) < u64_max"
    and "node_step ev now (cl_node s i) = (eff, n)"
  shows "cluster_inv C (after_event i c eff n s)"
proof -
  have inv: "member_ok C s j" "history_ok C s" "env \<in> cl_net s \<Longrightarrow> env_ok C s env" for j env
    using assms(1) by (simp_all add: cluster_inv_def)
  have "env_ok C (after_event i c eff n s) env" if "env \<in> cl_net s" for env
    using inv(3) [OF that] by (rule env_ok_mono) simp
  moreover have "member_ok C (after_event i c eff n s) j" for j
    using member_ok_self [OF inv(1) assms(2-5)] member_ok_other [OF inv(1), of j i] by (cases "j = i") simp_all
  ultimately show ?thesis
    using emit_ok [OF inv(1) assms(2-5)] history_ok_step [OF inv(2,1) assms(2,4,5)]
    by (auto simp: cluster_inv_def)
qed

lemma bootstrap_hard [simp]:
  "n_hard (with_bootstrap i C l r cfg now) = log_hard l" "n_id (with_bootstrap i C l r cfg now) = i"
  "n_role (with_bootstrap i C l r cfg now) = Follower" "n_log (with_bootstrap i C l r cfg now) = l"
  by (simp_all add: with_bootstrap_def Let_def load_hard_state_def case_prod_beta)

lemma plain_log_open [simp]: "plain_log C log_open"
  by (simp add: plain_log_def log_open_def)

lemma crash_inv:
  assumes "cluster_inv C s"
  shows "cluster_inv C (crash_restart C i r cfg now s)"
proof -
  have "member_ok C (crash_restart C i r cfg now s) j" for j
  proof -
    have m: "member_ok C s j" using assms by (simp add: cluster_inv_def)
    have "static C (cl_node s j)" by (rule member_okD(1) [OF m])
    then have "static C (with_bootstrap j C (n_log (cl_node s j)) r cfg now)"
      "n_hard (cl_node s j) = log_hard (n_log (cl_node s j))"
      by (auto simp: static_def [of C "cl_node s j"] intro: static_bootstrap)
    with m show ?thesis
      by (cases "j = i")
         (simp_all add: member_ok_def crash_restart_def Let_def standing_of_def [of Follower] split: standing.splits)
  qed
  with assms show ?thesis
    by (auto simp: cluster_inv_def history_ok_def crash_restart_def env_ok_def split: envelope.splits rpc_reply.splits)
qed

lemma init_inv: "cluster_inv C (cluster_init C rs cfg now)"
  using static_bootstrap [of C log_open]
  by (simp add: cluster_inv_def cluster_init_def history_ok_def member_ok_def standing_of_def)
     (simp add: log_open_def hard_new_def)

lemma reachable_inv:
  assumes "reachable C s" "\<not> is_joint C"
  shows "cluster_inv C s"
  using assms(1)
proof induction
  case (init rs cfg now)
  show ?case by (rule init_inv)
next
  case (step s s')
  from step.hyps(2) step.IH show ?case
  proof cases
    case (local_step ev i now eff n)
    then show ?thesis using event_inv [OF step.IH justified_local assms(2)] by blast
  next
    case (receive env i ev now eff n)
    then have "justified C s i (caller env) ev"
      using step.IH by (intro justified_receive) (auto simp: cluster_inv_def)
    moreover have "ev \<noteq> Ev_Tick"
      using receive by (auto simp: deliver_def split: envelope.splits outbound.splits rpc_reply.splits)
    ultimately show ?thesis using receive event_inv [OF step.IH _ assms(2)] by blast
  next
    case (crash i r cfg now)
    then show ?thesis using crash_inv [OF step.IH] by simp
  qed
qed

lemma one_leader_per_term:
  assumes "cluster_inv C s" "config_finite C" "(t, i) \<in> cl_led s" "(t, j) \<in> cl_led s"
  shows "i = j"
proof -
  have hist: "history_ok C s" using assms(1) by (simp add: cluster_inv_def)
  obtain A where A: "has_quorum C A" "\<forall>v \<in> A. (v, t, i) \<in> cl_votes s"
    using history_okD(2) [OF hist assms(3)] by (elim exE conjE)
  obtain B where B: "has_quorum C B" "\<forall>v \<in> B. (v, t, j) \<in> cl_votes s"
    using history_okD(2) [OF hist assms(4)] by (elim exE conjE)
  show ?thesis
  proof (rule cq.unique_choice [OF assms(2) A(1) B(1)])
    show "(v, t, x) \<in> cl_votes s \<Longrightarrow> (v, t, y) \<in> cl_votes s \<Longrightarrow> x = y" for v x y
      by (rule history_okD(1) [OF hist])
  qed (use A(2) B(2) in auto)
qed

section \<open>A concrete run\<close>

text \<open>Three voters; \<open>a\<close> times out, \<open>b\<close> grants its vote, \<open>a\<close> counts it.\<close>

definition fire ::
  "node_id \<Rightarrow> node_id option \<Rightarrow> node_event \<Rightarrow> instant \<Rightarrow> cluster \<Rightarrow> cluster" where
  "fire i c ev now s = (let (eff, n) = node_step ev now (cl_node s i) in after_event i c eff n s)"

definition demo_config :: cluster_config where
  "demo_config = config_single {''a'', ''b'', ''c''}"

definition demo_request :: request_vote where
  "demo_request = \<lparr>rv_term = 1, rv_candidate_id = ''a'', rv_last_log_index = 0, rv_last_log_term = 0\<rparr>"

definition demo_reply :: request_vote_response where
  "demo_reply = \<lparr>rvr_term = 1, rvr_vote_granted = True\<rparr>"

definition demo_start :: cluster where
  "demo_start = cluster_init demo_config (\<lambda>_. seed_from_u64 7) raft_config_default 0"

definition demo_asked :: cluster where
  "demo_asked = fire ''a'' None Ev_Tick 400000000 demo_start"

definition demo_granted :: cluster where
  "demo_granted = fire ''b'' (Some ''a'') (Ev_RequestVote demo_request) 400000000 demo_asked"

definition demo_won :: cluster where
  "demo_won = fire ''a'' None (Ev_VoteReply ''b'' demo_reply) 400000000 demo_granted"

lemma fire_local:
  "local_event ev \<Longrightarrow> (ev = Ev_Tick \<Longrightarrow> current_term (n_hard (cl_node s i)) < u64_max) \<Longrightarrow>
   cluster_step C s (fire i None ev now s)"
  unfolding fire_def by (cases "node_step ev now (cl_node s i)") (auto intro: cluster_step.local_step)

lemma fire_receive:
  "env \<in> cl_net s \<Longrightarrow> deliver env = (i, ev) \<Longrightarrow> caller env = c \<Longrightarrow> cluster_step C s (fire i c ev now s)"
  unfolding fire_def by (cases "node_step ev now (cl_node s i)") (auto intro: cluster_step.receive)

lemma demo_reachable: "reachable demo_config demo_won"
proof -
  have "reachable demo_config demo_start"
    unfolding demo_start_def by (rule reachable.init)
  moreover have "cluster_step demo_config demo_start demo_asked"
    unfolding demo_asked_def
  proof (rule fire_local)
    show "current_term (n_hard (cl_node demo_start ''a'')) < u64_max" by code_simp
  qed (simp add: local_event_def)
  moreover have "cluster_step demo_config demo_asked demo_granted"
    unfolding demo_granted_def
  proof (rule fire_receive [of "Request ''a'' (OutRequestVote ''b'' demo_request)"])
    show "Request ''a'' (OutRequestVote ''b'' demo_request) \<in> cl_net demo_asked" by code_simp
  qed (simp_all add: deliver_def caller_def)
  moreover have "cluster_step demo_config demo_granted demo_won"
    unfolding demo_won_def
  proof (rule fire_receive [of "Reply ''b'' ''a'' (Re_Vote demo_reply)"])
    show "Reply ''b'' ''a'' (Re_Vote demo_reply) \<in> cl_net demo_granted" by code_simp
  qed (simp_all add: deliver_def caller_def)
  ultimately show ?thesis by (blast intro: reachable.step)
qed

lemma demo_leader: "(1, ''a'') \<in> cl_led demo_won"
  by code_simp

lemma demo_config_ok: "\<not> is_joint demo_config" "config_finite demo_config"
  by (simp_all add: demo_config_def config_single_def is_joint_def config_finite_def)

section \<open>Properties\<close>

text \<open>
  C1. Election safety. In every cluster reachable from start-up with one fixed membership, by any
  interleaving of timeouts, deliveries (late, repeated, reordered, lost), client calls,
  compactions and crash-restarts, at most one node ever led a given term.
\<close>

theorem election_safety:
  assumes "reachable C s" "config_finite C" "\<not> is_joint C"
    and "(t, i) \<in> cl_led s" "(t, j) \<in> cl_led s"
  shows "i = j"
  using one_leader_per_term [OF reachable_inv [OF assms(1,3)] assms(2,4,5)] .

theorem election_safety_witness:
  "{j. (1, j) \<in> cl_led demo_won} = {''a''}"
  using election_safety [OF demo_reachable demo_config_ok(2,1) demo_leader] demo_leader by blast



end
