(* ===== verification/Cas_Digest.thy ===== *)
theory Cas_Digest
  imports Brokkr_Prelude "HOL-Library.Code_Target_Nat"
begin

text \<open>
  Content digests (\<open>brokkr-common/src/digest.rs\<close>): a lowercase SHA-256 hex string and a size.
  The hash function itself is a library's and stays a parameter; a size is a signed 64-bit
  integer, and no blob in memory is longer than that type holds.
\<close>

definition SHA256_HEX_LEN :: nat where
  "SHA256_HEX_LEN = 64"

datatype digest_error =
    InvalidLength nat
  | InvalidHex string
  | HashMismatch string string
  | SizeMismatch int int
  | NegativeSize int

record digest =
  dg_hash :: string
  dg_size :: int

section \<open>Hexadecimal\<close>

definition hex_digit :: "nat \<Rightarrow> char" where
  "hex_digit n = ''0123456789abcdef'' ! n"

definition hex_encode :: "bytes \<Rightarrow> string" where
  "hex_encode bs = concat (map (\<lambda>b. [hex_digit (unat b div 16), hex_digit (unat b mod 16)]) bs)"

definition is_lower_hex :: "char \<Rightarrow> bool" where
  "is_lower_hex c \<longleftrightarrow> CHR ''0'' \<le> c \<and> c \<le> CHR ''9'' \<or> CHR ''a'' \<le> c \<and> c \<le> CHR ''f''"

lemma hex_digit_lower: "n < 16 \<Longrightarrow> is_lower_hex (hex_digit n)"
proof -
  have "list_all (\<lambda>n. is_lower_hex (hex_digit n)) [0..<16]" by code_simp
  then show "n < 16 \<Longrightarrow> ?thesis" by (simp add: list_all_iff)
qed

lemma hex_encode_length: "length (hex_encode bs) = 2 * length bs"
  by (induction bs) (simp_all add: hex_encode_def)

lemma hex_encode_lower: "\<forall>c \<in> set (hex_encode bs). is_lower_hex c"
proof -
  have "unat b div 16 < 16" "unat b mod 16 < 16" for b :: byte
    using unsigned_less [where 'a = nat and w = b] by (auto simp: div_less_iff_less_mult)
  then show ?thesis by (auto simp: hex_encode_def hex_digit_lower)
qed

section \<open>Digests\<close>

definition digest_of :: "(bytes \<Rightarrow> bytes) \<Rightarrow> bytes \<Rightarrow> digest" where
  "digest_of sha256 bs = \<lparr>dg_hash = hex_encode (sha256 bs), dg_size = int (length bs)\<rparr>"

definition digest_new :: "string \<Rightarrow> int \<Rightarrow> digest_error + digest" where
  "digest_new hash sz =
     (if length hash \<noteq> SHA256_HEX_LEN then Inl (InvalidLength (length hash))
      else if \<not> list_all is_lower_hex hash then Inl (InvalidHex hash)
      else if sz < 0 then Inl (NegativeSize sz)
      else Inr \<lparr>dg_hash = hash, dg_size = sz\<rparr>)"

definition digest_verify :: "(bytes \<Rightarrow> bytes) \<Rightarrow> digest \<Rightarrow> bytes \<Rightarrow> digest_error + unit" where
  "digest_verify sha256 d bs =
     (let actual_size = int (length bs)
      in if actual_size \<noteq> dg_size d then Inl (SizeMismatch (dg_size d) actual_size)
         else (let actual = hex_encode (sha256 bs)
               in if actual \<noteq> dg_hash d then Inl (HashMismatch (dg_hash d) actual) else Inr ()))"

definition valid_digest :: "digest \<Rightarrow> bool" where
  "valid_digest d \<longleftrightarrow> digest_new (dg_hash d) (dg_size d) = Inr d"

section \<open>The textual form\<close>

definition i64_max :: int where
  "i64_max = 2 ^ 63 - 1"

definition digit_value :: "char \<Rightarrow> int option" where
  "digit_value c = (if CHR ''0'' \<le> c \<and> c \<le> CHR ''9'' then Some (int (of_char c) - 48) else None)"

fun parse_digits :: "int \<Rightarrow> string \<Rightarrow> int option" where
  "parse_digits acc [] = Some acc"
| "parse_digits acc (c # cs) =
     (case digit_value c of None \<Rightarrow> None | Some d \<Rightarrow> parse_digits (10 * acc + d) cs)"

text \<open>\<open>str::parse::<i64>\<close>: an optional sign, at least one digit, no overflow.\<close>

definition parse_i64 :: "string \<Rightarrow> int option" where
  "parse_i64 s =
     (let (neg, ds) = (case s of c # cs \<Rightarrow> if c = CHR ''-'' then (True, cs)
                                           else if c = CHR ''+'' then (False, cs) else (False, s)
                       | [] \<Rightarrow> (False, []))
      in if ds = [] then None
         else (case parse_digits 0 ds of
                 None \<Rightarrow> None
               | Some n \<Rightarrow> let v = (if neg then - n else n)
                           in if - i64_max - 1 \<le> v \<and> v \<le> i64_max then Some v else None))"

fun split_once :: "char \<Rightarrow> string \<Rightarrow> (string \<times> string) option" where
  "split_once c [] = None"
| "split_once c (x # xs) =
     (if x = c then Some ([], xs)
      else (case split_once c xs of None \<Rightarrow> None | Some (a, b) \<Rightarrow> Some (x # a, b)))"

definition digest_display :: "digest \<Rightarrow> string" where
  "digest_display d = dg_hash d @ ''/'' @ show_int (dg_size d)"

text \<open>The debug rendering inside an error text is a parameter.\<close>

definition digest_from_str :: "(string \<Rightarrow> string) \<Rightarrow> string \<Rightarrow> digest_error + digest" where
  "digest_from_str quoted s =
     (case split_once (CHR ''/'') s of
        None \<Rightarrow> Inl (InvalidHex (''expected '' @ [CHR 0x27] @ ''<hex>/<size>'' @ [CHR 0x27] @ '', got '' @ quoted s))
      | Some (hash, sz) \<Rightarrow>
          (case parse_i64 sz of
             None \<Rightarrow> Inl (InvalidHex (''invalid size '' @ quoted sz))
           | Some n \<Rightarrow> digest_new hash n))"

lemma split_once_append: "c \<notin> set a \<Longrightarrow> split_once c (a @ c # b) = Some (a, b)"
  by (induction a) auto

lemma digit_value_show: "d < 10 \<Longrightarrow> digit_value (char_of (48 + d)) = Some (int d)"
proof -
  assume "d < 10"
  then have "d \<in> {0, 1, 2, 3, 4, 5, 6, 7, 8, 9}" by auto
  then show ?thesis by (auto simp: digit_value_def less_eq_char_def)
qed

lemma parse_digits_append:
  "parse_digits acc (xs @ ys) = (case parse_digits acc xs of None \<Rightarrow> None | Some n \<Rightarrow> parse_digits n ys)"
  by (induction xs arbitrary: acc) (auto split: option.splits)

lemma parse_show_nat: "parse_digits 0 (show_nat n) = Some (int n)"
proof (induction n rule: show_nat.induct)
  case (1 n)
  show ?case
  proof (cases "n < 10")
    case True
    then show ?thesis by (subst show_nat.simps) (simp add: digit_value_show)
  next
    case False
    have "digit_value (char_of (48 + n mod 10)) = Some (int (n mod 10))" by (rule digit_value_show) simp
    moreover have "10 * int (n div 10) + int (n mod 10) = int n" by (simp add: zdiv_int zmod_int)
    ultimately show ?thesis
      using 1 False by (subst show_nat.simps) (simp add: parse_digits_append)
  qed
qed

lemma show_nat_head: "\<exists>d cs. show_nat n = char_of (48 + d :: nat) # cs \<and> d < 10"
proof (induction n rule: show_nat.induct)
  case (1 n)
  show ?case
  proof (cases "n < 10")
    case True
    then have "show_nat n = char_of (48 + n) # []" by (subst show_nat.simps) simp
    with True show ?thesis by blast
  next
    case False
    with 1 obtain d cs where "show_nat (n div 10) = char_of (48 + d :: nat) # cs" "d < 10" by blast
    moreover from this False have "show_nat n = char_of (48 + d) # (cs @ [char_of (48 + n mod 10)])"
      by (subst show_nat.simps) simp
    ultimately show ?thesis by blast
  qed
qed

lemma parse_i64_show:
  assumes "0 \<le> v" "v \<le> i64_max"
  shows "parse_i64 (show_int v) = Some v"
proof -
  obtain d cs where h: "show_nat (nat v) = char_of (48 + d :: nat) # cs" "d < 10"
    using show_nat_head by blast
  moreover have "digit_value (CHR ''-'') = None" "digit_value (CHR ''+'') = None"
    by (simp_all add: digit_value_def less_eq_char_def)
  ultimately have "char_of (48 + d) \<noteq> CHR ''-''" "char_of (48 + d) \<noteq> CHR ''+''"
    using digit_value_show [OF h(2)] by auto
  moreover have "show_int v = show_nat (nat v)" using assms(1) by (simp add: show_int_def)
  ultimately show ?thesis
    using assms h parse_show_nat [of "nat v"] by (simp add: parse_i64_def Let_def i64_max_def)
qed

lemma valid_digest_iff:
  "valid_digest d \<longleftrightarrow>
     length (dg_hash d) = SHA256_HEX_LEN \<and> list_all is_lower_hex (dg_hash d) \<and> 0 \<le> dg_size d"
  by (auto simp: valid_digest_def digest_new_def)

lemma slash_not_hex: "\<not> is_lower_hex (CHR ''/'')"
  by (simp add: is_lower_hex_def less_eq_char_def)

section \<open>Properties\<close>

text \<open>
  A digest accepts exactly the blob it was made of, up to collisions of the hash: verification
  succeeds if and only if the digest equals the digest of the bytes.
\<close>

theorem verify_iff_digest_of: "digest_verify sha256 d bs = Inr () \<longleftrightarrow> d = digest_of sha256 bs"
  by (cases d) (auto simp: digest_verify_def digest_of_def Let_def)

text \<open>
  A valid digest survives its textual form, and the digest of any blob is valid when the hash
  is 32 bytes long: what is printed parses back to the same digest.
\<close>

theorem digest_text_round_trip:
  assumes "length (sha256 bs) = 32" "int (length bs) \<le> i64_max"
  shows "digest_from_str quoted (digest_display (digest_of sha256 bs)) = Inr (digest_of sha256 bs)"
proof -
  let ?d = "digest_of sha256 bs"
  have v: "valid_digest ?d"
    using assms(1) hex_encode_lower [of "sha256 bs"]
    by (simp add: valid_digest_iff digest_of_def hex_encode_length SHA256_HEX_LEN_def list_all_iff)
  then have "CHR ''/'' \<notin> set (dg_hash ?d)"
    using slash_not_hex by (auto simp: valid_digest_iff list_all_iff)
  then show ?thesis
    using v assms(2) parse_i64_show [of "dg_size ?d"]
    by (simp add: digest_from_str_def digest_display_def split_once_append valid_digest_def digest_of_def)
qed

theorem digest_text_round_trip_witness:
  "digest_from_str id (digest_display (digest_of (\<lambda>_. replicate 32 171) [1, 2, 3]))
   = Inr (digest_of (\<lambda>_. replicate 32 171) [1, 2, 3])"
  by (rule digest_text_round_trip) (simp_all add: i64_max_def)

end
