(* ===== verification/Kv_Machine.thy ===== *)
theory Kv_Machine
  imports Raft_Wire Cas_Digest "HOL-Library.Sublist"
begin

text \<open>
  The replicated key-value machine of \<open>brokkr-control/src/raftkv.rs\<close> and the metadata store
  interface of \<open>brokkr-control/src/metakv.rs\<close>: applying committed entries, the
  length-prefixed snapshot and its parser, and the prefix scan both stores serve.
\<close>

section \<open>The machine\<close>

type_synonym kv_map = "(bytes, bytes) table"

record kv_command =
  kc_op :: nat
  kc_key :: bytes
  kc_value :: bytes

definition KV_OP_PUT :: nat where
  "KV_OP_PUT = 1"

definition KV_OP_DELETE :: nat where
  "KV_OP_DELETE = 2"

text \<open>The decoder of command bytes is the protobuf library's, hence a parameter.\<close>

definition kv_apply :: "(bytes \<Rightarrow> kv_command option) \<Rightarrow> log_entry \<Rightarrow> kv_map \<Rightarrow> kv_map" where
  "kv_apply decode entry m =
     (case entry_command entry of
        None \<Rightarrow> m
      | Some command \<Rightarrow>
          (case decode command of
             None \<Rightarrow> m
           | Some c \<Rightarrow>
               if kc_op c = KV_OP_PUT then tbl_insert (kc_key c) (kc_value c) m
               else if kc_op c = KV_OP_DELETE then tbl_remove (kc_key c) m
               else m))"

text \<open>A length is written \<open>as u32\<close>, so a chunk of 4 GiB or more would wrap.\<close>

definition put_chunk :: "bytes \<Rightarrow> bytes" where
  "put_chunk b = to_le_bytes 4 (length b mod 2 ^ 32) @ b"

definition kv_snapshot :: "kv_map \<Rightarrow> bytes" where
  "kv_snapshot m = concat (map (\<lambda>(key, value). put_chunk key @ put_chunk value) m)"

definition take_chunk :: "bytes \<Rightarrow> (bytes \<times> bytes) option" where
  "take_chunk b =
     (if length b < 4 then None
      else (let len = from_le_bytes (take 4 b); rest = drop 4 b
            in if length rest < len then None else Some (take len rest, drop len rest)))"

lemma take_chunk_shorter: "take_chunk b = Some (c, r) \<Longrightarrow> length r < length b"
  by (auto simp: take_chunk_def Let_def split: if_splits)

function kv_restore_loop :: "bytes \<Rightarrow> kv_map \<Rightarrow> kv_map" where
  "kv_restore_loop rest rebuilt =
     (if length rest < 4 then rebuilt
      else (case take_chunk rest of
              None \<Rightarrow> rebuilt
            | Some (key, after) \<Rightarrow>
                (case take_chunk after of
                   None \<Rightarrow> rebuilt
                 | Some (value, after) \<Rightarrow> kv_restore_loop after (tbl_insert key value rebuilt))))"
  by pat_completeness auto
termination
  by (relation "measure (\<lambda>(rest, _). length rest)") (auto dest!: take_chunk_shorter)

declare kv_restore_loop.simps [simp del]

definition kv_restore :: "bytes \<Rightarrow> kv_map" where
  "kv_restore snapshot = kv_restore_loop snapshot []"

text \<open>What a snapshot can hold: distinct keys in order, chunks below 4 GiB.\<close>

definition kv_ok :: "kv_map \<Rightarrow> bool" where
  "kv_ok m \<longleftrightarrow> tbl_wf m \<and> (\<forall>(k, v) \<in> set m. length k < 2 ^ 32 \<and> length v < 2 ^ 32)"

definition kv_entry_ok :: "(bytes \<Rightarrow> kv_command option) \<Rightarrow> log_entry \<Rightarrow> bool" where
  "kv_entry_ok decode entry =
     (case Option.bind (entry_command entry) decode of
        None \<Rightarrow> True
      | Some c \<Rightarrow> length (kc_key c) < 2 ^ 32 \<and> length (kc_value c) < 2 ^ 32)"

lemma kv_ok_Nil [simp]: "kv_ok []"
  by (simp add: kv_ok_def)

lemma kv_apply_ok: "kv_ok m \<Longrightarrow> kv_entry_ok decode e \<Longrightarrow> kv_ok (kv_apply decode e m)"
proof -
  assume m: "kv_ok m" and e: "kv_entry_ok decode e"
  have "kv_ok (tbl_insert k v m)" if "length k < 2 ^ 32" "length v < 2 ^ 32" for k v
    using m that set_tbl_insert [of k v m] by (fastforce simp: kv_ok_def)
  moreover have "kv_ok (tbl_remove k m)" for k
    using m by (simp add: kv_ok_def) (auto simp: tbl_remove_def tbl_retain_def)
  ultimately show ?thesis
    using m e by (auto simp: kv_apply_def kv_entry_ok_def split: option.splits)
qed

lemma take_put_chunk:
  assumes "length b < 2 ^ 32"
  shows "take_chunk (put_chunk b @ r) = Some (b, r)"
  using assms from_to_le_bytes [of 4 "length b"]
  by (simp add: take_chunk_def put_chunk_def)

lemma put_chunk_length: "4 \<le> length (put_chunk b)"
  by (simp add: put_chunk_def)

lemma restore_snapshot_onto:
  assumes "tbl_wf (acc @ m)" "\<forall>(k, v) \<in> set m. length k < 2 ^ 32 \<and> length v < 2 ^ 32"
  shows "kv_restore_loop (kv_snapshot m) acc = acc @ m"
  using assms
proof (induction m arbitrary: acc)
  case Nil
  then show ?case by (simp add: kv_snapshot_def kv_restore_loop.simps)
next
  case (Cons p m)
  obtain k v where p: "p = (k, v)" by (cases p)
  have above: "\<forall>q \<in> set acc. fst q < k"
    using Cons.prems(1) p by (auto simp: tbl_wf_def sorted_wrt_append)
  have "kv_snapshot (p # m) = put_chunk k @ put_chunk v @ kv_snapshot m"
    by (simp add: kv_snapshot_def p)
  moreover have "\<not> length (put_chunk k @ put_chunk v @ kv_snapshot m) < 4"
    using put_chunk_length [of k] by simp
  ultimately have "kv_restore_loop (kv_snapshot (p # m)) acc = kv_restore_loop (kv_snapshot m) (tbl_insert k v acc)"
    using Cons.prems(2) p
    by (subst kv_restore_loop.simps) (simp add: take_put_chunk)
  also have "\<dots> = kv_restore_loop (kv_snapshot m) (acc @ [p])"
    using above p by (simp add: tbl_insert_above)
  also have "\<dots> = acc @ p # m" using Cons by simp
  finally show ?case .
qed

lemma restore_snapshot: "kv_ok m \<Longrightarrow> kv_restore (kv_snapshot m) = m"
  using restore_snapshot_onto [of "[]" m] by (simp add: kv_restore_def kv_ok_def)

section \<open>Prefix scans\<close>

text \<open>The single-node store walks the ordered range and stops at the first foreign key; the
  replicated one takes the matching front of the range.\<close>

fun redb_scan_loop :: "bytes \<Rightarrow> kv_map \<Rightarrow> kv_map \<Rightarrow> kv_map" where
  "redb_scan_loop pre out [] = out"
| "redb_scan_loop pre out ((k, v) # items) =
     (if \<not> prefix pre k then out else redb_scan_loop pre (out @ [(k, v)]) items)"

definition redb_scan_prefix :: "kv_map \<Rightarrow> bytes \<Rightarrow> kv_map" where
  "redb_scan_prefix m pre = redb_scan_loop pre [] (tbl_range_from pre m)"

definition raft_scan_prefix :: "kv_map \<Rightarrow> bytes \<Rightarrow> kv_map" where
  "raft_scan_prefix m pre = takeWhile (\<lambda>(k, _). prefix pre k) (tbl_range_from pre m)"

lemma prefix_le: "prefix p k \<Longrightarrow> p \<le> (k :: bytes)"
  by (induction p arbitrary: k) (auto simp: prefix_def)

lemma prefix_between: "p \<le> k \<Longrightarrow> k \<le> k' \<Longrightarrow> prefix p k' \<Longrightarrow> prefix p (k :: bytes)"
proof (induction p arbitrary: k k')
  case (Cons x p)
  then obtain ks' where k': "k' = x # ks'" "prefix p ks'" by (auto simp: prefix_def)
  with Cons.prems obtain y ks where k: "k = y # ks" by (cases k) auto
  with Cons.prems k' have "x = y" "p \<le> ks" "ks \<le> ks'" by auto
  with Cons.IH [of ks ks'] k k' show ?case by simp
qed simp

lemma redb_scan_loop_eq: "redb_scan_loop pre out items = out @ takeWhile (\<lambda>(k, _). prefix pre k) items"
  by (induction items arbitrary: out) auto

lemma scan_filter:
  "tbl_wf m \<Longrightarrow> takeWhile (\<lambda>(k, _). prefix pre k) (tbl_range_from pre m) = filter (\<lambda>(k, _). prefix pre k) (m :: kv_map)"
proof (induction m)
  case (Cons p m)
  then have wf: "tbl_wf m" and above: "\<forall>q \<in> set m. fst p < fst q" by (auto simp: tbl_wf_Cons)
  show ?case
  proof (cases "pre \<le> fst p")
    case False
    then have "\<not> prefix pre (fst p)" using prefix_le by blast
    with False Cons.IH wf show ?thesis
      by (simp add: tbl_range_from_def tbl_retain_def case_prod_beta')
  next
    case True
    show ?thesis
    proof (cases "prefix pre (fst p)")
      case True
      with \<open>pre \<le> fst p\<close> Cons.IH wf show ?thesis
        by (simp add: tbl_range_from_def tbl_retain_def case_prod_beta')
    next
      case no: False
      have "\<not> prefix pre (fst q)" if "q \<in> set m" for q
        using no above that prefix_between [OF True] by (meson less_imp_le)
      with no True show ?thesis
        by (simp add: tbl_range_from_def tbl_retain_def case_prod_beta' filter_empty_conv)
    qed
  qed
qed (simp add: tbl_range_from_def tbl_retain_def)

section \<open>The store interface\<close>

text \<open>
  The contract of a metadata store: what a lookup returns after each write, and that a scan
  lists exactly the keys under a prefix, in order. The action cache relies on nothing else.
\<close>

locale meta_kv =
  fixes ok :: "'s \<Rightarrow> bool"
    and lookup :: "'s \<Rightarrow> bytes \<Rightarrow> bytes option"
    and put :: "bytes \<Rightarrow> bytes \<Rightarrow> 's \<Rightarrow> 's"
    and del :: "bytes \<Rightarrow> 's \<Rightarrow> 's"
    and scan :: "'s \<Rightarrow> bytes \<Rightarrow> (bytes \<times> bytes) list"
  assumes lookup_put: "ok s \<Longrightarrow> lookup (put k v s) k' = (if k' = k then Some v else lookup s k')"
    and lookup_del: "ok s \<Longrightarrow> lookup (del k s) k' = (if k' = k then None else lookup s k')"
    and ok_put: "ok s \<Longrightarrow> ok (put k v s)"
    and ok_del: "ok s \<Longrightarrow> ok (del k s)"
    and scan_mem: "ok s \<Longrightarrow> (k, v) \<in> set (scan s pre) \<longleftrightarrow> prefix pre k \<and> lookup s k = Some v"
    and scan_sorted: "ok s \<Longrightarrow> sorted_wrt (<) (map fst (scan s pre))"
begin

lemma scan_ext:
  assumes "ok s" "ok s'" "\<And>k. prefix pre k \<Longrightarrow> lookup s k = lookup s' k"
  shows "scan s pre = scan s' pre"
proof (rule map_sorted_distinct_set_unique [where f = fst])
  have "(k, v) \<in> set (scan s pre) \<longleftrightarrow> (k, v) \<in> set (scan s' pre)" for k v
    using assms scan_mem by auto
  then show eq: "set (scan s pre) = set (scan s' pre)" by auto
  show "inj_on fst (set (scan s pre) \<union> set (scan s' pre))"
    using scan_mem [OF assms(1)] unfolding eq [symmetric] by (auto simp: inj_on_def)
  show "sorted (map fst (scan s pre))" "distinct (map fst (scan s pre))"
    "sorted (map fst (scan s' pre))" "distinct (map fst (scan s' pre))"
    using scan_sorted [OF assms(1), of pre] scan_sorted [OF assms(2), of pre]
    by (simp_all add: strict_sorted_iff)
qed

lemma scan_other_namespace: "ok s \<Longrightarrow> \<not> prefix pre k \<Longrightarrow> scan (put k v s) pre = scan s pre"
  by (rule scan_ext) (auto simp: lookup_put ok_put)

end

lemma filter_keys_sorted: "tbl_wf m \<Longrightarrow> sorted_wrt (<) (map fst (filter P m))"
  by (induction m) (auto simp: tbl_wf_Cons)

interpretation redb_kv: meta_kv tbl_wf tbl_get tbl_insert tbl_remove redb_scan_prefix
  by unfold_locales
     (auto simp: table_simps redb_scan_prefix_def redb_scan_loop_eq scan_filter tbl_get_Some_iff filter_keys_sorted)

interpretation raft_kv: meta_kv tbl_wf tbl_get tbl_insert tbl_remove raft_scan_prefix
  by unfold_locales
     (auto simp: table_simps raft_scan_prefix_def scan_filter tbl_get_Some_iff filter_keys_sorted)

section \<open>Namespaces and the action cache\<close>

text \<open>The bytes of an ASCII string; keys are built from nothing else.\<close>

definition str_bytes :: "string \<Rightarrow> bytes" where
  "str_bytes s = map (\<lambda>c. word_of_nat (of_char c)) s"

definition CFG_NODES_PREFIX :: bytes where
  "CFG_NODES_PREFIX = str_bytes ''cfg/nodes/''"

definition node_record_key :: "string \<Rightarrow> bytes" where
  "node_record_key node_id = CFG_NODES_PREFIX @ str_bytes node_id"

definition AC_PREFIX :: bytes where
  "AC_PREFIX = str_bytes ''ac/''"

definition ac_key :: "digest \<Rightarrow> bytes" where
  "ac_key d = AC_PREFIX @ str_bytes (dg_hash d)"

datatype meta_kv_error =
    KvStorage string
  | KvThroughputLimit nat
  | KvNotLeader "node_id option" "string option"

text \<open>The record decoder and the text of an error are the libraries'.\<close>

definition published_addr :: "(bytes \<Rightarrow> string option) \<Rightarrow> kv_map \<Rightarrow> string \<Rightarrow> string option" where
  "published_addr decode m node_id =
     (case tbl_get m (node_record_key node_id) of
        None \<Rightarrow> None
      | Some raw \<Rightarrow>
          (case decode raw of
             Some addr \<Rightarrow> if addr \<noteq> [] then Some addr else None
           | None \<Rightarrow> None))"

definition kv_err ::
  "(bytes \<Rightarrow> string option) \<Rightarrow> (raft_error \<Rightarrow> string) \<Rightarrow> kv_map \<Rightarrow> raft_error \<Rightarrow> meta_kv_error" where
  "kv_err decode shown m e =
     (case e of
        NotLeader leader \<Rightarrow> KvNotLeader leader (Option.bind leader (published_addr decode m))
      | other \<Rightarrow> KvStorage (shown other))"

text \<open>The cache over any store: the store's operations and the protobuf codec are arguments.\<close>

definition get_action_result ::
  "('s \<Rightarrow> bytes \<Rightarrow> bytes option) \<Rightarrow> (bytes \<Rightarrow> string + 'r) \<Rightarrow> digest \<Rightarrow> 's \<Rightarrow> string + 'r option" where
  "get_action_result lookup decode d s =
     (case lookup s (ac_key d) of
        None \<Rightarrow> Inr None
      | Some b \<Rightarrow>
          (case decode b of
             Inl e \<Rightarrow> Inl (''ActionResult decode: '' @ e)
           | Inr r \<Rightarrow> Inr (Some r)))"

definition update_action_result ::
  "(bytes \<Rightarrow> bytes \<Rightarrow> 's \<Rightarrow> 's) \<Rightarrow> ('r \<Rightarrow> bytes) \<Rightarrow> digest \<Rightarrow> 'r \<Rightarrow> 's \<Rightarrow> 's" where
  "update_action_result put encode d r s = put (ac_key d) (encode r) s"

definition listed_entry ::
  "(bytes \<Rightarrow> string option) \<Rightarrow> (bytes \<Rightarrow> string + 'r) \<Rightarrow> bytes \<times> bytes \<Rightarrow> (digest \<times> 'r) option" where
  "listed_entry utf_str decode item =
     (case utf_str (drop (length AC_PREFIX) (fst item)) of
        None \<Rightarrow> None
      | Some hash \<Rightarrow>
          (case digest_new hash (int (length (snd item))) of
             Inl _ \<Rightarrow> None
           | Inr d \<Rightarrow> (case decode (snd item) of Inl _ \<Rightarrow> None | Inr r \<Rightarrow> Some (d, r))))"

definition list_entries ::
  "('s \<Rightarrow> bytes \<Rightarrow> (bytes \<times> bytes) list) \<Rightarrow> (bytes \<Rightarrow> string option) \<Rightarrow> (bytes \<Rightarrow> string + 'r) \<Rightarrow> 's \<Rightarrow>
   (digest \<times> 'r) list" where
  "list_entries scan utf_str decode s = List.map_filter (listed_entry utf_str decode) (scan s AC_PREFIX)"

lemma node_key_not_ac: "\<not> prefix AC_PREFIX (node_record_key i)"
  by (simp add: AC_PREFIX_def node_record_key_def CFG_NODES_PREFIX_def str_bytes_def)

lemma ac_key_prefix [simp]: "prefix AC_PREFIX (ac_key d)" "drop (length AC_PREFIX) (ac_key d) = str_bytes (dg_hash d)"
  by (simp_all add: ac_key_def)

context meta_kv
begin

lemma cached_result_found:
  assumes "ok s" "decode (encode r) = Inr r"
  shows "get_action_result lookup decode d (update_action_result put encode d r s) = Inr (Some r)"
  using assms by (simp add: get_action_result_def update_action_result_def lookup_put)

lemma cached_result_listed:
  assumes "ok s" "decode (encode r) = Inr r" "utf_str (str_bytes (dg_hash d)) = Some (dg_hash d)" "valid_digest d"
  shows "(d\<lparr>dg_size := int (length (encode r))\<rparr>, r)
           \<in> set (list_entries scan utf_str decode (update_action_result put encode d r s))"
proof -
  have mem: "(ac_key d, encode r) \<in> set (scan (update_action_result put encode d r s) AC_PREFIX)"
    using assms(1) by (simp add: update_action_result_def scan_mem ok_put lookup_put)
  have "digest_new (dg_hash d) (int (length (encode r))) = Inr (d\<lparr>dg_size := int (length (encode r))\<rparr>)"
    using assms(4) by (cases d) (auto simp: valid_digest_iff digest_new_def)
  then have "listed_entry utf_str decode (ac_key d, encode r) = Some (d\<lparr>dg_size := int (length (encode r))\<rparr>, r)"
    using assms by (simp add: listed_entry_def)
  with mem show ?thesis by (force simp: list_entries_def List.map_filter_def)
qed

lemma node_record_not_listed:
  assumes "ok s"
  shows "list_entries scan utf_str decode (put (node_record_key i) v s) = list_entries scan utf_str decode s"
  using assms scan_other_namespace [OF assms node_key_not_ac] by (simp add: list_entries_def)

end

section \<open>Properties\<close>

text \<open>
  A snapshot of the key-value machine restores to the same map, for every map with chunks below
  4 GiB: restoring never drops, reorders or truncates a pair.
\<close>

theorem kv_snapshot_round_trip:
  assumes "kv_ok m"
  shows "kv_restore (kv_snapshot m) = m"
  using assms by (rule restore_snapshot)

theorem kv_snapshot_round_trip_witness:
  "kv_restore (kv_snapshot [([1, 2], [3]), ([1, 7], []), ([9], [4, 5, 6])]) = [([1, 2], [3]), ([1, 7], []), ([9], [4, 5, 6])]"
  by (rule kv_snapshot_round_trip) (simp add: kv_ok_def tbl_wf_def)

text \<open>
  C13. Both stores scan alike and exactly: stopping at the first foreign key of the ordered range
  loses nothing, the result is the map filtered by the prefix.
\<close>

theorem prefix_scan_is_filter:
  assumes "tbl_wf m"
  shows "redb_scan_prefix m pre = filter (\<lambda>(k, _). prefix pre k) m \<and> raft_scan_prefix m pre = redb_scan_prefix m pre"
  using scan_filter [OF assms] by (simp add: redb_scan_prefix_def raft_scan_prefix_def redb_scan_loop_eq)

theorem prefix_scan_is_filter_witness:
  "redb_scan_prefix [([1], [0]), ([2], [1]), ([2, 5], [2]), ([3], [3])] [2] = [([2], [1]), ([2, 5], [2])]"
  using prefix_scan_is_filter [of "[([1], [0]), ([2], [1]), ([2, 5], [2]), ([3], [3])]" "[2]"]
  by (simp add: tbl_wf_def)

text \<open>
  C14. The replicated action cache: a stored result is found under its digest and listed, and the
  cluster records that share the store never show up in the cache.
\<close>

theorem action_cache_over_replicated_map:
  assumes "tbl_wf m" "decode (encode r) = Inr r" "valid_digest d"
    and "utf_str (str_bytes (dg_hash d)) = Some (dg_hash d)"
  shows "get_action_result tbl_get decode d (update_action_result tbl_insert encode d r m) = Inr (Some r) \<and>
    (d\<lparr>dg_size := int (length (encode r))\<rparr>, r)
      \<in> set (list_entries raft_scan_prefix utf_str decode (update_action_result tbl_insert encode d r m)) \<and>
    list_entries raft_scan_prefix utf_str decode (tbl_insert (node_record_key i) v m)
      = list_entries raft_scan_prefix utf_str decode m"
  using raft_kv.cached_result_found [where decode = decode and encode = encode, OF assms(1,2)]
    raft_kv.cached_result_listed [where decode = decode and encode = encode and utf_str = utf_str, OF assms(1,2,4,3)]
    raft_kv.node_record_not_listed [OF assms(1)]
  by blast

theorem action_cache_over_replicated_map_witness:
  "get_action_result tbl_get (\<lambda>b. Inr (length b)) \<lparr>dg_hash = replicate 64 CHR ''a'', dg_size = 5\<rparr>
     (update_action_result tbl_insert (\<lambda>n. replicate n 0) \<lparr>dg_hash = replicate 64 CHR ''a'', dg_size = 5\<rparr> 3 []) = Inr (Some 3)"
proof -
  have "valid_digest \<lparr>dg_hash = replicate 64 CHR ''a'', dg_size = 5\<rparr>"
    by (simp add: valid_digest_iff SHA256_HEX_LEN_def list_all_iff is_lower_hex_def less_eq_char_def)
  then show ?thesis
    using action_cache_over_replicated_map [of "[]" "\<lambda>b. Inr (length b)" "\<lambda>n. replicate n 0" 3
        "\<lparr>dg_hash = replicate 64 CHR ''a'', dg_size = 5\<rparr>" "\<lambda>_. Some (replicate 64 CHR ''a'')" "''x''" "[]"]
    by simp
qed

end
