(* ===== verification/Raft_Driver.thy ===== *)
theory Raft_Driver
  imports Raft_Event Kv_Machine "HOL-Library.Code_Target_Nat"
begin

text \<open>
  The driver of \<open>brokkr-raft/src/driver.rs\<close>: the arms of its event loop around the node, and the
  bookkeeping after every arm that restores from an installed snapshot, applies committed entries
  to the state machine in order, compacts, and settles reads and committed proposals. A reply
  channel is the number of its caller; the channels' contents are lists.
\<close>

section \<open>State\<close>

record 's machine_ops =
  sm_apply :: "log_entry \<Rightarrow> 's \<Rightarrow> 's"
  sm_snapshot :: "'s \<Rightarrow> bytes"
  sm_restore :: "bytes \<Rightarrow> 's"

record applied_waiter =
  wt_index :: log_index
  wt_expected_term :: "raft_term option"
  wt_caller :: nat

record 's raft_driver =
  d_node :: raft_node
  d_machine :: 's
  d_last_applied :: log_index
  d_awaiting_apply :: "applied_waiter list"
  d_reads_awaiting_confirm :: "(nat, nat) table"
  d_replies :: "(nat \<times> (raft_error + log_index)) list"
  d_sent :: "outbound list"

definition driver_new :: "raft_node \<Rightarrow> 's \<Rightarrow> 's raft_driver" where
  "driver_new n m =
     \<lparr>d_node = n, d_machine = m, d_last_applied = 0, d_awaiting_apply = [],
      d_reads_awaiting_confirm = [], d_replies = [], d_sent = []\<rparr>"

section \<open>The bookkeeping after an event\<close>

definition lost_by_jump :: "log_index \<Rightarrow> applied_waiter \<Rightarrow> bool" where
  "lost_by_jump i w \<longleftrightarrow> wt_index w \<le> i \<and> wt_expected_term w \<noteq> None"

definition restore_installed :: "'s machine_ops \<Rightarrow> 's raft_driver \<Rightarrow> 's raft_driver" where
  "restore_installed ops d =
     (if snapshot_index (d_node d) > d_last_applied d then
        (case log_snapshot (n_log (d_node d)) of
           None \<Rightarrow> d
         | Some (meta, blob) \<Rightarrow>
             (let jumped_to = last_included_index meta;
                  lost = filter (lost_by_jump jumped_to) (d_awaiting_apply d)
              in d\<lparr>d_machine := sm_restore ops blob, d_last_applied := jumped_to,
                   d_awaiting_apply := filter (\<lambda>w. \<not> lost_by_jump jumped_to w) (d_awaiting_apply d),
                   d_replies := d_replies d @ map (\<lambda>w. (wt_caller w,
                     Inl (Transport ''proposal outcome unknown: state jumped via snapshot''))) lost\<rparr>))
      else d)"

definition waiter_result :: "log_entry \<Rightarrow> log_index \<Rightarrow> applied_waiter \<Rightarrow> raft_error + log_index" where
  "waiter_result entry next w =
     (case wt_expected_term w of
        Some expected \<Rightarrow> if le_term entry \<noteq> expected then Inl (NotLeader None) else Inr next
      | None \<Rightarrow> Inr next)"

definition apply_entry :: "'s machine_ops \<Rightarrow> log_entry \<Rightarrow> log_index \<Rightarrow> 's raft_driver \<Rightarrow> 's raft_driver" where
  "apply_entry ops entry next d =
     d\<lparr>d_machine := sm_apply ops entry (d_machine d), d_last_applied := next,
       d_awaiting_apply := filter (\<lambda>w. wt_index w \<noteq> next) (d_awaiting_apply d),
       d_replies := d_replies d @
         map (\<lambda>w. (wt_caller w, waiter_result entry next w)) (filter (\<lambda>w. wt_index w = next) (d_awaiting_apply d))\<rparr>"

text \<open>The apply loop, with as many turns as there are entries to apply.\<close>

fun apply_loop :: "'s machine_ops \<Rightarrow> nat \<Rightarrow> 's raft_driver \<Rightarrow> raft_error + 's raft_driver" where
  "apply_loop ops 0 d = Inr d"
| "apply_loop ops (Suc k) d =
     (if d_last_applied d < n_commit_index (d_node d) then
        (let next = index_next (d_last_applied d)
         in case log_get (n_log (d_node d)) next of
              None \<Rightarrow> Inl (Storage (''committed entry '' @ show_nat next @ '' missing from the log''))
            | Some entry \<Rightarrow> apply_loop ops k (apply_entry ops entry next d))
      else Inr d)"

definition apply_committed :: "'s machine_ops \<Rightarrow> 's raft_driver \<Rightarrow> raft_error + 's raft_driver" where
  "apply_committed ops d = apply_loop ops (n_commit_index (d_node d) - d_last_applied d) d"

definition auto_compact :: "'s machine_ops \<Rightarrow> 's raft_driver \<Rightarrow> raft_error + 's raft_driver" where
  "auto_compact ops d =
     (if needs_snapshot (d_node d) then
        (case compact (sm_snapshot ops (d_machine d)) (d_node d) of
           (Inl e, _) \<Rightarrow> Inl e
         | (Inr _, n) \<Rightarrow> Inr (d\<lparr>d_node := n\<rparr>))
      else Inr d)"

definition settle_read :: "nat \<times> (raft_error + log_index) \<Rightarrow> 's raft_driver \<Rightarrow> 's raft_driver" where
  "settle_read r d =
     (case tbl_get (d_reads_awaiting_confirm d) (fst r) of
        None \<Rightarrow> d
      | Some c \<Rightarrow>
          (let d = d\<lparr>d_reads_awaiting_confirm := tbl_remove (fst r) (d_reads_awaiting_confirm d)\<rparr>
           in case snd r of
                Inr i \<Rightarrow>
                  if i \<le> d_last_applied d then d\<lparr>d_replies := d_replies d @ [(c, Inr i)]\<rparr>
                  else d\<lparr>d_awaiting_apply := d_awaiting_apply d @
                         [\<lparr>wt_index = i, wt_expected_term = None, wt_caller = c\<rparr>]\<rparr>
              | Inl e \<Rightarrow> d\<lparr>d_replies := d_replies d @ [(c, Inl e)]\<rparr>))"

definition settle_reads :: "'s raft_driver \<Rightarrow> 's raft_driver" where
  "settle_reads d =
     (let (results, n) = drain_read_results (d_node d) in fold settle_read results (d\<lparr>d_node := n\<rparr>))"

definition post_event :: "'s machine_ops \<Rightarrow> 's raft_driver \<Rightarrow> raft_error + 's raft_driver" where
  "post_event ops d =
     (case apply_committed ops (restore_installed ops d) of
        Inl e \<Rightarrow> Inl e
      | Inr d \<Rightarrow> (case auto_compact ops d of Inl e \<Rightarrow> Inl e | Inr d \<Rightarrow> Inr (settle_reads d)))"

section \<open>The loop\<close>

datatype driver_input =
    In_Event node_event
  | In_ReadIndex nat
  | In_ProposeCommitted bytes nat

text \<open>The errors an arm passes on with \<open>?\<close>, which end the loop.\<close>

definition left_of :: "'e + 'a \<Rightarrow> 'e option" where
  "left_of r = (case r of Inl e \<Rightarrow> Some e | Inr _ \<Rightarrow> None)"

definition fatal_error :: "node_event \<Rightarrow> instant \<Rightarrow> raft_node \<Rightarrow> raft_error option" where
  "fatal_error ev now n =
     (case ev of
        Ev_Tick \<Rightarrow> left_of (fst (tick now n))
      | Ev_VoteReply from v \<Rightarrow> left_of (fst (handle_request_vote_response from v now n))
      | Ev_AppendReply from v \<Rightarrow> left_of (fst (handle_append_entries_response from v now n))
      | Ev_SnapshotReply from v \<Rightarrow> left_of (fst (handle_install_snapshot_response from v now n))
      | Ev_InstallSnapshot req \<Rightarrow>
          (case fst (handle_install_snapshot req now n) of
             Inr _ \<Rightarrow> None
           | Inl (SnapshotError _) \<Rightarrow> None
           | Inl e \<Rightarrow> Some e)
      | _ \<Rightarrow> None)"

definition driver_arm :: "instant \<Rightarrow> driver_input \<Rightarrow> 's raft_driver \<Rightarrow> raft_error + 's raft_driver" where
  "driver_arm now inp d =
     (case inp of
        In_Event ev \<Rightarrow>
          (case fatal_error ev now (d_node d) of
             Some e \<Rightarrow> Inl e
           | None \<Rightarrow> (let (eff, n) = node_step ev now (d_node d)
                       in Inr (d\<lparr>d_node := n, d_sent := d_sent d @ eff_sends eff\<rparr>)))
      | In_ReadIndex c \<Rightarrow>
          (case start_read now (d_node d) of
             (Inr (ticket, outs), n) \<Rightarrow>
               Inr (d\<lparr>d_node := n, d_reads_awaiting_confirm := tbl_insert ticket c (d_reads_awaiting_confirm d),
                      d_sent := d_sent d @ outs\<rparr>)
           | (Inl e, n) \<Rightarrow> Inr (d\<lparr>d_node := n, d_replies := d_replies d @ [(c, Inl e)]\<rparr>))
      | In_ProposeCommitted cmd c \<Rightarrow>
          (case propose cmd now (d_node d) of
             (Inr outs, n) \<Rightarrow>
               Inr (d\<lparr>d_node := n, d_awaiting_apply := d_awaiting_apply d @
                        [\<lparr>wt_index = last_index (n_log n), wt_expected_term = Some (current_term (n_hard n)),
                          wt_caller = c\<rparr>],
                      d_sent := d_sent d @ outs\<rparr>)
           | (Inl e, n) \<Rightarrow> Inr (d\<lparr>d_node := n, d_replies := d_replies d @ [(c, Inl e)]\<rparr>)))"

definition driver_step :: "'s machine_ops \<Rightarrow> instant \<Rightarrow> driver_input \<Rightarrow> 's raft_driver \<Rightarrow> raft_error + 's raft_driver" where
  "driver_step ops now inp d =
     (case driver_arm now inp d of Inl e \<Rightarrow> Inl e | Inr d \<Rightarrow> post_event ops d)"

definition driver_start :: "'s machine_ops \<Rightarrow> 's raft_driver \<Rightarrow> raft_error + 's raft_driver" where
  "driver_start ops d =
     post_event ops
       (case log_snapshot (n_log (d_node d)) of
          None \<Rightarrow> d
        | Some (meta, blob) \<Rightarrow> d\<lparr>d_machine := sm_restore ops blob, d_last_applied := last_included_index meta\<rparr>)"

record driver_status =
  st_is_leader :: bool
  st_term :: raft_term
  st_commit_index :: log_index
  st_last_applied :: log_index
  st_last_log_index :: log_index
  st_leader :: "node_id option"
  st_snapshot :: "snapshot_meta option"
  st_config :: cluster_config

definition status :: "'s raft_driver \<Rightarrow> driver_status" where
  "status d =
     \<lparr>st_is_leader = is_leader (d_node d), st_term = current_term (n_hard (d_node d)),
      st_commit_index = n_commit_index (d_node d), st_last_applied = d_last_applied d,
      st_last_log_index = last_index (n_log (d_node d)), st_leader = n_leader_id (d_node d),
      st_snapshot = n_snapshot (d_node d), st_config = active_config (d_node d)\<rparr>"

section \<open>The machine against the committed log\<close>

text \<open>The state after the first \<open>k\<close> entries of a committed log.\<close>

definition replay :: "'s machine_ops \<Rightarrow> 's \<Rightarrow> (log_index \<Rightarrow> log_entry) \<Rightarrow> nat \<Rightarrow> 's" where
  "replay ops init hist k = fold (sm_apply ops) (map hist [1..<Suc k]) init"

definition agrees :: "'s machine_ops \<Rightarrow> 's \<Rightarrow> (log_index \<Rightarrow> log_entry) \<Rightarrow> raft_node \<Rightarrow> bool" where
  "agrees ops init hist n \<longleftrightarrow>
     (\<forall>i e. log_get (n_log n) i = Some e \<longrightarrow> i \<le> n_commit_index n \<longrightarrow> e = hist i) \<and>
     (case log_snapshot (n_log n) of
        None \<Rightarrow> True
      | Some (m, blob) \<Rightarrow> blob = sm_snapshot ops (replay ops init hist (last_included_index m)))"

definition node_current :: "'s machine_ops \<Rightarrow> 's \<Rightarrow> (log_index \<Rightarrow> log_entry) \<Rightarrow> raft_node \<Rightarrow> bool" where
  "node_current ops init hist n \<longleftrightarrow>
     node_inv n \<and> agrees ops init hist n \<and> n_commit_index n \<le> last_index (n_log n) \<and> n_commit_index n \<le> u64_max"

definition driver_ok :: "'s machine_ops \<Rightarrow> 's \<Rightarrow> (log_index \<Rightarrow> log_entry) \<Rightarrow> 's raft_driver \<Rightarrow> bool" where
  "driver_ok ops init hist d \<longleftrightarrow>
     node_current ops init hist (d_node d) \<and> d_last_applied d \<le> n_commit_index (d_node d) \<and>
     d_machine d = replay ops init hist (d_last_applied d)"

lemma replay_Suc: "replay ops init hist (Suc k) = sm_apply ops (hist (Suc k)) (replay ops init hist k)"
  by (simp add: replay_def)

lemma replay_0 [simp]: "replay ops init hist 0 = init"
  by (simp add: replay_def)

text \<open>The answers given at one index: to every waiter for it, by the entry applied there.\<close>

definition acks :: "(log_index \<Rightarrow> log_entry) \<Rightarrow> applied_waiter list \<Rightarrow> log_index \<Rightarrow> (nat \<times> (raft_error + log_index)) list" where
  "acks hist ws i = map (\<lambda>w. (wt_caller w, waiter_result (hist i) i w)) (filter (\<lambda>w. wt_index w = i) ws)"

lemma acks_filter: "(\<And>w. wt_index w = i \<Longrightarrow> P w) \<Longrightarrow> acks hist (filter P ws) i = acks hist ws i"
  unfolding acks_def filter_filter by (rule arg_cong [where f = "map _"], rule filter_cong) auto

lemma committed_get:
  assumes "node_current ops init hist n" "log_base (n_log n) < i" "i \<le> n_commit_index n"
  shows "log_get (n_log n) i = Some (hist i)"
proof -
  have "\<exists>e. log_get (n_log n) i = Some e"
    using assms log_get_run [of "n_log n" i] by (simp add: node_current_def node_inv_def)
  with assms show ?thesis by (auto simp: node_current_def agrees_def)
qed

text \<open>The apply loop in closed form: it reaches the commit index without an error, and answers
  every waiter in the range it covers, in index order.\<close>

lemma apply_loop_exact:
  assumes "node_current ops init hist (d_node d)" "log_base (n_log (d_node d)) \<le> d_last_applied d"
    and "d_last_applied d + k = n_commit_index (d_node d)"
    and "d_machine d = replay ops init hist (d_last_applied d)"
  shows "apply_loop ops k d = Inr (d\<lparr>d_machine := replay ops init hist (n_commit_index (d_node d)),
      d_last_applied := n_commit_index (d_node d),
      d_awaiting_apply := filter (\<lambda>w. \<not> (d_last_applied d < wt_index w \<and> wt_index w \<le> n_commit_index (d_node d)))
        (d_awaiting_apply d),
      d_replies := d_replies d @
        concat (map (acks hist (d_awaiting_apply d)) [Suc (d_last_applied d)..<Suc (n_commit_index (d_node d))])\<rparr>)"
  using assms
proof (induction k arbitrary: d)
  case 0
  then show ?case by (auto intro!: raft_driver.equality filter_True [symmetric])
next
  case (Suc k)
  let ?i = "Suc (d_last_applied d)"
  let ?d = "apply_entry ops (hist ?i) ?i d"
  have next_i: "index_next (d_last_applied d) = ?i"
    using Suc.prems by (simp add: index_next_def sat_add_def node_current_def)
  have get: "log_get (n_log (d_node d)) ?i = Some (hist ?i)"
    using committed_get [OF Suc.prems(1), of ?i] Suc.prems by simp
  have "apply_loop ops (Suc k) d = apply_loop ops k ?d"
    using Suc.prems(3) by (simp add: next_i get)
  also have "\<dots> = Inr (?d\<lparr>d_machine := replay ops init hist (n_commit_index (d_node ?d)),
      d_last_applied := n_commit_index (d_node ?d),
      d_awaiting_apply := filter (\<lambda>w. \<not> (d_last_applied ?d < wt_index w \<and> wt_index w \<le> n_commit_index (d_node ?d)))
        (d_awaiting_apply ?d),
      d_replies := d_replies ?d @
        concat (map (acks hist (d_awaiting_apply ?d)) [Suc (d_last_applied ?d)..<Suc (n_commit_index (d_node ?d))])\<rparr>)"
    by (rule Suc.IH) (use Suc.prems in \<open>simp_all add: apply_entry_def replay_Suc\<close>)
  also have "map (acks hist (d_awaiting_apply ?d)) [Suc (d_last_applied ?d)..<Suc (n_commit_index (d_node ?d))]
      = map (acks hist (d_awaiting_apply d)) [Suc ?i..<Suc (n_commit_index (d_node d))]"
    by (auto simp: apply_entry_def simp del: upt_Suc intro!: acks_filter)
  also have "filter (\<lambda>w. \<not> (d_last_applied ?d < wt_index w \<and> wt_index w \<le> n_commit_index (d_node ?d))) (d_awaiting_apply ?d)
      = filter (\<lambda>w. \<not> (d_last_applied d < wt_index w \<and> wt_index w \<le> n_commit_index (d_node d))) (d_awaiting_apply d)"
    using Suc.prems(3) by (auto simp: apply_entry_def intro!: filter_cong)
  finally show ?case
    using Suc.prems(3) upt_conv_Cons [of ?i "Suc (n_commit_index (d_node d))"]
    by (simp add: apply_entry_def acks_def del: upt_Suc)
qed

lemma auto_compact_ok:
  assumes "driver_ok ops init hist d" "d_last_applied d = n_commit_index (d_node d)"
  obtains n where "auto_compact ops d = Inr (d\<lparr>d_node := n\<rparr>)" "node_current ops init hist n"
    "n_commit_index n = n_commit_index (d_node d)" "n_read_results n = n_read_results (d_node d)"
proof (cases "needs_snapshot (d_node d)")
  case False
  with that [of "d_node d"] assms show ?thesis by (simp add: auto_compact_def driver_ok_def)
next
  case True
  let ?n = "d_node d" let ?c = "n_commit_index (d_node d)"
  have cur: "node_current ops init hist ?n" and m: "d_machine d = replay ops init hist ?c"
    using assms by (simp_all add: driver_ok_def)
  then have inv: "node_inv ?n" and wf: "log_wf (n_log ?n)" and last: "?c \<le> last_index (n_log ?n)"
    by (simp_all add: node_current_def node_inv_def)
  have above: "snapshot_index ?n < ?c" "log_base (n_log ?n) < ?c"
    using True snapshot_index_base [OF inv] by (simp_all add: needs_snapshot_def sat_sub_def)
  have t: "term_at ?n ?c = Some (le_term (hist ?c))"
    using committed_get [OF cur above(2)] above by (simp add: term_at_def snapshot_index_def split: option.splits)
  define meta where "meta = \<lparr>last_included_index = ?c, last_included_term = le_term (hist ?c),
    snap_config = config_at (n_configs ?n) ?c\<rparr>"
  define n where "n = snd (compact (sm_snapshot ops (d_machine d)) ?n)"
  have n: "compact (sm_snapshot ops (d_machine d)) ?n = (Inr meta, n)"
    "n_log n = compact_to meta (sm_snapshot ops (d_machine d)) (n_log ?n)"
    "n_commit_index n = ?c" "n_read_results n = n_read_results ?n"
    using above by (simp_all add: n_def compact_def t meta_def Let_def)
  have "node_inv n" using node_inv_compact [OF inv] by (simp add: n_def)
  moreover have "agrees ops init hist n"
    using cur compact_get [OF wf, of meta] above
    by (simp add: agrees_def node_current_def n m meta_def)
  moreover have "last_index (n_log n) = last_index (n_log ?n)"
    using compact_last_index [OF wf, of meta] above last by (simp add: n meta_def)
  ultimately have "node_current ops init hist n"
    using cur by (simp add: node_current_def n)
  with that [of n] True n show ?thesis by (simp add: auto_compact_def)
qed

lemma settle_read_frame [simp]:
  "d_node (settle_read r d) = d_node d" "d_machine (settle_read r d) = d_machine d"
  "d_last_applied (settle_read r d) = d_last_applied d"
  by (simp_all add: settle_read_def Let_def split: option.splits sum.splits)

lemma settle_fold_frame [simp]:
  "d_node (fold settle_read rs d) = d_node d" "d_machine (fold settle_read rs d) = d_machine d"
  "d_last_applied (fold settle_read rs d) = d_last_applied d"
  by (induction rs arbitrary: d) simp_all

lemma settle_read_reads:
  "snd ` set (d_reads_awaiting_confirm (settle_read r d)) \<subseteq> snd ` set (d_reads_awaiting_confirm d)"
  by (auto simp: settle_read_def Let_def tbl_remove_def tbl_retain_def split: option.splits sum.splits)

lemma settle_read_replies:
  "x \<in> set (d_replies (settle_read r d)) \<Longrightarrow>
     x \<in> set (d_replies d) \<or> fst x \<in> snd ` set (d_reads_awaiting_confirm d)"
  by (force simp: settle_read_def Let_def dest: tbl_get_SomeD split: option.splits sum.splits if_splits)

lemma settle_fold_replies:
  "x \<in> set (d_replies (fold settle_read rs d)) \<Longrightarrow>
     x \<in> set (d_replies d) \<or> fst x \<in> snd ` set (d_reads_awaiting_confirm d)"
proof (induction rs arbitrary: d)
  case (Cons r rs)
  from Cons.IH [of "settle_read r d"] Cons.prems
  show ?case using settle_read_replies [of x r d] settle_read_reads [of r d] by auto
qed simp

lemma restore_installed_replies:
  "(c, Inr i) \<in> set (d_replies (restore_installed ops d)) \<Longrightarrow> (c, Inr i) \<in> set (d_replies d)"
  by (auto simp: restore_installed_def Let_def split: option.splits if_splits)

lemma restore_installed_frame [simp]:
  "d_reads_awaiting_confirm (restore_installed ops d) = d_reads_awaiting_confirm d"
  "set (d_awaiting_apply (restore_installed ops d)) \<subseteq> set (d_awaiting_apply d)"
  by (auto simp: restore_installed_def Let_def split: option.splits)

lemma acks_success:
  "(c, Inr j) \<in> set (acks hist ws i) \<Longrightarrow>
     \<exists>w \<in> set ws. wt_caller w = c \<and> wt_index w = j \<and>
       (wt_expected_term w = None \<or> wt_expected_term w = Some (le_term (hist j)))"
  by (fastforce simp: acks_def waiter_result_def split: option.splits if_splits)

text \<open>What the driver needs of a machine: a snapshot of a good state restores to it, and good
  entries keep states good.\<close>

locale state_machine =
  fixes ops :: "'s machine_ops" and init :: 's and ok :: "'s \<Rightarrow> bool" and entry_ok :: "log_entry \<Rightarrow> bool"
  assumes init_ok: "ok init"
    and apply_ok: "ok s \<Longrightarrow> entry_ok e \<Longrightarrow> ok (sm_apply ops e s)"
    and restores: "ok s \<Longrightarrow> sm_restore ops (sm_snapshot ops s) = s"
begin

lemma replay_ok: "(\<And>i. entry_ok (hist i)) \<Longrightarrow> ok (replay ops init hist k)"
  by (induction k) (auto simp: replay_Suc apply_ok, simp add: replay_def init_ok)

lemma restore_installed_ok:
  assumes "\<And>i. entry_ok (hist i)" "driver_ok ops init hist d"
  shows "driver_ok ops init hist (restore_installed ops d)"
    and "log_base (n_log (d_node d)) \<le> d_last_applied (restore_installed ops d)"
    and "d_node (restore_installed ops d) = d_node d"
proof -
  have inv: "node_inv (d_node d)" using assms(2) by (simp add: driver_ok_def node_current_def)
  have "snapshot_index (d_node d) \<le> n_commit_index (d_node d)" using inv by (simp add: node_inv_def)
  moreover have "snapshot_index (d_node d) = (case log_snapshot (n_log (d_node d)) of Some (m, _) \<Rightarrow> last_included_index m | None \<Rightarrow> 0)"
    using inv by (auto simp: node_inv_def snapshot_index_def log_snapshot_meta_def split: option.splits)
  ultimately show "driver_ok ops init hist (restore_installed ops d)"
    using assms(2) restores [OF replay_ok [OF assms(1)]]
    by (auto simp: restore_installed_def driver_ok_def node_current_def agrees_def Let_def split: option.splits)
  show "d_node (restore_installed ops d) = d_node d"
    by (auto simp: restore_installed_def Let_def split: option.splits)
  show "log_base (n_log (d_node d)) \<le> d_last_applied (restore_installed ops d)"
    using snapshot_index_base [OF inv]
    by (auto simp: restore_installed_def Let_def log_base_def log_snapshot_meta_def split: option.splits)
qed

lemma post_event_ok:
  assumes "\<And>i. entry_ok (hist i)" "driver_ok ops init hist d"
  shows "\<exists>d'. post_event ops d = Inr d' \<and> driver_ok ops init hist d' \<and>
    n_commit_index (d_node d') = n_commit_index (d_node d) \<and> d_last_applied d' = n_commit_index (d_node d) \<and>
    (\<forall>c i. (c, Inr i) \<in> set (d_replies d') \<longrightarrow> (c, Inr i) \<in> set (d_replies d) \<or>
       c \<in> snd ` set (d_reads_awaiting_confirm d) \<or>
       (\<exists>w \<in> set (d_awaiting_apply d). wt_caller w = c \<and> wt_index w = i \<and>
          (wt_expected_term w = None \<or> wt_expected_term w = Some (le_term (hist i)))))"
proof -
  let ?r = "restore_installed ops d"
  note r = restore_installed_ok [OF assms]
  obtain a where a: "apply_committed ops ?r = Inr a" "d_node a = d_node d"
    "d_last_applied a = n_commit_index (d_node d)" "d_machine a = replay ops init hist (n_commit_index (d_node d))"
    "d_reads_awaiting_confirm a = d_reads_awaiting_confirm d"
    "d_replies a = d_replies ?r @ concat (map (acks hist (d_awaiting_apply ?r))
       [Suc (d_last_applied ?r)..<Suc (n_commit_index (d_node d))])"
    using apply_loop_exact [of ops init hist ?r "n_commit_index (d_node ?r) - d_last_applied ?r"] r
    by (auto simp: apply_committed_def driver_ok_def)
  have replies: "(c, Inr i) \<in> set (d_replies d) \<or> (\<exists>w \<in> set (d_awaiting_apply d). wt_caller w = c \<and>
      wt_index w = i \<and> (wt_expected_term w = None \<or> wt_expected_term w = Some (le_term (hist i))))"
    if "(c, Inr i) \<in> set (d_replies a)" for c i
  proof -
    from that a(6) consider "(c, Inr i) \<in> set (d_replies ?r)"
      | j where "(c, Inr i) \<in> set (acks hist (d_awaiting_apply ?r) j)" by (auto simp del: upt_Suc)
    then show ?thesis
      using acks_success restore_installed_replies restore_installed_frame(2) by cases blast+
  qed
  have "driver_ok ops init hist a" using a assms(2) by (simp add: driver_ok_def)
  from auto_compact_ok [OF this] a obtain n where n: "auto_compact ops a = Inr (a\<lparr>d_node := n\<rparr>)"
    "node_current ops init hist n" "n_commit_index n = n_commit_index (d_node d)"
    by auto
  have "snapshot_index (n\<lparr>n_read_results := []\<rparr>) = snapshot_index n"
    by (simp add: snapshot_index_def)
  with n(2) have "node_current ops init hist (n\<lparr>n_read_results := []\<rparr>)"
    by (simp add: node_current_def agrees_def node_inv_def)
  with a n show ?thesis
    using replies settle_fold_replies [of "(_, Inr _)" _ "a\<lparr>d_node := _\<rparr>"]
    by (fastforce simp: post_event_def settle_reads_def drain_read_results_def driver_ok_def)
qed

lemma driver_start_ok:
  assumes "\<And>i. entry_ok (hist i)" "node_current ops init hist n"
  shows "\<exists>d'. driver_start ops (driver_new n init) = Inr d' \<and> driver_ok ops init hist d' \<and>
    d_last_applied d' = n_commit_index n"
proof -
  have "snapshot_index n \<le> n_commit_index n"
    "snapshot_index n = (case log_snapshot (n_log n) of Some (m, _) \<Rightarrow> last_included_index m | None \<Rightarrow> 0)"
    using assms(2)
    by (auto simp: node_current_def node_inv_def snapshot_index_def log_snapshot_meta_def split: option.splits)
  then have "driver_ok ops init hist
      (case log_snapshot (n_log (d_node (driver_new n init))) of
         None \<Rightarrow> driver_new n init
       | Some (meta, blob) \<Rightarrow> (driver_new n init)\<lparr>d_machine := sm_restore ops blob,
           d_last_applied := last_included_index meta\<rparr>)" (is "driver_ok _ _ _ ?d")
    using assms(2) restores [OF replay_ok [OF assms(1)]]
    by (auto simp: driver_ok_def driver_new_def node_current_def agrees_def split: option.splits)
  moreover have "d_node ?d = n" by (auto simp: driver_new_def split: option.splits)
  ultimately show ?thesis
    using post_event_ok [where hist = hist and d = ?d, OF assms(1)] by (auto simp: driver_start_def)
qed

end

section \<open>The arms\<close>

definition input_event :: "driver_input \<Rightarrow> node_event" where
  "input_event inp =
     (case inp of In_Event ev \<Rightarrow> ev | In_ReadIndex _ \<Rightarrow> Ev_ReadIndex | In_ProposeCommitted cmd _ \<Rightarrow> Ev_Propose cmd)"

lemma left_of_ok: "\<exists>x. r = Inr x \<Longrightarrow> left_of r = None"
  by (auto simp: left_of_def)

lemma no_fatal_error:
  assumes "node_inv n"
  shows "fatal_error ev now n = None"
  using left_of_ok [OF tick_ok [OF snap_sync_inv [OF assms]]] left_of_ok [OF vote_reply_ok [OF assms]]
    left_of_ok [OF append_reply_ok [OF assms]] left_of_ok [OF snapshot_reply_ok [OF assms]]
    install_snapshot_error
  by (fastforce simp: fatal_error_def split: node_event.splits sum.splits raft_error.splits)

lemma driver_arm_ok:
  assumes "node_inv (d_node d)"
  shows "\<exists>d'. driver_arm now inp d = Inr d' \<and> d_node d' = snd (node_step (input_event inp) now (d_node d)) \<and>
    d_machine d' = d_machine d \<and> d_last_applied d' = d_last_applied d \<and>
    d_sent d' = d_sent d @ eff_sends (fst (node_step (input_event inp) now (d_node d)))"
  using no_fatal_error [OF assms]
  by (cases inp)
    (auto simp: driver_arm_def input_event_def node_step_def sent_def sends_only_def split: sum.splits prod.splits)

section \<open>The key-value machine under the driver\<close>

definition kv_ops :: "(bytes \<Rightarrow> kv_command option) \<Rightarrow> kv_map machine_ops" where
  "kv_ops decode = \<lparr>sm_apply = kv_apply decode, sm_snapshot = kv_snapshot, sm_restore = kv_restore\<rparr>"

interpretation kv_machine: state_machine "kv_ops decode" "[]" kv_ok "kv_entry_ok decode" for decode
  by unfold_locales (simp_all add: kv_ops_def kv_apply_ok restore_snapshot)

lemma step_keeps_driver:
  assumes "\<And>i. kv_entry_ok decode (hist i)" "node_inv (d_node d)"
    and "node_current (kv_ops decode) [] hist (snd (node_step (input_event inp) now (d_node d)))"
    and "d_last_applied d \<le> n_commit_index (snd (node_step (input_event inp) now (d_node d)))"
    and "d_machine d = replay (kv_ops decode) [] hist (d_last_applied d)"
  shows "\<exists>d'. driver_step (kv_ops decode) now inp d = Inr d' \<and> driver_ok (kv_ops decode) [] hist d' \<and>
    d_last_applied d' = n_commit_index (snd (node_step (input_event inp) now (d_node d)))"
proof -
  from driver_arm_ok [OF assms(2)] obtain a where a: "driver_arm now inp d = Inr a"
    "d_node a = snd (node_step (input_event inp) now (d_node d))"
    "d_machine a = d_machine d" "d_last_applied a = d_last_applied d" by blast
  then have "driver_ok (kv_ops decode) [] hist a" using assms by (simp add: driver_ok_def)
  from kv_machine.post_event_ok [OF assms(1) this] a show ?thesis by (auto simp: driver_step_def)
qed

section \<open>A run of one voter\<close>

definition solo :: raft_node where
  "solo = with_bootstrap ''a'' (config_single {''a''}) log_open (seed_from_u64 7) raft_config_default 0"

definition solo_leader :: raft_node where
  "solo_leader = snd (node_step Ev_Tick 400000000 solo)"

definition solo_proposed :: raft_node where
  "solo_proposed = snd (node_step (Ev_Propose [7]) 400000000 solo_leader)"

definition solo_hist :: "log_index \<Rightarrow> log_entry" where
  "solo_hist i = (if i = 1 then entry_with_payload 1 1 Noop else entry_new 1 i [7])"

definition solo_decode :: "bytes \<Rightarrow> kv_command option" where
  "solo_decode b = Some \<lparr>kc_op = KV_OP_PUT, kc_key = b, kc_value = [1]\<rparr>"

definition solo_driver :: "kv_map raft_driver" where
  "solo_driver = (driver_new solo_leader [])\<lparr>d_awaiting_apply :=
     [\<lparr>wt_index = 1, wt_expected_term = Some 1, wt_caller = 5\<rparr>, \<lparr>wt_index = 1, wt_expected_term = Some 2, wt_caller = 6\<rparr>]\<rparr>"

lemma solo_inv: "node_inv solo"
  unfolding solo_def by (rule node_inv_bootstrap) simp

lemma solo_leader_inv: "node_inv solo_leader"
  unfolding solo_leader_def
  by (rule node_step_keeps_inv [OF solo_inv]) (code_simp, simp add: room_def, code_simp)

lemma solo_proposed_inv: "node_inv solo_proposed"
  unfolding solo_proposed_def
  by (rule node_step_keeps_inv [OF solo_leader_inv]) (code_simp, simp add: room_def, code_simp)

lemma solo_logs:
  "log_table (n_log solo_leader) = [(1, entry_with_payload 1 1 Noop)]" "log_snapshot (n_log solo_leader) = None"
  "log_table (n_log solo_proposed) = [(1, entry_with_payload 1 1 Noop), (2, entry_new 1 2 [7])]"
  "log_snapshot (n_log solo_proposed) = None"
  by code_simp+

lemma solo_commits:
  "n_commit_index solo_leader = 1" "last_index (n_log solo_leader) = 1"
  "n_commit_index solo_proposed = 2" "last_index (n_log solo_proposed) = 2"
  by code_simp+

lemma solo_current:
  "node_current ops init solo_hist solo_leader" "node_current ops init solo_hist solo_proposed"
  by (auto simp: node_current_def solo_leader_inv solo_proposed_inv solo_logs solo_commits agrees_def
      log_get_def solo_hist_def u64_max_def tbl_get_def split: if_splits)

lemma solo_entries_ok: "kv_entry_ok solo_decode (solo_hist i)"
  by (simp add: kv_entry_ok_def solo_hist_def solo_decode_def entry_command_def entry_new_def entry_with_payload_def)

lemma solo_driver_ok: "driver_ok (kv_ops solo_decode) [] solo_hist solo_driver"
  by (simp add: driver_ok_def solo_driver_def driver_new_def solo_current)

section \<open>Properties\<close>

text \<open>
  C3. Every iteration of the driver's loop succeeds and catches up: whenever the node after the
  event agrees with a committed log, the iteration ends without an error, its machine is the replay
  of exactly the committed entries in order, and the applied index is the commit index, whether
  the entries came through the log or through an installed snapshot.
\<close>

theorem driver_applies_committed:
  assumes "\<And>i. kv_entry_ok decode (hist i)" "node_inv (d_node d)"
    and "node_current (kv_ops decode) [] hist (snd (node_step (input_event inp) now (d_node d)))"
    and "d_last_applied d \<le> n_commit_index (snd (node_step (input_event inp) now (d_node d)))"
    and "d_machine d = replay (kv_ops decode) [] hist (d_last_applied d)"
  shows "\<exists>d'. driver_step (kv_ops decode) now inp d = Inr d' \<and> node_inv (d_node d') \<and>
    d_last_applied d' = n_commit_index (snd (node_step (input_event inp) now (d_node d))) \<and>
    d_machine d' = replay (kv_ops decode) [] hist (d_last_applied d')"
  using step_keeps_driver [OF assms] by (auto simp: driver_ok_def node_current_def)

theorem driver_applies_committed_witness:
  "\<exists>d'. driver_step (kv_ops solo_decode) 400000000 (In_ProposeCommitted [7] 3) (driver_new solo_leader []) = Inr d' \<and>
     d_last_applied d' = 2 \<and> d_machine d' = [([7], [1])]"
proof -
  have "replay (kv_ops solo_decode) [] solo_hist 2 = [([7], [1])]" by code_simp
  then show ?thesis
    using driver_applies_committed [of solo_decode solo_hist "driver_new solo_leader []"
        "In_ProposeCommitted [7] 3" 400000000, OF solo_entries_ok]
    by (auto simp: driver_new_def input_event_def solo_leader_inv solo_current(2) [unfolded solo_proposed_def]
        solo_commits(3) [unfolded solo_proposed_def])
qed

text \<open>
  C4. A committed proposal is never acknowledged falsely: when the bookkeeping answers a caller with
  success, that caller had a waiter at the index, and a proposal's waiter expected the very
  term of the entry applied there. Only callers of pending reads are answered otherwise.
\<close>

theorem no_false_acknowledgement:
  assumes "\<And>i. kv_entry_ok decode (hist i)" "driver_ok (kv_ops decode) [] hist d"
    and "post_event (kv_ops decode) d = Inr d'"
    and "(c, Inr i) \<in> set (d_replies d')" "(c, Inr i) \<notin> set (d_replies d)"
    and "c \<notin> snd ` set (d_reads_awaiting_confirm d)"
  shows "\<exists>w \<in> set (d_awaiting_apply d). wt_caller w = c \<and> wt_index w = i \<and>
    (wt_expected_term w = None \<or> wt_expected_term w = Some (le_term (hist i)))"
  using kv_machine.post_event_ok [OF assms(1,2)] assms(3-6) by fastforce

theorem no_false_acknowledgement_witness:
  "\<exists>w \<in> set (d_awaiting_apply solo_driver). wt_caller w = 5 \<and> wt_index w = 1 \<and>
    (wt_expected_term w = None \<or> wt_expected_term w = Some (le_term (solo_hist 1)))"
proof -
  obtain d' where d': "post_event (kv_ops solo_decode) solo_driver = Inr d'"
    using kv_machine.post_event_ok [OF solo_entries_ok solo_driver_ok] by blast
  moreover have "(case post_event (kv_ops solo_decode) solo_driver of
      Inr d \<Rightarrow> d_replies d = [(5, Inr 1), (6, Inl (NotLeader None))] | Inl _ \<Rightarrow> False)"
    by code_simp
  ultimately show ?thesis
    using no_false_acknowledgement [OF solo_entries_ok solo_driver_ok d', of 5 1]
    by (simp add: solo_driver_def driver_new_def)
qed

text \<open>
  C18. A restart recovers the machine: starting the driver on the recovered node with an empty machine
  succeeds and ends at the replay of the committed log, through the snapshot when there is one.
\<close>

theorem restart_recovers_machine:
  assumes "\<And>i. kv_entry_ok decode (hist i)" "node_current (kv_ops decode) [] hist n"
  shows "\<exists>d'. driver_start (kv_ops decode) (driver_new n []) = Inr d' \<and>
    d_last_applied d' = n_commit_index n \<and> d_machine d' = replay (kv_ops decode) [] hist (n_commit_index n)"
  using kv_machine.driver_start_ok [OF assms] by (auto simp: driver_ok_def)

theorem restart_recovers_machine_witness:
  "\<exists>d'. driver_start (kv_ops solo_decode) (driver_new solo_proposed []) = Inr d' \<and> d_last_applied d' = 2"
  using restart_recovers_machine [OF solo_entries_ok solo_current(2)] by (simp add: solo_commits) blast



end
