(* ===== verification/Ctl_Lease.thy ===== *)
theory Ctl_Lease
  imports Brokkr_Prelude
begin

text \<open>
  Job leases (\<open>brokkr-control/src/lease.rs\<close>): which worker holds a job, until when, and what to
  requeue when the lease fails. The hash map is an ordered table; every operation whose result
  order could show sorts it.
\<close>

type_synonym job_id = string

type_synonym worker_id = string

type_synonym instant = nat

record 'p lease =
  ls_worker :: worker_id
  ls_deadline :: instant
  ls_payload :: 'p

type_synonym 'p lease_table = "(job_id, 'p lease) table"

definition lease_new :: "'p lease_table" where
  "lease_new = []"

definition lease_insert :: "job_id \<Rightarrow> worker_id \<Rightarrow> instant \<Rightarrow> 'p \<Rightarrow> 'p lease_table \<Rightarrow> 'p lease_table" where
  "lease_insert j w deadline p t = tbl_insert j \<lparr>ls_worker = w, ls_deadline = deadline, ls_payload = p\<rparr> t"

definition lease_complete :: "job_id \<Rightarrow> 'p lease_table \<Rightarrow> 'p option \<times> 'p lease_table" where
  "lease_complete j t = (map_option ls_payload (tbl_get t j), tbl_remove j t)"

definition worker_of :: "'p lease_table \<Rightarrow> job_id \<Rightarrow> worker_id option" where
  "worker_of t j = map_option ls_worker (tbl_get t j)"

definition lease_contains :: "'p lease_table \<Rightarrow> job_id \<Rightarrow> bool" where
  "lease_contains t j \<longleftrightarrow> tbl_get t j \<noteq> None"

definition is_worker_busy :: "'p lease_table \<Rightarrow> worker_id \<Rightarrow> bool" where
  "is_worker_busy t w = list_ex (\<lambda>(_, l). ls_worker l = w) t"

fun drain_loop :: "'p lease_table \<Rightarrow> job_id list \<Rightarrow> (job_id \<times> 'p) list \<times> 'p lease_table" where
  "drain_loop t [] = ([], t)"
| "drain_loop t (j # js) =
     (case tbl_get t j of
        None \<Rightarrow> drain_loop t js
      | Some l \<Rightarrow> (let (rest, t') = drain_loop (tbl_remove j t) js in ((j, ls_payload l) # rest, t')))"

definition drain :: "'p lease_table \<Rightarrow> job_id list \<Rightarrow> (job_id \<times> 'p) list \<times> 'p lease_table" where
  "drain t ids = drain_loop t (sort ids)"

definition take_expired :: "instant \<Rightarrow> 'p lease_table \<Rightarrow> (job_id \<times> 'p) list \<times> 'p lease_table" where
  "take_expired now t = drain t (map fst (filter (\<lambda>(_, l). now \<ge> ls_deadline l) t))"

definition take_worker :: "worker_id \<Rightarrow> 'p lease_table \<Rightarrow> (job_id \<times> 'p) list \<times> 'p lease_table" where
  "take_worker w t = drain t (map fst (filter (\<lambda>(_, l). ls_worker l = w) t))"

definition renew_worker :: "worker_id \<Rightarrow> instant \<Rightarrow> 'p lease_table \<Rightarrow> nat \<times> 'p lease_table" where
  "renew_worker w deadline t =
     (length (filter (\<lambda>(_, l). ls_worker l = w) t),
      map (\<lambda>(j, l). (j, if ls_worker l = w then l\<lparr>ls_deadline := deadline\<rparr> else l)) t)"

section \<open>Draining\<close>

lemma tbl_remove_head: "tbl_wf (p # t) \<Longrightarrow> tbl_remove (fst p) (p # t) = t"
  by (fastforce simp: tbl_remove_def tbl_retain_def tbl_wf_Cons case_prod_beta' filter_id_conv)

lemma tbl_remove_other: "tbl_wf (p # t) \<Longrightarrow> j \<in> fst ` set t \<Longrightarrow> tbl_remove j (p # t) = p # tbl_remove j t"
  by (auto simp: tbl_remove_def tbl_retain_def tbl_wf_Cons case_prod_beta')

lemma drain_loop_Cons:
  "tbl_wf (p # t) \<Longrightarrow> set js \<subseteq> fst ` set t \<Longrightarrow> distinct js \<Longrightarrow>
   drain_loop (p # t) js = apsnd ((#) p) (drain_loop t js)"
proof (induction js arbitrary: t)
  case (Cons j js)
  then have j: "j \<in> fst ` set t" "fst p \<noteq> j" by (auto simp: tbl_wf_Cons)
  have wf: "tbl_wf (p # tbl_remove j t)"
    using Cons.prems(1) by (auto simp: tbl_wf_Cons) (auto simp: tbl_remove_def tbl_retain_def)
  have sub: "set js \<subseteq> fst ` set (tbl_remove j t)"
    using Cons.prems(2,3) by (force simp: tbl_remove_def tbl_retain_def)
  obtain l where "tbl_get t j = Some l" using j(1) by (metis tbl_get_None_iff tbl_keys_def list.set_map option.exhaust)
  then show ?case
    using Cons.IH [OF wf sub] Cons.prems j tbl_remove_other [OF Cons.prems(1) j(1)]
    by (simp add: tbl_get_Cons case_prod_beta apsnd_def)
qed simp

lemma drain_loop_filter:
  "tbl_wf t \<Longrightarrow> drain_loop t (map fst (filter P t)) =
     (map (\<lambda>(j, l). (j, ls_payload l)) (filter P t), filter (\<lambda>p. \<not> P p) t)"
proof (induction t)
  case (Cons p t)
  then have wf: "tbl_wf t" by (simp add: tbl_wf_Cons)
  have sub: "set (map fst (filter P t)) \<subseteq> fst ` set t" "distinct (map fst (filter P t))"
    using tbl_wf_distinct [OF wf] by (auto simp: distinct_map_filter)
  show ?case
  proof (cases "P p")
    case True
    then show ?thesis
      using Cons.IH [OF wf] tbl_remove_head [OF Cons.prems]
      by (simp add: tbl_get_Cons case_prod_beta)
  next
    case False
    then show ?thesis
      using Cons.IH [OF wf] drain_loop_Cons [OF Cons.prems sub] by simp
  qed
qed simp

lemma filter_keys_ordered: "tbl_wf t \<Longrightarrow> sort (map fst (filter P t)) = map fst (filter P t)"
proof (rule sorted_sort_id)
  assume "tbl_wf t"
  then show "sorted (map fst (filter P t))"
    by (induction t) (force simp: tbl_wf_Cons)+
qed

lemma drain_filter:
  "tbl_wf t \<Longrightarrow> drain t (map fst (filter P t)) =
     (map (\<lambda>(j, l). (j, ls_payload l)) (filter P t), filter (\<lambda>p. \<not> P p) t)"
  by (simp add: drain_def filter_keys_ordered drain_loop_filter)

lemma lease_wf:
  "tbl_wf t \<Longrightarrow> tbl_wf (lease_insert j w d p t)"
  "tbl_wf t \<Longrightarrow> tbl_wf (snd (lease_complete j t))"
  "tbl_wf t \<Longrightarrow> tbl_wf (snd (renew_worker w d t))"
  by (simp_all add: lease_insert_def lease_complete_def)
     (auto simp: renew_worker_def tbl_wf_def comp_def case_prod_beta)

lemma filter_wf: "tbl_wf t \<Longrightarrow> tbl_wf (filter P t)"
  by (induction t) (auto simp: tbl_wf_Cons)

section \<open>Properties\<close>

text \<open>
  C16. Expiry splits the table exactly: the leases due are handed out for requeue, in job order with
  their payloads, the others stay; nothing is lost or duplicated, and a late report of an expired
  job finds no lease.
\<close>

theorem expiry_is_exact:
  assumes "tbl_wf t"
  shows "fst (take_expired now t) = map (\<lambda>(j, l). (j, ls_payload l)) (filter (\<lambda>(_, l). ls_deadline l \<le> now) t) \<and>
    snd (take_expired now t) = filter (\<lambda>(_, l). now < ls_deadline l) t \<and>
    (\<forall>j. j \<in> fst ` set (fst (take_expired now t)) \<longrightarrow> fst (lease_complete j (snd (take_expired now t))) = None)"
proof -
  have eq: "take_expired now t =
      (map (\<lambda>(j, l). (j, ls_payload l)) (filter (\<lambda>(_, l). ls_deadline l \<le> now) t),
       filter (\<lambda>(_, l). now < ls_deadline l) t)"
    using drain_filter [OF assms] by (simp add: take_expired_def case_prod_beta' not_le)
  have "tbl_get (filter (\<lambda>(_, l). now < ls_deadline l) t) j = None"
    if "(j, l) \<in> set t" "ls_deadline l \<le> now" for j l
  proof -
    have "tbl_get t j = Some l" using that(1) tbl_get_Some_iff [OF assms] by simp
    then have "l' = l" if "(j, l') \<in> set t" for l' using that tbl_get_Some_iff [OF assms, of j l'] by simp
    then show ?thesis using that(2) by (auto simp: tbl_get_None_iff tbl_keys_def)
  qed
  then show ?thesis by (auto simp: eq lease_complete_def)
qed

theorem expiry_is_exact_witness:
  "fst (take_expired 10 (lease_insert ''b'' ''w'' 5 (1 :: nat) (lease_insert ''a'' ''w'' 20 2 lease_new))) = [(''b'', 1)]"
proof -
  have "tbl_wf (lease_insert ''b'' ''w'' 5 (1 :: nat) (lease_insert ''a'' ''w'' 20 2 lease_new))"
    by (intro lease_wf) (simp add: lease_new_def)
  from expiry_is_exact [OF this, of 10] show ?thesis
    by (simp add: lease_insert_def lease_new_def)
qed

text \<open>
  C17. A heartbeat keeps a worker's jobs: after a renewal to a later deadline no job of that worker
  expires, while a disconnect hands out all of them and leaves the worker idle.
\<close>

theorem renewal_and_disconnect:
  assumes "tbl_wf t" "now < deadline"
  shows "(\<forall>j. worker_of t j = Some w \<longrightarrow> worker_of (snd (take_expired now (snd (renew_worker w deadline t)))) j = Some w) \<and>
    \<not> is_worker_busy (snd (take_worker w t)) w \<and>
    fst (take_worker w t) = map (\<lambda>(j, l). (j, ls_payload l)) (filter (\<lambda>(_, l). ls_worker l = w) t)"
proof -
  let ?r = "snd (renew_worker w deadline t)"
  have wf: "tbl_wf ?r" using assms(1) by (rule lease_wf)
  have rest: "snd (take_expired now ?r) = filter (\<lambda>(_, l). now < ls_deadline l) ?r"
    using drain_filter [OF wf] by (simp add: take_expired_def case_prod_beta' not_le)
  have tw: "take_worker w t = (map (\<lambda>(j, l). (j, ls_payload l)) (filter (\<lambda>(_, l). ls_worker l = w) t),
      filter (\<lambda>(_, l). ls_worker l \<noteq> w) t)"
    using drain_filter [OF assms(1)] by (simp add: take_worker_def case_prod_beta')
  have "worker_of (snd (take_expired now ?r)) j = Some w" if "worker_of t j = Some w" for j
  proof -
    from that obtain l where "tbl_get t j = Some l" "ls_worker l = w"
      by (auto simp: worker_of_def)
    then have l: "(j, l) \<in> set t" "ls_worker l = w" using tbl_get_Some_iff [OF assms(1)] by simp_all
    then have "(j, l\<lparr>ls_deadline := deadline\<rparr>) \<in> set ?r"
      by (force simp: renew_worker_def)
    then have "(j, l\<lparr>ls_deadline := deadline\<rparr>) \<in> set (snd (take_expired now ?r))"
      using assms(2) by (simp add: rest)
    moreover have "tbl_wf (snd (take_expired now ?r))" using filter_wf [OF wf] by (simp add: rest)
    ultimately have "tbl_get (snd (take_expired now ?r)) j = Some (l\<lparr>ls_deadline := deadline\<rparr>)"
      by (simp add: tbl_get_Some_iff)
    then show ?thesis using l(2) by (simp add: worker_of_def)
  qed
  then show ?thesis by (auto simp: tw is_worker_busy_def list_ex_iff)
qed

theorem renewal_and_disconnect_witness:
  "worker_of (snd (take_expired 10 (snd (renew_worker ''w'' 30 (lease_insert ''a'' ''w'' 5 (2 :: nat) lease_new))))) ''a'' = Some ''w''"
proof -
  have "tbl_wf (lease_insert ''a'' ''w'' 5 (2 :: nat) lease_new)" by (intro lease_wf) (simp add: lease_new_def)
  from renewal_and_disconnect [OF this, of 10 30 "''w''"] show ?thesis
    by (simp add: worker_of_def lease_insert_def lease_new_def tbl_get_Cons)
qed

end
