(* ===== verification/Ctl_Registry.thy ===== *)
theory Ctl_Registry
  imports Ctl_Lease
begin

text \<open>
  The worker registry (\<open>brokkr-control/src/registry.rs\<close>) and platform matching
  (\<open>brokkr-control/src/matching.rs\<close>): registration, heartbeats, eviction of silent workers, and
  the workers a job may be sent to.
\<close>

section \<open>The registry\<close>

record worker_capabilities =
  wc_hostname :: string
  wc_labels :: "(string, string) table"

record heartbeat_policy =
  hb_interval :: nat
  hb_max_missed :: nat

text \<open>A duration holds at most \<open>u64::MAX\<close> seconds and 999999999 nanoseconds.\<close>

definition duration_max :: nat where
  "duration_max = u64_max * 1000000000 + 999999999"

definition hb_deadline :: "heartbeat_policy \<Rightarrow> nat" where
  "hb_deadline p = min (hb_interval p * hb_max_missed p) duration_max"

record worker_record =
  wr_capabilities :: worker_capabilities
  wr_registered_at :: instant
  wr_last_seen :: instant

definition is_stale :: "instant \<Rightarrow> heartbeat_policy \<Rightarrow> worker_record \<Rightarrow> bool" where
  "is_stale now policy r \<longleftrightarrow> sat_sub now (wr_last_seen r) > hb_deadline policy"

datatype registry_error = UnknownWorker worker_id

record worker_registry =
  rg_workers :: "(worker_id, worker_record) table"
  rg_policy :: heartbeat_policy

definition registry_new :: "heartbeat_policy \<Rightarrow> worker_registry" where
  "registry_new policy = \<lparr>rg_workers = [], rg_policy = policy\<rparr>"

definition register :: "worker_id \<Rightarrow> worker_capabilities \<Rightarrow> instant \<Rightarrow> worker_registry \<Rightarrow> worker_registry" where
  "register i caps now g =
     g\<lparr>rg_workers := tbl_insert i \<lparr>wr_capabilities = caps, wr_registered_at = now, wr_last_seen = now\<rparr> (rg_workers g)\<rparr>"

definition record_heartbeat ::
  "worker_id \<Rightarrow> instant \<Rightarrow> worker_registry \<Rightarrow> (registry_error + unit) \<times> worker_registry" where
  "record_heartbeat i now g =
     (case tbl_get (rg_workers g) i of
        Some r \<Rightarrow> (Inr (), g\<lparr>rg_workers := tbl_insert i (r\<lparr>wr_last_seen := now\<rparr>) (rg_workers g)\<rparr>)
      | None \<Rightarrow> (Inl (UnknownWorker i), g))"

definition evict_stale :: "instant \<Rightarrow> worker_registry \<Rightarrow> worker_id list \<times> worker_registry" where
  "evict_stale now g =
     (let evicted = sort (map fst (filter (\<lambda>(_, r). is_stale now (rg_policy g) r) (rg_workers g)))
      in (evicted, g\<lparr>rg_workers := fold tbl_remove evicted (rg_workers g)\<rparr>))"

definition healthy :: "instant \<Rightarrow> worker_registry \<Rightarrow> (worker_id, worker_record) table" where
  "healthy now g = filter (\<lambda>(_, r). \<not> is_stale now (rg_policy g) r) (rg_workers g)"

section \<open>Matching\<close>

type_synonym platform = "(string \<times> string) list"

definition labels_satisfy_platform :: "(string, string) table \<Rightarrow> platform \<Rightarrow> bool" where
  "labels_satisfy_platform labels p =
     list_all (\<lambda>(name, value). case tbl_get labels name of Some v \<Rightarrow> v = value | None \<Rightarrow> False) p"

definition worker_satisfies :: "worker_capabilities \<Rightarrow> platform \<Rightarrow> bool" where
  "worker_satisfies caps p = labels_satisfy_platform (wc_labels caps) p"

definition eligible_workers :: "worker_registry \<Rightarrow> instant \<Rightarrow> platform \<Rightarrow> (worker_id, worker_record) table" where
  "eligible_workers g now p = filter (\<lambda>(_, r). worker_satisfies (wr_capabilities r) p) (healthy now g)"

section \<open>Lemmas\<close>

lemma fold_remove_filter: "fold tbl_remove ks t = filter (\<lambda>p. fst p \<notin> set ks) t"
  by (induction ks arbitrary: t)
     (auto simp: tbl_remove_def tbl_retain_def case_prod_beta' intro: filter_cong)

lemma evicted_eq:
  "tbl_wf (rg_workers g) \<Longrightarrow>
   fst (evict_stale now g) = map fst (filter (\<lambda>(_, r). is_stale now (rg_policy g) r) (rg_workers g))"
  by (simp add: evict_stale_def Let_def filter_keys_ordered)

lemma evict_keeps_healthy:
  assumes "tbl_wf (rg_workers g)"
  shows "rg_workers (snd (evict_stale now g)) = healthy now g"
proof -
  have uniq: "r = r'" if "(i, r) \<in> set (rg_workers g)" "(i, r') \<in> set (rg_workers g)" for i r r'
    using that tbl_get_Some_iff [OF assms, of i] by (metis option.inject)
  show ?thesis
    by (auto simp: evict_stale_def Let_def fold_remove_filter healthy_def intro!: filter_cong dest: uniq)
qed

section \<open>Properties\<close>

text \<open>
  Eviction removes exactly the silent workers: the ids returned are the stale ones in order, and
  what stays is what dispatch already saw as healthy, so eviction never takes a live worker.
\<close>

theorem eviction_is_exact:
  assumes "tbl_wf (rg_workers g)"
  shows "fst (evict_stale now g) = map fst (filter (\<lambda>(_, r). is_stale now (rg_policy g) r) (rg_workers g)) \<and>
    rg_workers (snd (evict_stale now g)) = healthy now g \<and>
    healthy now (snd (evict_stale now g)) = healthy now g"
proof -
  have "rg_policy (snd (evict_stale now g)) = rg_policy g" by (simp add: evict_stale_def Let_def)
  with evicted_eq [OF assms] evict_keeps_healthy [OF assms] show ?thesis
    by (auto simp: healthy_def intro: filter_cong)
qed

theorem eviction_is_exact_witness:
  "fst (evict_stale 100 (register ''w'' \<lparr>wc_hostname = ''h'', wc_labels = []\<rparr> 0
     (registry_new \<lparr>hb_interval = 10, hb_max_missed = 3\<rparr>))) = [''w'']"
proof -
  let ?g = "register ''w'' \<lparr>wc_hostname = ''h'', wc_labels = []\<rparr> 0 (registry_new \<lparr>hb_interval = 10, hb_max_missed = 3\<rparr>)"
  have "tbl_wf (rg_workers ?g)" by (simp add: register_def registry_new_def tbl_wf_def)
  from eviction_is_exact [OF this, of 100] show ?thesis
    by (simp add: register_def registry_new_def is_stale_def sat_sub_def hb_deadline_def duration_max_def u64_max_def)
qed

text \<open>
  A heartbeat, or a registration, makes a worker eligible for exactly the platforms its labels
  satisfy until the policy's deadline passes; a heartbeat of an unknown worker is an error and
  changes nothing.
\<close>

theorem heartbeat_keeps_eligible:
  assumes "tbl_wf (rg_workers g)" "tbl_get (rg_workers g) i = Some r" "now' \<le> now + hb_deadline (rg_policy g)"
  shows "fst (record_heartbeat i now g) = Inr () \<and>
    ((\<exists>r'. (i, r') \<in> set (eligible_workers (snd (record_heartbeat i now g)) now' p))
       \<longleftrightarrow> worker_satisfies (wr_capabilities r) p) \<and>
    (\<forall>j. tbl_get (rg_workers g) j = None \<longrightarrow> record_heartbeat j now g = (Inl (UnknownWorker j), g))"
proof -
  let ?r = "r\<lparr>wr_last_seen := now\<rparr>"
  let ?t = "tbl_insert i ?r (rg_workers g)"
  have step: "record_heartbeat i now g = (Inr (), g\<lparr>rg_workers := ?t\<rparr>)"
    by (simp add: record_heartbeat_def assms(2))
  have "tbl_wf ?t" using assms(1) by simp
  from tbl_get_Some_iff [OF this, of i] have "(i, r') \<in> set ?t \<longleftrightarrow> r' = ?r" for r'
    unfolding tbl_get_insert by (metis fun_upd_same option.inject)
  moreover have "\<not> is_stale now' (rg_policy g) ?r"
    using assms(3) by (simp add: is_stale_def sat_sub_def)
  ultimately have "(\<exists>r'. (i, r') \<in> set (eligible_workers (g\<lparr>rg_workers := ?t\<rparr>) now' p))
      \<longleftrightarrow> worker_satisfies (wr_capabilities r) p"
    by (auto simp: eligible_workers_def healthy_def)
  then show ?thesis by (simp add: step) (simp add: record_heartbeat_def)
qed

theorem heartbeat_keeps_eligible_witness:
  "\<exists>r'. (''w'', r') \<in> set (eligible_workers (snd (record_heartbeat ''w'' 50
     (register ''w'' \<lparr>wc_hostname = ''h'', wc_labels = [(''os'', ''linux'')]\<rparr> 0
       (registry_new \<lparr>hb_interval = 10, hb_max_missed = 3\<rparr>)))) 75 [(''os'', ''linux'')])"
proof -
  let ?c = "\<lparr>wc_hostname = ''h'', wc_labels = [(''os'', ''linux'')]\<rparr>"
  let ?g = "register ''w'' ?c 0 (registry_new \<lparr>hb_interval = 10, hb_max_missed = 3\<rparr>)"
  have "tbl_wf (rg_workers ?g)" by (simp add: register_def registry_new_def tbl_wf_def)
  moreover have "tbl_get (rg_workers ?g) ''w'' = Some \<lparr>wr_capabilities = ?c, wr_registered_at = 0, wr_last_seen = 0\<rparr>"
    by (simp add: register_def registry_new_def tbl_get_Cons)
  moreover have "75 \<le> 50 + hb_deadline (rg_policy ?g)"
    by (simp add: register_def registry_new_def hb_deadline_def duration_max_def u64_max_def)
  ultimately show ?thesis
    using heartbeat_keeps_eligible [of ?g "''w''" _ 75 50 "[(''os'', ''linux'')]"]
    by (simp add: worker_satisfies_def labels_satisfy_platform_def tbl_get_Cons)
qed

end
