(* ===== verification/Ctl_Scheduling.thy ===== *)
theory Ctl_Scheduling
  imports Ctl_Registry Cas_Digest
begin

text \<open>
  What the scheduler decides with: identifiers (\<open>brokkr-common/src/ids.rs\<close>), the worker-selection
  strategies and connected workers (\<open>brokkr-control/src/scheduling.rs\<close>), the bounded completion
  history behind the locality signal (\<open>locality.rs\<close>), and the ring of finished jobs
  (\<open>views/job.rs\<close>).
\<close>

section \<open>Identifiers\<close>

definition ID_MAX_LEN :: nat where
  "ID_MAX_LEN = 128"

datatype id_error = IdEmpty | IdTooLong nat nat

text \<open>One constructor each for the three newtypes; the checks are the same.\<close>

definition id_new :: "string \<Rightarrow> id_error + string" where
  "id_new inner =
     (if inner = [] then Inl IdEmpty
      else if length inner > ID_MAX_LEN then Inl (IdTooLong ID_MAX_LEN (length inner))
      else Inr inner)"

definition worker_id_new :: "string \<Rightarrow> id_error + worker_id" where
  "worker_id_new = id_new"

definition job_id_new :: "string \<Rightarrow> id_error + job_id" where
  "job_id_new = id_new"

definition tenant_id_new :: "string \<Rightarrow> id_error + string" where
  "tenant_id_new = id_new"

definition DEFAULT_TENANT :: string where
  "DEFAULT_TENANT = ''default''"

section \<open>Connected workers\<close>

text \<open>The job channel of a connection is open until its receiver is dropped.\<close>

record worker_conn =
  cn_open :: bool
  cn_inflight :: nat

type_synonym connected_workers = "(worker_id, worker_conn) table"

definition connect :: "worker_id \<Rightarrow> bool \<Rightarrow> connected_workers \<Rightarrow> connected_workers" where
  "connect i chan c = tbl_insert i \<lparr>cn_open = chan, cn_inflight = 0\<rparr> c"

definition disconnect :: "worker_id \<Rightarrow> connected_workers \<Rightarrow> connected_workers" where
  "disconnect i c = tbl_remove i c"

definition is_connected :: "connected_workers \<Rightarrow> worker_id \<Rightarrow> bool" where
  "is_connected c i \<longleftrightarrow> tbl_get c i \<noteq> None"

definition connected_ids :: "connected_workers \<Rightarrow> worker_id list" where
  "connected_ids c = map fst c"

definition conn_sender :: "connected_workers \<Rightarrow> worker_id \<Rightarrow> bool option" where
  "conn_sender c i = map_option cn_open (tbl_get c i)"

definition inc_inflight :: "worker_id \<Rightarrow> connected_workers \<Rightarrow> connected_workers" where
  "inc_inflight i c =
     (case tbl_get c i of Some w \<Rightarrow> tbl_insert i (w\<lparr>cn_inflight := cn_inflight w + 1\<rparr>) c | None \<Rightarrow> c)"

definition dec_inflight :: "worker_id \<Rightarrow> connected_workers \<Rightarrow> connected_workers" where
  "dec_inflight i c =
     (case tbl_get c i of Some w \<Rightarrow> tbl_insert i (w\<lparr>cn_inflight := sat_sub (cn_inflight w) 1\<rparr>) c | None \<Rightarrow> c)"

definition inflight :: "connected_workers \<Rightarrow> worker_id \<Rightarrow> nat" where
  "inflight c i = (case tbl_get c i of Some w \<Rightarrow> cn_inflight w | None \<Rightarrow> 0)"

section \<open>Locality\<close>

definition DEFAULT_WINDOW :: nat where
  "DEFAULT_WINDOW = 64"

definition DEFAULT_MAX_WORKERS :: nat where
  "DEFAULT_MAX_WORKERS = 1024"

record completion =
  cp_action :: digest
  cp_input_root :: "digest option"

record worker_history =
  wh_recent :: "completion list"
  wh_last_touch :: nat

record locality_index =
  lx_window :: nat
  lx_max_workers :: nat
  lx_workers :: "(worker_id, worker_history) table"
  lx_tick :: nat

definition locality_new :: "nat \<Rightarrow> nat \<Rightarrow> locality_index" where
  "locality_new window max_workers =
     \<lparr>lx_window = max window 1, lx_max_workers = max max_workers 1, lx_workers = [], lx_tick = 0\<rparr>"

definition locality_default :: locality_index where
  "locality_default = locality_new DEFAULT_WINDOW DEFAULT_MAX_WORKERS"

text \<open>\<open>Iterator::min_by\<close>: the first least element.\<close>

fun min_by :: "('a \<Rightarrow> 'a \<Rightarrow> bool) \<Rightarrow> 'a list \<Rightarrow> 'a option" where
  "min_by le [] = None"
| "min_by le (x # xs) = Some (fold (\<lambda>y m. if le m y then m else y) xs x)"

definition older :: "worker_id \<times> worker_history \<Rightarrow> worker_id \<times> worker_history \<Rightarrow> bool" where
  "older p q \<longleftrightarrow> wh_last_touch (snd p) < wh_last_touch (snd q) \<or>
     wh_last_touch (snd p) = wh_last_touch (snd q) \<and> fst p \<le> fst q"

definition evict_least_recent :: "worker_id \<Rightarrow> locality_index \<Rightarrow> locality_index" where
  "evict_least_recent keep x =
     (case min_by older (filter (\<lambda>(i, _). i \<noteq> keep) (lx_workers x)) of
        Some (v, _) \<Rightarrow> x\<lparr>lx_workers := tbl_remove v (lx_workers x)\<rparr>
      | None \<Rightarrow> x)"

definition locality_record :: "worker_id \<Rightarrow> digest \<Rightarrow> digest option \<Rightarrow> locality_index \<Rightarrow> locality_index" where
  "locality_record w action input_root x =
     (let tick = wrap_add (lx_tick x) 1;
          h = (case tbl_get (lx_workers x) w of Some h \<Rightarrow> h | None \<Rightarrow> \<lparr>wh_recent = [], wh_last_touch = 0\<rparr>);
          recent = wh_recent h @ [\<lparr>cp_action = action, cp_input_root = input_root\<rparr>];
          recent = (if length recent > lx_window x then tl recent else recent);
          x = x\<lparr>lx_tick := tick,
                lx_workers := tbl_insert w \<lparr>wh_recent = recent, wh_last_touch = tick\<rparr> (lx_workers x)\<rparr>
      in if length (lx_workers x) > lx_max_workers x then evict_least_recent w x else x)"

definition history_len :: "locality_index \<Rightarrow> worker_id \<Rightarrow> nat" where
  "history_len x w = (case tbl_get (lx_workers x) w of Some h \<Rightarrow> length (wh_recent h) | None \<Rightarrow> 0)"

definition locality_forget :: "worker_id \<Rightarrow> locality_index \<Rightarrow> locality_index" where
  "locality_forget w x = x\<lparr>lx_workers := tbl_remove w (lx_workers x)\<rparr>"

text \<open>The counts are cast to \<open>u32\<close>.\<close>

definition input_root_hits :: "locality_index \<Rightarrow> worker_id \<Rightarrow> digest \<Rightarrow> nat" where
  "input_root_hits x w root =
     (case tbl_get (lx_workers x) w of
        Some h \<Rightarrow> length (filter (\<lambda>c. cp_input_root c = Some root) (wh_recent h)) mod 2 ^ 32
      | None \<Rightarrow> 0)"

definition action_hits :: "locality_index \<Rightarrow> worker_id \<Rightarrow> digest \<Rightarrow> nat" where
  "action_hits x w action =
     (case tbl_get (lx_workers x) w of
        Some h \<Rightarrow> length (filter (\<lambda>c. cp_action c = action) (wh_recent h)) mod 2 ^ 32
      | None \<Rightarrow> 0)"

section \<open>Strategies\<close>

record job_facts =
  jf_tenant :: string
  jf_action_digest :: digest
  jf_input_root_digest :: "digest option"
  jf_platform :: platform

record decision_context =
  dc_loads :: connected_workers
  dc_locality :: locality_index
  dc_job :: job_facts

type_synonym strategy_fn = "worker_id list \<Rightarrow> decision_context \<Rightarrow> worker_id option"

definition less_loaded :: "(worker_id \<Rightarrow> nat) \<Rightarrow> worker_id \<Rightarrow> worker_id \<Rightarrow> bool" where
  "less_loaded load a b \<longleftrightarrow> load a < load b \<or> load a = load b \<and> a \<le> b"

definition more_loaded :: "(worker_id \<Rightarrow> nat) \<Rightarrow> worker_id \<Rightarrow> worker_id \<Rightarrow> bool" where
  "more_loaded load a b \<longleftrightarrow> load b < load a \<or> load a = load b \<and> a \<le> b"

definition simple_fifo_choose :: "worker_id list \<Rightarrow> (worker_id \<Rightarrow> nat) \<Rightarrow> worker_id option" where
  "simple_fifo_choose candidates load = min_by (less_loaded load) candidates"

definition bin_packing_new :: "nat \<Rightarrow> nat" where
  "bin_packing_new cap = max cap 1"

definition bin_packing_choose :: "nat \<Rightarrow> worker_id list \<Rightarrow> (worker_id \<Rightarrow> nat) \<Rightarrow> worker_id option" where
  "bin_packing_choose cap candidates load =
     (case min_by (more_loaded load) (filter (\<lambda>w. load w < cap) candidates) of
        Some w \<Rightarrow> Some w
      | None \<Rightarrow> min_by (less_loaded load) candidates)"

text \<open>The default \<open>choose_with\<close> forwards to \<open>choose\<close>.\<close>

definition choose_with :: "(worker_id list \<Rightarrow> (worker_id \<Rightarrow> nat) \<Rightarrow> worker_id option) \<Rightarrow> strategy_fn" where
  "choose_with pick candidates ctx = pick candidates (inflight (dc_loads ctx))"

section \<open>Job history\<close>

datatype job_state = Queued | Running | Succeeded | Failed

definition job_state_str :: "job_state \<Rightarrow> string" where
  "job_state_str s =
     (case s of Queued \<Rightarrow> ''queued'' | Running \<Rightarrow> ''running'' | Succeeded \<Rightarrow> ''succeeded'' | Failed \<Rightarrow> ''failed'')"

definition job_state_from_str :: "string \<Rightarrow> job_state option" where
  "job_state_from_str s =
     (if s = ''queued'' then Some Queued
      else if s = ''running'' then Some Running
      else if s = ''succeeded'' then Some Succeeded
      else if s = ''failed'' then Some Failed
      else None)"

record job_summary =
  js_job_id :: string
  js_tenant :: string
  js_action_digest :: string
  js_state :: job_state
  js_worker_id :: "string option"
  js_exit_code :: "int option"
  js_completed_at_unix_ms :: nat
  js_owning_node :: string

record job_history =
  jh_entries :: "job_summary list"
  jh_capacity :: nat

definition history_new :: "nat \<Rightarrow> job_history" where
  "history_new capacity = \<lparr>jh_entries = [], jh_capacity = max capacity 1\<rparr>"

definition history_record :: "job_summary \<Rightarrow> job_history \<Rightarrow> job_history" where
  "history_record s h =
     (let es = (if length (jh_entries h) = jh_capacity h then tl (jh_entries h) else jh_entries h)
      in h\<lparr>jh_entries := es @ [s]\<rparr>)"

definition history_recent :: "job_history \<Rightarrow> nat \<Rightarrow> job_summary list" where
  "history_recent h limit = take limit (rev (jh_entries h))"

definition history_filtered :: "job_history \<Rightarrow> job_state option \<Rightarrow> nat \<Rightarrow> job_summary list" where
  "history_filtered h state limit =
     take limit (filter (\<lambda>j. case state of None \<Rightarrow> True | Some s \<Rightarrow> js_state j = s) (rev (jh_entries h)))"

section \<open>The strategy contract\<close>

text \<open>Binding on every implementation: no answer exactly for no candidates, and an answer among them.\<close>

locale strategy =
  fixes pick :: strategy_fn
  assumes none_iff: "pick ws ctx = None \<longleftrightarrow> ws = []"
    and chosen_mem: "pick ws ctx = Some w \<Longrightarrow> w \<in> set ws"
begin

lemma chooses: "ws \<noteq> [] \<Longrightarrow> \<exists>w \<in> set ws. pick ws ctx = Some w"
  using none_iff [of ws ctx] chosen_mem [of ws ctx] by (cases "pick ws ctx") auto

end

lemma min_by_None [simp]: "min_by le xs = None \<longleftrightarrow> xs = []"
  by (cases xs) simp_all

lemma fold_min_least:
  assumes "\<And>a b. le a b \<or> le b a" "\<And>a b c. le a b \<Longrightarrow> le b c \<Longrightarrow> le a c"
  shows "fold (\<lambda>y m. if le m y then m else y) xs x \<in> insert x (set xs) \<and>
    (\<forall>y \<in> insert x (set xs). le (fold (\<lambda>y m. if le m y then m else y) xs x) y)"
proof (induction xs arbitrary: x)
  case Nil
  then show ?case using assms(1) by auto
next
  case (Cons z xs)
  define m where "m = (if le x z then x else z)"
  define f where "f = fold (\<lambda>y m. if le m y then m else y) xs m"
  have m: "le m x" "le m z" "m = x \<or> m = z" using assms(1) by (auto simp: m_def)
  have f: "f \<in> insert m (set xs)" "\<forall>y \<in> insert m (set xs). le f y"
    using Cons.IH [of m] by (simp_all add: f_def)
  have "le f x" "le f z" using f(2) m(1,2) assms(2) by blast+
  then have "\<forall>y \<in> insert x (set (z # xs)). le f y" using f(2) by simp
  moreover have "f \<in> insert x (set (z # xs))" using f(1) m(3) by auto
  moreover have "fold (\<lambda>y m. if le m y then m else y) (z # xs) x = f" by (simp add: f_def m_def)
  ultimately show ?case by simp
qed

lemma min_by_least:
  assumes "\<And>a b. le a b \<or> le b a" "\<And>a b c. le a b \<Longrightarrow> le b c \<Longrightarrow> le a c" "min_by le xs = Some m"
  shows "m \<in> set xs \<and> (\<forall>y \<in> set xs. le m y)"
  using fold_min_least [of le "tl xs" "hd xs", OF assms(1,2)] assms(3) by (cases xs) auto

lemma less_loaded_least:
  "min_by (less_loaded load) xs = Some m \<Longrightarrow> m \<in> set xs \<and> (\<forall>y \<in> set xs. less_loaded load m y)"
  by (rule min_by_least [rotated 2], assumption) (auto simp: less_loaded_def)

lemma more_loaded_least:
  "min_by (more_loaded load) xs = Some m \<Longrightarrow> m \<in> set xs \<and> (\<forall>y \<in> set xs. more_loaded load m y)"
  by (rule min_by_least [rotated 2], assumption) (auto simp: more_loaded_def)

lemma older_least: "min_by older xs = Some m \<Longrightarrow> m \<in> set xs \<and> (\<forall>y \<in> set xs. older m y)"
  by (rule min_by_least [rotated 2], assumption) (auto simp: older_def)

interpretation fifo: strategy "choose_with simple_fifo_choose"
  by unfold_locales (auto simp: choose_with_def simple_fifo_choose_def dest: less_loaded_least)

interpretation packing: strategy "choose_with (bin_packing_choose cap)" for cap
  by unfold_locales
     (auto simp: choose_with_def bin_packing_choose_def dest: less_loaded_least more_loaded_least split: option.splits)

section \<open>Bounded histories\<close>

definition locality_inv :: "locality_index \<Rightarrow> bool" where
  "locality_inv x \<longleftrightarrow>
     tbl_wf (lx_workers x) \<and> 1 \<le> lx_window x \<and> 1 \<le> lx_max_workers x \<and>
     length (lx_workers x) \<le> lx_max_workers x \<and>
     (\<forall>(w, h) \<in> set (lx_workers x). length (wh_recent h) \<le> lx_window x)"

lemma length_tbl_insert: "length (tbl_insert k v t) \<le> Suc (length t)"
  by (induction k v t rule: tbl_insert.induct) auto

lemma length_tbl_remove: "tbl_get t k \<noteq> None \<Longrightarrow> length (tbl_remove k t) < length t"
  by (induction t) (auto simp: tbl_get_Cons tbl_remove_def tbl_retain_def le_imp_less_Suc split: if_splits)

lemma locality_inv_new: "locality_inv (locality_new a b)"
  by (simp add: locality_inv_def locality_new_def)

lemma evict_least_recent_removes:
  assumes "tbl_wf (lx_workers x)" "1 < length (lx_workers x)"
  obtains v where "evict_least_recent keep x = x\<lparr>lx_workers := tbl_remove v (lx_workers x)\<rparr>"
    "tbl_get (lx_workers x) v \<noteq> None" "v \<noteq> keep"
    "\<forall>(w, h) \<in> set (lx_workers x). w \<noteq> keep \<longrightarrow> (\<exists>hv. tbl_get (lx_workers x) v = Some hv \<and> older (v, hv) (w, h))"
proof -
  let ?others = "filter (\<lambda>(i, _). i \<noteq> keep) (lx_workers x)"
  have "?others \<noteq> []"
  proof
    assume "?others = []"
    then have "fst ` set (lx_workers x) \<subseteq> {keep}" by (auto simp: filter_empty_conv)
    then have "card (set (map fst (lx_workers x))) \<le> 1"
      by (metis card_mono card_1_singleton_iff finite.intros set_map One_nat_def finite_insert)
    then show False using assms distinct_card [OF tbl_wf_distinct [OF assms(1)]] by simp
  qed
  then obtain v hv where v: "min_by older ?others = Some (v, hv)" by (metis min_by_None not_None_eq old.prod.exhaust)
  from older_least [OF v] have mem: "(v, hv) \<in> set (lx_workers x)" "v \<noteq> keep" by auto
  then have get: "tbl_get (lx_workers x) v = Some hv" using tbl_get_Some_iff [OF assms(1)] by simp
  show ?thesis
  proof (rule that)
    show "evict_least_recent keep x = x\<lparr>lx_workers := tbl_remove v (lx_workers x)\<rparr>"
      by (simp add: evict_least_recent_def v)
  qed (use older_least [OF v] get mem in auto)
qed

lemma locality_record_inv:
  assumes "locality_inv x"
  shows "locality_inv (locality_record w a r x)"
    and "\<exists>h. tbl_get (lx_workers (locality_record w a r x)) w = Some h \<and>
           wh_recent h \<noteq> [] \<and> last (wh_recent h) = \<lparr>cp_action = a, cp_input_root = r\<rparr>"
proof -
  define h where "h = (case tbl_get (lx_workers x) w of Some h \<Rightarrow> h | None \<Rightarrow> \<lparr>wh_recent = [], wh_last_touch = 0\<rparr>)"
  define recent where "recent = (let rs = wh_recent h @ [\<lparr>cp_action = a, cp_input_root = r\<rparr>]
     in if length rs > lx_window x then tl rs else rs)"
  define y where "y = x\<lparr>lx_tick := wrap_add (lx_tick x) 1,
     lx_workers := tbl_insert w \<lparr>wh_recent = recent, wh_last_touch = wrap_add (lx_tick x) 1\<rparr> (lx_workers x)\<rparr>"
  have rec: "locality_record w a r x = (if length (lx_workers y) > lx_max_workers y then evict_least_recent w y else y)"
    by (simp add: locality_record_def y_def recent_def h_def Let_def)
  have "length (wh_recent h) \<le> lx_window x"
    using assms tbl_get_SomeD [of "lx_workers x" w h]
    by (fastforce simp: h_def locality_inv_def dest: tbl_get_SomeD split: option.splits)
  then have recent: "length recent \<le> lx_window x" "recent \<noteq> []" "last recent = \<lparr>cp_action = a, cp_input_root = r\<rparr>"
    using assms by (cases "wh_recent h"; auto simp: recent_def Let_def locality_inv_def)+
  have wf: "tbl_wf (lx_workers y)" using assms by (simp add: y_def locality_inv_def)
  have each: "\<forall>(w, h) \<in> set (lx_workers y). length (wh_recent h) \<le> lx_window y"
    using assms recent(1) set_tbl_insert by (fastforce simp: y_def locality_inv_def)
  have get: "tbl_get (lx_workers y) w = Some \<lparr>wh_recent = recent, wh_last_touch = wrap_add (lx_tick x) 1\<rparr>"
    by (simp add: y_def table_simps)
  have len: "length (lx_workers y) \<le> Suc (lx_max_workers y)"
    using assms length_tbl_insert [of w _ "lx_workers x"] by (auto simp: y_def locality_inv_def intro: le_trans)
  have one: "1 \<le> lx_max_workers y" "1 \<le> lx_window y" using assms by (simp_all add: y_def locality_inv_def)
  show "locality_inv (locality_record w a r x)"
  proof (cases "length (lx_workers y) > lx_max_workers y")
    case True
    with one have "1 < length (lx_workers y)" by simp
    from evict_least_recent_removes [OF wf this, of w] obtain v where
      v: "evict_least_recent w y = y\<lparr>lx_workers := tbl_remove v (lx_workers y)\<rparr>" "tbl_get (lx_workers y) v \<noteq> None"
      by metis
    have "length (tbl_remove v (lx_workers y)) < length (lx_workers y)" using v(2) by (rule length_tbl_remove)
    with len wf each one v True show ?thesis
      by (auto simp: rec locality_inv_def) (auto simp: tbl_remove_def tbl_retain_def)
  next
    case False
    with wf each one show ?thesis by (simp add: rec locality_inv_def)
  qed
  show "\<exists>h. tbl_get (lx_workers (locality_record w a r x)) w = Some h \<and>
      wh_recent h \<noteq> [] \<and> last (wh_recent h) = \<lparr>cp_action = a, cp_input_root = r\<rparr>"
  proof (cases "length (lx_workers y) > lx_max_workers y")
    case True
    with one have "1 < length (lx_workers y)" by simp
    from evict_least_recent_removes [OF wf this, of w] obtain v where
      "evict_least_recent w y = y\<lparr>lx_workers := tbl_remove v (lx_workers y)\<rparr>" "v \<noteq> w" by metis
    with get recent True wf show ?thesis by (simp add: rec table_simps)
  next
    case False
    with get recent show ?thesis by (simp add: rec)
  qed
qed

lemma history_record_drop:
  assumes "jh_entries h = drop (length ss - jh_capacity h) ss" "1 \<le> jh_capacity h"
  shows "jh_entries (history_record s h) = drop (length (ss @ [s]) - jh_capacity h) (ss @ [s])"
  using assms by (auto simp: history_record_def Let_def tl_drop drop_Suc Suc_diff_le min_def not_le)

lemma locality_record_params [simp]:
  "lx_window (locality_record w a r x) = lx_window x" "lx_max_workers (locality_record w a r x) = lx_max_workers x"
  by (simp_all add: locality_record_def evict_least_recent_def Let_def split: option.splits)

definition record_all :: "(worker_id \<times> digest \<times> digest option) list \<Rightarrow> locality_index \<Rightarrow> locality_index" where
  "record_all es x = fold (\<lambda>(w, a, r). locality_record w a r) es x"

lemma record_all_inv:
  "locality_inv x \<Longrightarrow> locality_inv (record_all es x) \<and> lx_window (record_all es x) = lx_window x \<and>
     lx_max_workers (record_all es x) = lx_max_workers x"
  by (induction es arbitrary: x) (auto simp: record_all_def locality_record_inv(1))

lemma history_len_le: "locality_inv x \<Longrightarrow> history_len x w \<le> lx_window x"
  by (fastforce simp: history_len_def locality_inv_def dest: tbl_get_SomeD split: option.splits)

lemma history_fold:
  "jh_entries h = drop (length ss - jh_capacity h) ss \<Longrightarrow> 1 \<le> jh_capacity h \<Longrightarrow>
     jh_entries (fold history_record ts h) = drop (length (ss @ ts) - jh_capacity h) (ss @ ts)"
proof (induction ts arbitrary: ss h)
  case (Cons t ts)
  have "jh_capacity (history_record t h) = jh_capacity h" by (simp add: history_record_def Let_def)
  with Cons.IH [of "history_record t h" "ss @ [t]"] history_record_drop [OF Cons.prems, of t] Cons.prems(2)
  show ?case by simp
qed simp

section \<open>Properties\<close>

text \<open>
  Bin packing fills before it spreads: the chosen worker is a candidate; while some candidate is
  under the cap it is the most loaded of those, and only when all are at the cap the least loaded.
\<close>

theorem bin_packing_packs_then_spreads:
  assumes "bin_packing_choose cap ws load = Some w"
  shows "w \<in> set ws \<and>
    ((\<exists>v \<in> set ws. load v < cap) \<longrightarrow> load w < cap \<and> (\<forall>v \<in> set ws. load v < cap \<longrightarrow> load v \<le> load w)) \<and>
    ((\<forall>v \<in> set ws. cap \<le> load v) \<longrightarrow> (\<forall>v \<in> set ws. load w \<le> load v))"
proof (cases "min_by (more_loaded load) (filter (\<lambda>w. load w < cap) ws)")
  case None
  then have "min_by (less_loaded load) ws = Some w" using assms by (simp add: bin_packing_choose_def)
  from less_loaded_least [OF this] None show ?thesis by (fastforce simp: less_loaded_def filter_empty_conv)
next
  case (Some v)
  then have "v = w" using assms by (simp add: bin_packing_choose_def)
  with more_loaded_least [OF Some] show ?thesis by (fastforce simp: more_loaded_def)
qed

theorem bin_packing_packs_then_spreads_witness:
  "bin_packing_choose 4 [''a'', ''b'', ''c''] (\<lambda>w. if w = ''b'' then 3 else if w = ''c'' then 4 else 0) = Some ''b'' \<and>
   (let load = (\<lambda>w. if w = ''b'' then 3 else if w = ''c'' then 4 else (0 :: nat)) in load ''b'' < 4)"
proof -
  let ?load = "\<lambda>w. if w = ''b'' then 3 else if w = ''c'' then 4 else (0 :: nat)"
  have "bin_packing_choose 4 [''a'', ''b'', ''c''] ?load = Some ''b''" by code_simp
  with bin_packing_packs_then_spreads [OF this] show ?thesis by simp
qed

text \<open>
  The locality index stays within its ceiling and keeps what it was just told: after any
  completions at most \<open>max_workers\<close> workers are tracked with at most \<open>window\<close> completions each, and a
  completion just recorded counts for its worker even when another had to be evicted.
\<close>

theorem locality_bounded:
  assumes "0 < window" "window < 2 ^ 32" "0 < max_workers"
  shows "length (lx_workers (record_all es (locality_new window max_workers))) \<le> max_workers \<and>
    history_len (record_all es (locality_new window max_workers)) v \<le> window \<and>
    1 \<le> input_root_hits (locality_record w a (Some r) (record_all es (locality_new window max_workers))) w r"
proof -
  let ?x = "record_all es (locality_new window max_workers)"
  have x: "locality_inv ?x" "lx_window ?x = window" "lx_max_workers ?x = max_workers"
    using record_all_inv [OF locality_inv_new, of es window max_workers] assms by (simp_all add: locality_new_def)
  let ?y = "locality_record w a (Some r) ?x"
  from locality_record_inv(2) [OF x(1), of w a "Some r"] obtain h where
    h: "tbl_get (lx_workers ?y) w = Some h" "wh_recent h \<noteq> []"
      "last (wh_recent h) = \<lparr>cp_action = a, cp_input_root = Some r\<rparr>" by blast
  let ?hits = "filter (\<lambda>c. cp_input_root c = Some r) (wh_recent h)"
  have "last (wh_recent h) \<in> set ?hits" using h(2,3) last_in_set by fastforce
  then have "0 < length ?hits" by (simp only: length_greater_0_conv) (metis empty_iff empty_set)
  moreover have "length (wh_recent h) \<le> window"
    using history_len_le [OF locality_record_inv(1) [OF x(1)], of w a "Some r" w] x(2) h(1)
    by (simp add: history_len_def)
  then have "length ?hits \<le> window" using length_filter_le le_trans by blast
  ultimately have "1 \<le> input_root_hits ?y w r" using assms(2) by (simp add: input_root_hits_def h(1) Suc_le_eq)
  then show ?thesis using x history_len_le [OF x(1), of v] by (simp add: locality_inv_def)
qed

theorem locality_bounded_witness:
  "1 \<le> input_root_hits (locality_record ''w'' \<lparr>dg_hash = ''a'', dg_size = 1\<rparr> (Some \<lparr>dg_hash = ''b'', dg_size = 2\<rparr>)
      (record_all [(''v'', \<lparr>dg_hash = ''a'', dg_size = 1\<rparr>, None)] (locality_new 2 1))) ''w'' \<lparr>dg_hash = ''b'', dg_size = 2\<rparr>"
  using locality_bounded [of 2 1] by simp

text \<open>
  The job history is a ring: after any reports it holds exactly the latest ones in order, as many as
  its capacity.
\<close>

theorem history_keeps_latest:
  "jh_entries (fold history_record ss (history_new c)) = drop (length ss - max c 1) ss"
  using history_fold [of "history_new c" "[]" ss] by (simp add: history_new_def)

end
