(* ===== verification/Ctl_Fair_Queue.thy ===== *)
theory Ctl_Fair_Queue
  imports Brokkr_Prelude "HOL-Library.Multiset"
begin

text \<open>
  The per-tenant start-time fair queue of \<open>brokkr-control/src/fairqueue.rs\<close>: virtual start
  tags, weighted clocks, removal by index and removal of the least tag.
\<close>

type_synonym tenant_id = string

definition COST :: nat where
  "COST = 1000000"

record 'j fq_entry =
  fe_start :: nat
  fe_job :: 'j

record 'j fair_queue =
  fq_entries :: "'j fq_entry list"
  fq_virtual_time :: nat
  fq_tenant_finish :: "(tenant_id, nat) table"
  fq_weights :: "(tenant_id, nat) table"

definition fq_new :: "'j fair_queue" where
  "fq_new = \<lparr>fq_entries = [], fq_virtual_time = 0, fq_tenant_finish = [], fq_weights = []\<rparr>"

definition set_weight :: "tenant_id \<Rightarrow> nat \<Rightarrow> 'j fair_queue \<Rightarrow> 'j fair_queue" where
  "set_weight tenant weight q = q\<lparr>fq_weights := tbl_insert tenant (max weight 1) (fq_weights q)\<rparr>"

definition weight_of :: "'j fair_queue \<Rightarrow> tenant_id \<Rightarrow> nat" where
  "weight_of q tenant = max (case tbl_get (fq_weights q) tenant of Some w \<Rightarrow> w | None \<Rightarrow> 1) 1"

definition last_finish :: "'j fair_queue \<Rightarrow> tenant_id \<Rightarrow> nat" where
  "last_finish q tenant = (case tbl_get (fq_tenant_finish q) tenant of Some f \<Rightarrow> f | None \<Rightarrow> 0)"

definition fq_push :: "tenant_id \<Rightarrow> 'j \<Rightarrow> 'j fair_queue \<Rightarrow> 'j fair_queue" where
  "fq_push tenant job q =
     (let weight = weight_of q tenant;
          start = max (fq_virtual_time q) (last_finish q tenant);
          finish = sat_add start (COST div weight)
      in q\<lparr>fq_tenant_finish := tbl_insert tenant finish (fq_tenant_finish q),
           fq_entries := fq_entries q @ [\<lparr>fe_start = start, fe_job = job\<rparr>]\<rparr>)"

definition fq_slots :: "'j fair_queue \<Rightarrow> (nat \<times> nat \<times> 'j) list" where
  "fq_slots q = map (\<lambda>(i, e). (i, fe_start e, fe_job e)) (enumerate 0 (fq_entries q))"

definition fq_get :: "'j fair_queue \<Rightarrow> nat \<Rightarrow> (nat \<times> nat \<times> 'j) option" where
  "fq_get q i =
     (if i < length (fq_entries q)
      then Some (i, fe_start (fq_entries q ! i), fe_job (fq_entries q ! i)) else None)"

text \<open>\<open>Vec::swap_remove\<close>: the last element takes the place of the removed one.\<close>

definition swap_remove :: "nat \<Rightarrow> 'a list \<Rightarrow> 'a list" where
  "swap_remove i xs = (if i = length xs - 1 then butlast xs else (butlast xs)[i := last xs])"

definition fq_take :: "nat \<Rightarrow> 'j fair_queue \<Rightarrow> 'j option \<times> 'j fair_queue" where
  "fq_take i q =
     (if i \<ge> length (fq_entries q) then (None, q)
      else (let e = fq_entries q ! i
            in (Some (fe_job e),
                q\<lparr>fq_entries := swap_remove i (fq_entries q),
                  fq_virtual_time := max (fq_virtual_time q) (fe_start e)\<rparr>)))"

text \<open>\<open>min_by_key\<close> over the enumerated entries: the first index of a least tag.\<close>

fun min_start_index :: "'j fq_entry list \<Rightarrow> nat option" where
  "min_start_index [] = None"
| "min_start_index (e # es) =
     (case min_start_index es of
        None \<Rightarrow> Some 0
      | Some i \<Rightarrow> if fe_start e \<le> fe_start (es ! i) then Some 0 else Some (Suc i))"

definition fq_pop :: "'j fair_queue \<Rightarrow> 'j option \<times> 'j fair_queue" where
  "fq_pop q = (case min_start_index (fq_entries q) of None \<Rightarrow> (None, q) | Some i \<Rightarrow> fq_take i q)"

definition fq_retain :: "('j \<Rightarrow> bool) \<Rightarrow> 'j fair_queue \<Rightarrow> 'j fair_queue" where
  "fq_retain keep q = q\<lparr>fq_entries := filter (\<lambda>e. keep (fe_job e)) (fq_entries q)\<rparr>"

section \<open>Removal\<close>

lemma swap_remove_mset: "i < length xs \<Longrightarrow> add_mset (xs ! i) (mset (swap_remove i xs)) = mset xs"
proof -
  assume i: "i < length xs"
  then have xs: "xs = butlast xs @ [last xs]" by (metis append_butlast_last_id length_0_conv less_nat_zero_code)
  show ?thesis
  proof (cases "i = length xs - 1")
    case True
    with i have "xs ! i = last xs" by (metis last_conv_nth length_0_conv less_nat_zero_code)
    with True show ?thesis
      using arg_cong [OF xs, of mset] by (simp add: swap_remove_def)
  next
    case False
    with i have b: "i < length (butlast xs)" "butlast xs ! i = xs ! i" by (simp_all add: nth_butlast)
    have "mset xs = add_mset (last xs) (mset (butlast xs))"
      using arg_cong [OF xs, of mset] by simp
    moreover have "xs ! i \<in># mset (butlast xs)" using b by (metis nth_mem set_mset_mset)
    ultimately show ?thesis
      using False b by (simp add: swap_remove_def mset_update)
  qed
qed

lemma swap_remove_set: "i < length xs \<Longrightarrow> set xs = insert (xs ! i) (set (swap_remove i xs))"
  using swap_remove_mset [of i xs] by (metis set_mset_add_mset_insert set_mset_mset)

lemma min_start_index_None: "min_start_index es = None \<longleftrightarrow> es = []"
  by (cases es) (auto split: option.splits)

lemma min_start_index_least:
  "min_start_index es = Some i \<Longrightarrow> i < length es \<and> (\<forall>e \<in> set es. fe_start (es ! i) \<le> fe_start e)"
proof (induction es arbitrary: i)
  case (Cons e es)
  then show ?case
    by (cases "min_start_index es") (fastforce simp: min_start_index_None split: if_splits)+
qed simp

section \<open>Virtual time\<close>

text \<open>No queued job is behind the virtual clock.\<close>

definition fq_inv :: "'j fair_queue \<Rightarrow> bool" where
  "fq_inv q \<longleftrightarrow> (\<forall>e \<in> set (fq_entries q). fq_virtual_time q \<le> fe_start e)"

lemma fq_inv_new: "fq_inv fq_new"
  by (simp add: fq_inv_def fq_new_def)

lemma fq_inv_push: "fq_inv q \<Longrightarrow> fq_inv (fq_push t j q)"
  by (auto simp: fq_inv_def fq_push_def Let_def)

lemma fq_inv_weight: "fq_inv q \<Longrightarrow> fq_inv (set_weight t w q)"
  by (simp add: fq_inv_def set_weight_def)

lemma fq_inv_retain: "fq_inv q \<Longrightarrow> fq_inv (fq_retain keep q)"
  by (simp add: fq_inv_def fq_retain_def)

lemma fq_take_some:
  "i < length (fq_entries q) \<Longrightarrow>
   fst (fq_take i q) = Some (fe_job (fq_entries q ! i)) \<and>
   fq_virtual_time (snd (fq_take i q)) = max (fq_virtual_time q) (fe_start (fq_entries q ! i)) \<and>
   fq_entries (snd (fq_take i q)) = swap_remove i (fq_entries q)"
  by (simp add: fq_take_def Let_def)

lemma fq_pop_some:
  assumes "fq_entries q \<noteq> []"
  obtains e where "fst (fq_pop q) = Some (fe_job e)"
    "mset (fq_entries q) = add_mset e (mset (fq_entries (snd (fq_pop q))))"
    "\<forall>e' \<in> set (fq_entries q). fe_start e \<le> fe_start e'"
    "fq_virtual_time (snd (fq_pop q)) = max (fq_virtual_time q) (fe_start e)"
proof -
  obtain i where i: "min_start_index (fq_entries q) = Some i"
    using assms min_start_index_None by fastforce
  note least = min_start_index_least [OF i]
  have pop: "fq_pop q = fq_take i q" by (simp add: fq_pop_def i)
  show ?thesis
  proof (rule that [of "fq_entries q ! i"])
    show "mset (fq_entries q) = add_mset (fq_entries q ! i) (mset (fq_entries (snd (fq_pop q))))"
      using swap_remove_mset [of i "fq_entries q"] fq_take_some [of i q] least by (simp add: pop)
  qed (use least fq_take_some [of i q] pop in auto)
qed

lemma fq_inv_pop:
  assumes "fq_inv q"
  shows "fq_inv (snd (fq_pop q))"
proof (cases "fq_entries q = []")
  case True
  then show ?thesis using assms by (simp add: fq_pop_def)
next
  case False
  then obtain e where e: "mset (fq_entries q) = add_mset e (mset (fq_entries (snd (fq_pop q))))"
    "\<forall>e' \<in> set (fq_entries q). fe_start e \<le> fe_start e'"
    "fq_virtual_time (snd (fq_pop q)) = max (fq_virtual_time q) (fe_start e)"
    by (rule fq_pop_some)
  have "set (fq_entries (snd (fq_pop q))) \<subseteq> set (fq_entries q)"
    using e(1) by (metis set_mset_add_mset_insert set_mset_mset subset_insertI)
  with e assms show ?thesis by (auto simp: fq_inv_def)
qed

section \<open>Weighted shares\<close>

fun push_many :: "tenant_id \<Rightarrow> 'j list \<Rightarrow> 'j fair_queue \<Rightarrow> 'j fair_queue" where
  "push_many t [] q = q"
| "push_many t (j # js) q = push_many t js (fq_push t j q)"

lemma push_frame [simp]:
  "fq_virtual_time (fq_push t j q) = fq_virtual_time q"
  "weight_of (fq_push t j q) u = weight_of q u"
  by (simp_all add: fq_push_def Let_def weight_of_def)

lemma last_finish_push:
  "last_finish (fq_push t j q) t = sat_add (max (fq_virtual_time q) (last_finish q t)) (COST div weight_of q t)"
  by (simp add: fq_push_def Let_def last_finish_def table_simps)

lemma push_many_tags:
  assumes "s = max (fq_virtual_time q) (last_finish q t)" "s + length js * (COST div weight_of q t) \<le> u64_max"
  shows "map fe_start (fq_entries (push_many t js q)) =
           map fe_start (fq_entries q) @ map (\<lambda>i. s + i * (COST div weight_of q t)) [0..<length js]"
  using assms
proof (induction js arbitrary: q s)
  case (Cons j js)
  let ?w = "COST div weight_of q t"
  have s': "max (fq_virtual_time (fq_push t j q)) (last_finish (fq_push t j q) t) = s + ?w"
    using Cons.prems by (simp add: last_finish_push sat_add_exact)
  have tags: "map (\<lambda>i. s + i * ?w) [0..<Suc (length js)] = s # map (\<lambda>i. s + ?w + i * ?w) [0..<length js]"
    by (simp add: upt_conv_Cons map_Suc_upt [symmetric] algebra_simps del: upt_Suc)
  have "map fe_start (fq_entries (fq_push t j q)) = map fe_start (fq_entries q) @ [s]"
    using Cons.prems(1) by (simp add: fq_push_def Let_def)
  then show ?case
    using Cons.IH [of "s + ?w" "fq_push t j q"] s' Cons.prems(2) tags
    by (simp add: algebra_simps del: upt_Suc)
qed simp

section \<open>Properties\<close>



text \<open>
  Weighted shares: a burst of jobs of one tenant gets start tags evenly spaced by the cost of a
  job divided by the tenant's weight, so a tenant of twice the weight is due twice as often.
\<close>

theorem fair_queue_spaces_by_weight:
  assumes "s = max (fq_virtual_time q) (last_finish q t)" "s + length js * (COST div weight_of q t) \<le> u64_max"
  shows "map fe_start (fq_entries (push_many t js q)) =
           map fe_start (fq_entries q) @ map (\<lambda>i. s + i * (COST div weight_of q t)) [0..<length js]"
  using assms by (rule push_many_tags)

theorem fair_queue_spaces_by_weight_witness:
  "map fe_start (fq_entries (push_many ''t'' [1, 2, 3 :: nat] (set_weight ''t'' 4 fq_new))) = [0, 250000, 500000]"
proof -
  have "[0..<length [1, 2, 3 :: nat]] = [0, 1, 2]" by code_simp
  then show ?thesis
    using fair_queue_spaces_by_weight [of 0 "set_weight ''t'' 4 fq_new" "''t''" "[1, 2, 3 :: nat]"]
    by (simp add: set_weight_def fq_new_def last_finish_def weight_of_def tbl_get_Cons COST_def u64_max_def)
qed

end
