(* ===== verification/Ctl_Scheduler.thy ===== *)
theory Ctl_Scheduler
  imports Ctl_Scheduling Ctl_Fair_Queue
begin

text \<open>
  The job scheduler of \<open>brokkr-control/src/scheduler.rs\<close>: admission under the tenant quota, dispatch
  of the fair queue's best job to a worker the strategy picks, leases, requeueing after a lost
  worker, reports, and the action-cache protocol around an execution. A section of code under the
  inner lock is one function; a waiter is the entry its caller waits on, and what the caller
  receives (a report, or nothing when the sender is dropped) is appended to a list.
\<close>

section \<open>Messages\<close>

record action =
  ac_command_digest :: "(string \<times> int) option"
  ac_input_root_digest :: "(string \<times> int) option"
  ac_platform :: "platform option"
  ac_timeout :: "int option"

record command =
  cm_platform :: "platform option"

record action_result =
  ar_exit_code :: int
  ar_outputs :: bytes

record job_result =
  jr_job_id :: string
  jr_result :: "action_result option"
  jr_error_message :: string

record job_msg =
  jm_job_id :: string
  jm_action_digest :: digest
  jm_action :: action
  jm_command :: command

datatype execution_error =
    Timeout nat
  | NoEligibleWorker
  | QuotaExceeded nat
  | OtherError string

record execution_outcome =
  eo_result :: action_result
  eo_cache_hit :: bool
  eo_result_cached :: bool

section \<open>State\<close>

definition MAX_ATTEMPTS :: nat where
  "MAX_ATTEMPTS = 5"

definition DEFAULT_EXECUTION_TIMEOUT :: nat where
  "DEFAULT_EXECUTION_TIMEOUT = 30 * 60 * 1000000000"

definition DEFAULT_LEASE_DURATION :: nat where
  "DEFAULT_LEASE_DURATION = 60 * 1000000000"

definition DEFAULT_JOB_HISTORY :: nat where
  "DEFAULT_JOB_HISTORY = 256"

record pending_job =
  pj_job_id :: job_id
  pj_tenant :: tenant_id
  pj_job :: job_msg
  pj_platform :: platform
  pj_lease_duration :: nat
  pj_attempts :: nat
  pj_action_digest :: digest
  pj_input_root_digest :: "digest option"

record inner =
  in_connected :: connected_workers
  in_pending :: "pending_job fair_queue"
  in_leases :: "pending_job lease_table"
  in_locality :: locality_index
  in_job_history :: job_history
  in_tenant_inflight :: "(tenant_id, nat) table"

record scheduler =
  sc_inner :: inner
  sc_strategy :: strategy_fn
  sc_waiters :: "(job_id, unit) table"
  sc_received :: "(job_id \<times> job_result option) list"
  sc_default_execution_timeout :: nat
  sc_lease_duration :: nat
  sc_max_concurrent_per_tenant :: "nat option"
  sc_worker_registry :: "worker_registry option"
  sc_uncached_results_not_leader :: nat
  sc_node_id :: string

definition inner_new :: inner where
  "inner_new =
     \<lparr>in_connected = [], in_pending = fq_new, in_leases = lease_new, in_locality = locality_default,
      in_job_history = history_new DEFAULT_JOB_HISTORY, in_tenant_inflight = []\<rparr>"

definition scheduler_build :: "nat \<Rightarrow> worker_registry option \<Rightarrow> strategy_fn \<Rightarrow> nat option \<Rightarrow> scheduler" where
  "scheduler_build timeout registry strat quota =
     \<lparr>sc_inner = inner_new, sc_strategy = strat, sc_waiters = [], sc_received = [],
      sc_default_execution_timeout = timeout, sc_lease_duration = DEFAULT_LEASE_DURATION,
      sc_max_concurrent_per_tenant = quota, sc_worker_registry = registry,
      sc_uncached_results_not_leader = 0, sc_node_id = ''local''\<rparr>"

definition scheduler_new :: scheduler where
  "scheduler_new = scheduler_build DEFAULT_EXECUTION_TIMEOUT None (choose_with simple_fifo_choose) None"

definition with_execution_timeout :: "nat \<Rightarrow> scheduler" where
  "with_execution_timeout t = scheduler_build t None (choose_with simple_fifo_choose) None"

definition with_worker_registry :: "worker_registry \<Rightarrow> scheduler" where
  "with_worker_registry g =
     scheduler_build DEFAULT_EXECUTION_TIMEOUT (Some g) (choose_with simple_fifo_choose) None"

definition with_registry_and_timeout :: "nat \<Rightarrow> worker_registry \<Rightarrow> scheduler" where
  "with_registry_and_timeout t g = scheduler_build t (Some g) (choose_with simple_fifo_choose) None"

definition with_strategy :: "worker_registry \<Rightarrow> strategy_fn \<Rightarrow> scheduler" where
  "with_strategy g strat = scheduler_build DEFAULT_EXECUTION_TIMEOUT (Some g) strat None"

definition with_tenant_quota :: "worker_registry \<Rightarrow> nat option \<Rightarrow> scheduler" where
  "with_tenant_quota g quota =
     scheduler_build DEFAULT_EXECUTION_TIMEOUT (Some g) (choose_with simple_fifo_choose) quota"

definition set_node_id :: "string \<Rightarrow> scheduler \<Rightarrow> scheduler" where
  "set_node_id i s = s\<lparr>sc_node_id := i\<rparr>"

definition set_job_history_capacity :: "nat \<Rightarrow> scheduler \<Rightarrow> scheduler" where
  "set_job_history_capacity c s = s\<lparr>sc_inner := (sc_inner s)\<lparr>in_job_history := history_new c\<rparr>\<rparr>"

definition recent_jobs :: "scheduler \<Rightarrow> job_state option \<Rightarrow> nat \<Rightarrow> job_summary list" where
  "recent_jobs s state limit = history_filtered (in_job_history (sc_inner s)) state limit"

definition inflight_snapshot :: "scheduler \<Rightarrow> (worker_id \<times> nat) list" where
  "inflight_snapshot s =
     map (\<lambda>i. (i, inflight (in_connected (sc_inner s)) i)) (connected_ids (in_connected (sc_inner s)))"

definition locality_input_root_hits :: "scheduler \<Rightarrow> worker_id \<Rightarrow> digest \<Rightarrow> nat" where
  "locality_input_root_hits s w root = input_root_hits (in_locality (sc_inner s)) w root"

section \<open>Tenants\<close>

definition tenant_inflight :: "inner \<Rightarrow> tenant_id \<Rightarrow> nat" where
  "tenant_inflight i t = (case tbl_get (in_tenant_inflight i) t of Some n \<Rightarrow> n | None \<Rightarrow> 0)"

definition inc_tenant :: "tenant_id \<Rightarrow> inner \<Rightarrow> inner" where
  "inc_tenant t i = i\<lparr>in_tenant_inflight := tbl_insert t (tenant_inflight i t + 1) (in_tenant_inflight i)\<rparr>"

definition dec_tenant :: "tenant_id \<Rightarrow> inner \<Rightarrow> inner" where
  "dec_tenant t i =
     (case tbl_get (in_tenant_inflight i) t of
        None \<Rightarrow> i
      | Some n \<Rightarrow>
          if sat_sub n 1 = 0 then i\<lparr>in_tenant_inflight := tbl_remove t (in_tenant_inflight i)\<rparr>
          else i\<lparr>in_tenant_inflight := tbl_insert t (sat_sub n 1) (in_tenant_inflight i)\<rparr>)"

section \<open>Requeueing\<close>

fun requeue_taken :: "(job_id \<times> pending_job) list \<Rightarrow> inner \<Rightarrow> (nat \<times> job_id list) \<times> inner" where
  "requeue_taken [] i = ((0, []), i)"
| "requeue_taken ((j, pj) # jobs) i =
     (let pj = pj\<lparr>pj_attempts := pj_attempts pj + 1\<rparr>
      in if pj_attempts pj \<ge> MAX_ATTEMPTS then
           (let ((n, give_up), i) = requeue_taken jobs i in ((n, j # give_up), i))
         else
           (let i = i\<lparr>in_pending := fq_push (pj_tenant pj) pj (in_pending i)\<rparr>;
                ((n, give_up), i) = requeue_taken jobs i
            in ((n + 1, give_up), i)))"

text \<open>Dropping a waiter makes its receiver fail.\<close>

definition drop_waiter :: "job_id \<Rightarrow> scheduler \<Rightarrow> scheduler" where
  "drop_waiter j s =
     (case tbl_get (sc_waiters s) j of
        None \<Rightarrow> s
      | Some _ \<Rightarrow> s\<lparr>sc_waiters := tbl_remove j (sc_waiters s), sc_received := sc_received s @ [(j, None)]\<rparr>)"

definition fail_jobs :: "job_id list \<Rightarrow> scheduler \<Rightarrow> scheduler" where
  "fail_jobs js s = fold drop_waiter js s"

section \<open>Dispatch\<close>

definition candidates_for :: "worker_registry option \<Rightarrow> instant \<Rightarrow> inner \<Rightarrow> pending_job \<Rightarrow> worker_id list" where
  "candidates_for registry now i pj =
     (case registry of
        Some g \<Rightarrow> filter (\<lambda>w. is_connected (in_connected i) w \<and> \<not> is_worker_busy (in_leases i) w)
                    (map fst (eligible_workers g now (pj_platform pj)))
      | None \<Rightarrow> filter (\<lambda>w. \<not> is_worker_busy (in_leases i) w) (connected_ids (in_connected i)))"

fun best_slot ::
  "(pending_job \<Rightarrow> worker_id list) \<Rightarrow> (nat \<times> worker_id list \<times> nat) option \<Rightarrow> (nat \<times> nat \<times> pending_job) list \<Rightarrow>
     (nat \<times> worker_id list \<times> nat) option" where
  "best_slot cands best [] = best"
| "best_slot cands best ((idx, start, pj) # slots) =
     (if (case best of Some (_, _, incumbent) \<Rightarrow> start \<ge> incumbent | None \<Rightarrow> False) then best_slot cands best slots
      else best_slot cands (if cands pj \<noteq> [] then Some (idx, cands pj, start) else best) slots)"

text \<open>One placement, under the locks: the worker, whether its channel is open, and the job.\<close>

definition place_one :: "instant \<Rightarrow> scheduler \<Rightarrow> (worker_id \<times> bool \<times> pending_job) option \<times> scheduler" where
  "place_one now s =
     (let i = sc_inner s
      in case best_slot (candidates_for (sc_worker_registry s) now i) None (fq_slots (in_pending i)) of
           None \<Rightarrow> (None, s)
         | Some (idx, candidates, _) \<Rightarrow>
             (let candidates = sort candidates
              in case fq_get (in_pending i) idx of
                   None \<Rightarrow> (None, s)
                 | Some (_, _, winner) \<Rightarrow>
                     (let ctx = \<lparr>dc_loads = in_connected i, dc_locality = in_locality i,
                            dc_job = \<lparr>jf_tenant = pj_tenant winner, jf_action_digest = pj_action_digest winner,
                                      jf_input_root_digest = pj_input_root_digest winner,
                                      jf_platform = pj_platform winner\<rparr>\<rparr>
                      in case sc_strategy s candidates ctx of
                           None \<Rightarrow> (None, s)
                         | Some w \<Rightarrow>
                             (case conn_sender (in_connected i) w of
                                None \<Rightarrow> (None, s)
                              | Some chan \<Rightarrow>
                                  (case fq_take idx (in_pending i) of
                                     (None, _) \<Rightarrow> (None, s)
                                   | (Some pj, q) \<Rightarrow>
                                       (Some (w, chan, pj),
                                        s\<lparr>sc_inner := i\<lparr>in_pending := q,
                                            in_leases := lease_insert (pj_job_id pj) w (now + pj_lease_duration pj) pj
                                              (in_leases i)\<rparr>\<rparr>))))))"

text \<open>The section after a failed send.\<close>

definition send_failed :: "worker_id \<Rightarrow> pending_job \<Rightarrow> scheduler \<Rightarrow> scheduler" where
  "send_failed w pj s =
     (let pj = pj\<lparr>pj_attempts := pj_attempts pj + 1\<rparr>;
          give_up = pj_attempts pj \<ge> MAX_ATTEMPTS;
          i = sc_inner s;
          i = i\<lparr>in_leases := snd (lease_complete (pj_job_id pj) (in_leases i)),
                in_connected := disconnect w (in_connected i)\<rparr>;
          i = (if give_up then i else i\<lparr>in_pending := fq_push (pj_tenant pj) pj (in_pending i)\<rparr>);
          s = s\<lparr>sc_inner := i\<rparr>
      in if give_up then drop_waiter (pj_job_id pj) s else s)"

text \<open>One turn of the loop; \<open>None\<close> when it returns.\<close>

definition dispatch_turn :: "instant \<Rightarrow> scheduler \<Rightarrow> scheduler option" where
  "dispatch_turn now s =
     (case place_one now s of
        (None, _) \<Rightarrow> None
      | (Some (w, chan, pj), s') \<Rightarrow> Some (if chan then s' else send_failed w pj s'))"

lemma place_one_SomeE:
  assumes "place_one now s = (Some (w, chan, pj), s')"
  obtains idx start ws q ctx where
    "best_slot (candidates_for (sc_worker_registry s) now (sc_inner s)) None (fq_slots (in_pending (sc_inner s))) = Some (idx, ws, start)"
    "sc_strategy s (sort ws) ctx = Some w" "conn_sender (in_connected (sc_inner s)) w = Some chan"
    "fq_take idx (in_pending (sc_inner s)) = (Some pj, q)"
    "s' = s\<lparr>sc_inner := (sc_inner s)\<lparr>in_pending := q,
       in_leases := lease_insert (pj_job_id pj) w (now + pj_lease_duration pj) pj (in_leases (sc_inner s))\<rparr>\<rparr>"
  using assms
  by (fastforce simp: place_one_def Let_def split: option.splits prod.splits)

lemma swap_remove_length: "i < length xs \<Longrightarrow> length (swap_remove i xs) = length xs - 1"
  by (simp add: swap_remove_def)

lemma fq_take_SomeD:
  "fq_take idx q = (Some pj, q') \<Longrightarrow> idx < length (fq_entries q) \<and> pj = fe_job (fq_entries q ! idx) \<and>
     fq_entries q' = swap_remove idx (fq_entries q)"
  by (auto simp: fq_take_def Let_def split: if_splits)

lemma drop_waiter_frame [simp]: "sc_inner (drop_waiter j s) = sc_inner s"
  by (simp add: drop_waiter_def split: option.splits)

lemma dispatch_turn_decreases:
  assumes "dispatch_turn now s = Some s'"
  shows "length (in_connected (sc_inner s')) < length (in_connected (sc_inner s)) \<or>
    length (in_connected (sc_inner s')) = length (in_connected (sc_inner s)) \<and>
    length (fq_entries (in_pending (sc_inner s'))) < length (fq_entries (in_pending (sc_inner s)))"
proof -
  from assms obtain w chan pj s1 where p: "place_one now s = (Some (w, chan, pj), s1)"
    and s': "s' = (if chan then s1 else send_failed w pj s1)"
    by (auto simp: dispatch_turn_def split: prod.splits option.splits)
  from p show ?thesis
  proof (rule place_one_SomeE)
    fix idx q
    assume chan: "conn_sender (in_connected (sc_inner s)) w = Some chan"
      and q: "fq_take idx (in_pending (sc_inner s)) = (Some pj, q)"
      and s1: "s1 = s\<lparr>sc_inner := (sc_inner s)\<lparr>in_pending := q,
        in_leases := lease_insert (pj_job_id pj) w (now + pj_lease_duration pj) pj (in_leases (sc_inner s))\<rparr>\<rparr>"
    show ?thesis
    proof (cases chan)
      case True
      with fq_take_SomeD [OF q] show ?thesis by (auto simp: s' s1 swap_remove_length)
    next
      case False
      have "tbl_get (in_connected (sc_inner s)) w \<noteq> None" using chan by (auto simp: conn_sender_def)
      from length_tbl_remove [OF this] False show ?thesis
        by (simp add: s' s1 send_failed_def Let_def disconnect_def)
    qed
  qed
qed

text \<open>The loop reads the clock anew in every turn. It ends because a turn either takes a job off
  the queue, or drops a dead connection before putting the job back.\<close>

function try_dispatch :: "(nat \<Rightarrow> instant) \<Rightarrow> scheduler \<Rightarrow> scheduler" where
  "try_dispatch clock s =
     (case dispatch_turn (clock 0) s of None \<Rightarrow> s | Some s' \<Rightarrow> try_dispatch (\<lambda>n. clock (Suc n)) s')"
  by pat_completeness auto

termination
  by (relation "measures [\<lambda>(_, s). length (in_connected (sc_inner s)), \<lambda>(_, s). length (fq_entries (in_pending (sc_inner s)))]")
     (auto dest: dispatch_turn_decreases)

declare try_dispatch.simps [simp del]

section \<open>Workers\<close>

definition connect_worker :: "(nat \<Rightarrow> instant) \<Rightarrow> worker_id \<Rightarrow> bool \<Rightarrow> scheduler \<Rightarrow> scheduler" where
  "connect_worker clock w chan s =
     try_dispatch clock (s\<lparr>sc_inner := (sc_inner s)\<lparr>in_connected := connect w chan (in_connected (sc_inner s))\<rparr>\<rparr>)"

definition disconnect_worker :: "(nat \<Rightarrow> instant) \<Rightarrow> worker_id \<Rightarrow> scheduler \<Rightarrow> scheduler" where
  "disconnect_worker clock w s =
     (let i = (sc_inner s)\<lparr>in_connected := disconnect w (in_connected (sc_inner s))\<rparr>;
          (held, leases) = take_worker w (in_leases i);
          ((_, give_up), i) = requeue_taken held (i\<lparr>in_leases := leases\<rparr>)
      in try_dispatch clock (fail_jobs give_up (s\<lparr>sc_inner := i\<rparr>)))"

definition reap_expired_at :: "(nat \<Rightarrow> instant) \<Rightarrow> instant \<Rightarrow> scheduler \<Rightarrow> scheduler" where
  "reap_expired_at clock now s =
     (let (expired, leases) = take_expired now (in_leases (sc_inner s));
          ((requeued, give_up), i) = requeue_taken expired ((sc_inner s)\<lparr>in_leases := leases\<rparr>);
          s = fail_jobs give_up (s\<lparr>sc_inner := i\<rparr>)
      in if requeued > 0 then try_dispatch clock s else s)"

definition renew_worker_leases :: "instant \<Rightarrow> worker_id \<Rightarrow> scheduler \<Rightarrow> nat \<times> scheduler" where
  "renew_worker_leases now w s =
     (let (n, leases) = renew_worker w (now + sc_lease_duration s) (in_leases (sc_inner s))
      in (n, s\<lparr>sc_inner := (sc_inner s)\<lparr>in_leases := leases\<rparr>\<rparr>))"

section \<open>Reports\<close>

definition report_summary :: "scheduler \<Rightarrow> nat \<Rightarrow> worker_id \<Rightarrow> pending_job \<Rightarrow> job_result \<Rightarrow> job_summary" where
  "report_summary s unix_ms w pj r =
     (let code = map_option ar_exit_code (jr_result r)
      in \<lparr>js_job_id = pj_job_id pj, js_tenant = pj_tenant pj, js_action_digest = dg_hash (pj_action_digest pj),
          js_state = (if code = Some 0 then Succeeded else Failed), js_worker_id = Some w, js_exit_code = code,
          js_completed_at_unix_ms = unix_ms, js_owning_node = sc_node_id s\<rparr>)"

definition send_result :: "job_id \<Rightarrow> job_result \<Rightarrow> scheduler \<Rightarrow> scheduler" where
  "send_result j r s =
     (case tbl_get (sc_waiters s) j of
        None \<Rightarrow> s
      | Some _ \<Rightarrow> s\<lparr>sc_waiters := tbl_remove j (sc_waiters s), sc_received := sc_received s @ [(j, Some r)]\<rparr>)"

definition report :: "(nat \<Rightarrow> instant) \<Rightarrow> nat \<Rightarrow> job_result \<Rightarrow> scheduler \<Rightarrow> (id_error + unit) \<times> scheduler" where
  "report clock unix_ms r s =
     (case job_id_new (jr_job_id r) of
        Inl e \<Rightarrow> (Inl e, s)
      | Inr j \<Rightarrow>
          (let i = sc_inner s;
               worker = worker_of (in_leases i) j;
               (completed, leases) = lease_complete j (in_leases i);
               i = i\<lparr>in_leases := leases\<rparr>;
               i = (case (worker, completed) of
                      (Some w, Some pj) \<Rightarrow>
                        i\<lparr>in_locality := locality_record w (pj_action_digest pj) (pj_input_root_digest pj) (in_locality i),
                          in_job_history := history_record (report_summary s unix_ms w pj r) (in_job_history i)\<rparr>
                    | _ \<Rightarrow> i);
               s = s\<lparr>sc_inner := i\<rparr>
           in case completed of
                None \<Rightarrow> (Inr (), s)
              | Some _ \<Rightarrow> (Inr (), try_dispatch clock (send_result j r s))))"

section \<open>Executing an action\<close>

text \<open>What the execution path asks of the stores, as far as it looks at the answers: the action
  cache (whose not-leader refusals it treats apart), the blob store with the message decoders, and
  the collector's window.\<close>

datatype 'a cache_answer = Answer 'a | NotTheLeader | CacheFault string

record exec_env =
  ev_get_action_result :: "digest \<Rightarrow> action_result option cache_answer"
  ev_fetch_action :: "digest \<Rightarrow> string + action"
  ev_fetch_command :: "digest \<Rightarrow> string + command"
  ev_gc_window :: "string + unit"
  ev_update_action_result :: "digest \<Rightarrow> action_result \<Rightarrow> unit cache_answer"

definition lookup_cached :: "exec_env \<Rightarrow> bool \<Rightarrow> digest \<Rightarrow> execution_error + action_result option" where
  "lookup_cached env skip d =
     (if skip then Inr None
      else (case ev_get_action_result env d of
              Answer found \<Rightarrow> Inr found
            | NotTheLeader \<Rightarrow> Inr None
            | CacheFault e \<Rightarrow> Inl (OtherError (''action cache get: '' @ e))))"

definition digest_option :: "(string \<times> int) option \<Rightarrow> digest option" where
  "digest_option p =
     (case p of
        None \<Rightarrow> None
      | Some (h, n) \<Rightarrow> (case digest_new h n of Inr d \<Rightarrow> Some d | Inl _ \<Rightarrow> None))"

definition fetch_inputs :: "exec_env \<Rightarrow> digest \<Rightarrow> execution_error + (action \<times> command)" where
  "fetch_inputs env d =
     (case ev_fetch_action env d of
        Inl e \<Rightarrow> Inl (OtherError ''fetching Action from CAS'')
      | Inr a \<Rightarrow>
          (case ac_command_digest a of
             None \<Rightarrow> Inl (OtherError ''Action.command_digest missing'')
           | Some (h, n) \<Rightarrow>
               (case digest_new h n of
                  Inl _ \<Rightarrow> Inl (OtherError ''invalid command digest'')
                | Inr cd \<Rightarrow>
                    (case ev_fetch_command env cd of
                       Inl e \<Rightarrow> Inl (OtherError ''fetching Command from CAS'')
                     | Inr c \<Rightarrow> Inr (a, c)))))"

definition resolve_platform :: "action \<Rightarrow> command \<Rightarrow> platform" where
  "resolve_platform a c =
     (case ac_platform a of
        Some p \<Rightarrow> p
      | None \<Rightarrow> (case cm_platform c of Some p \<Rightarrow> p | None \<Rightarrow> []))"

definition effective_timeout :: "scheduler \<Rightarrow> action \<Rightarrow> nat" where
  "effective_timeout s a =
     (case ac_timeout a of
        Some secs \<Rightarrow> if secs > 0 then nat secs * 1000000000 else sc_default_execution_timeout s
      | None \<Rightarrow> sc_default_execution_timeout s)"

text \<open>Admission, under one lock: the quota is checked and counted together.\<close>

definition admit :: "pending_job \<Rightarrow> scheduler \<Rightarrow> nat option \<times> scheduler" where
  "admit pj s =
     (case sc_max_concurrent_per_tenant s of
        Some limit \<Rightarrow>
          if tenant_inflight (sc_inner s) (pj_tenant pj) \<ge> limit then (Some limit, s)
          else (None, s\<lparr>sc_inner := (let i = inc_tenant (pj_tenant pj) (sc_inner s)
                                     in i\<lparr>in_pending := fq_push (pj_tenant pj) pj (in_pending i)\<rparr>)\<rparr>)
      | None \<Rightarrow> (None, s\<lparr>sc_inner := (let i = inc_tenant (pj_tenant pj) (sc_inner s)
                                       in i\<lparr>in_pending := fq_push (pj_tenant pj) pj (in_pending i)\<rparr>)\<rparr>))"

text \<open>The first half of \<open>execute\<close>, up to the wait: an answer at once, or the wait's timeout.\<close>

definition execute_begin ::
  "exec_env \<Rightarrow> (nat \<Rightarrow> instant) \<Rightarrow> job_id \<Rightarrow> digest \<Rightarrow> bool \<Rightarrow> tenant_id \<Rightarrow> scheduler \<Rightarrow>
     ((execution_error + execution_outcome) + nat) \<times> scheduler" where
  "execute_begin env clock fresh d skip tenant s =
     (case lookup_cached env skip d of
        Inl e \<Rightarrow> (Inl (Inl e), s)
      | Inr (Some r) \<Rightarrow> (Inl (Inr \<lparr>eo_result = r, eo_cache_hit = True, eo_result_cached = True\<rparr>), s)
      | Inr None \<Rightarrow>
          (case fetch_inputs env d of
             Inl e \<Rightarrow> (Inl (Inl e), s)
           | Inr (a, c) \<Rightarrow>
               (let p = resolve_platform a c
                in if (case sc_worker_registry s of Some g \<Rightarrow> eligible_workers g (clock 0) p = [] | None \<Rightarrow> False)
                   then (Inl (Inl NoEligibleWorker), s)
                   else
                     (let timeout = effective_timeout s a;
                          s = s\<lparr>sc_waiters := tbl_insert fresh () (sc_waiters s)\<rparr>;
                          pj = \<lparr>pj_job_id = fresh, pj_tenant = tenant,
                                pj_job = \<lparr>jm_job_id = fresh, jm_action_digest = d, jm_action = a, jm_command = c\<rparr>,
                                pj_platform = p, pj_lease_duration = min timeout (sc_lease_duration s), pj_attempts = 0,
                                pj_action_digest = d, pj_input_root_digest = digest_option (ac_input_root_digest a)\<rparr>
                      in case admit pj s of
                           (Some limit, s) \<Rightarrow>
                             (Inl (Inl (QuotaExceeded limit)), s\<lparr>sc_waiters := tbl_remove fresh (sc_waiters s)\<rparr>)
                         | (None, s) \<Rightarrow> (Inr timeout, try_dispatch (\<lambda>n. clock (Suc n)) s)))))"

text \<open>The wait ends in a report, a dropped sender, or the timeout.\<close>

definition give_up_waiting :: "job_id \<Rightarrow> scheduler \<Rightarrow> scheduler" where
  "give_up_waiting j s =
     s\<lparr>sc_waiters := tbl_remove j (sc_waiters s),
       sc_inner := (sc_inner s)\<lparr>in_pending := fq_retain (\<lambda>p. pj_job_id p \<noteq> j) (in_pending (sc_inner s)),
                                in_leases := snd (lease_complete j (in_leases (sc_inner s)))\<rparr>\<rparr>"

definition store_result ::
  "exec_env \<Rightarrow> digest \<Rightarrow> action_result \<Rightarrow> scheduler \<Rightarrow> (execution_error + bool) \<times> scheduler" where
  "store_result env d r s =
     (if ar_exit_code r \<noteq> 0 then (Inr True, s)
      else (case ev_gc_window env of
              Inl e \<Rightarrow> (Inl (OtherError (''gc_window: '' @ e)), s)
            | Inr _ \<Rightarrow>
                (case ev_update_action_result env d r of
                   Answer _ \<Rightarrow> (Inr True, s)
                 | NotTheLeader \<Rightarrow>
                     (Inr False, s\<lparr>sc_uncached_results_not_leader := wrap_add (sc_uncached_results_not_leader s) 1\<rparr>)
                 | CacheFault e \<Rightarrow> (Inl (OtherError (''action cache update: '' @ e)), s))))"

datatype wait_end = Reported job_result | SenderDropped | TimedOut

definition execute_finish ::
  "exec_env \<Rightarrow> job_id \<Rightarrow> digest \<Rightarrow> tenant_id \<Rightarrow> nat \<Rightarrow> wait_end \<Rightarrow> scheduler \<Rightarrow>
     (execution_error + execution_outcome) \<times> scheduler" where
  "execute_finish env j d tenant timeout ending s =
     (let (outcome, s) =
        (case ending of
           SenderDropped \<Rightarrow> (Inl (OtherError ''job failed before producing a result''), s)
         | TimedOut \<Rightarrow> (Inl (Timeout timeout), give_up_waiting j s)
         | Reported r \<Rightarrow>
             if jr_error_message r \<noteq> [] then (Inl (OtherError (''worker error: '' @ jr_error_message r)), s)
             else (case jr_result r of
                     None \<Rightarrow> (Inl (OtherError ''worker reported no ActionResult''), s)
                   | Some res \<Rightarrow>
                       (case store_result env d res s of
                          (Inl e, s) \<Rightarrow> (Inl e, s)
                        | (Inr cached, s) \<Rightarrow>
                            (Inr \<lparr>eo_result = res, eo_cache_hit = False, eo_result_cached = cached\<rparr>, s))))
      in (outcome, s\<lparr>sc_inner := dec_tenant tenant (sc_inner s)\<rparr>))"

end
