(* ===== verification/Ctl_Scheduler_Inv.thy ===== *)
theory Ctl_Scheduler_Inv
  imports Ctl_Scheduler "HOL-Library.Code_Target_Nat"
begin

text \<open>
  Correctness of the scheduler: what every operation keeps of its state, that dispatch ends with
  nothing left to place, and what the execution path answers.
\<close>

section \<open>The invariant\<close>

definition pending_ids :: "inner \<Rightarrow> job_id list" where
  "pending_ids i = map (\<lambda>e. pj_job_id (fe_job e)) (fq_entries (in_pending i))"

text \<open>A lease is filed under its job's id and leaves an attempt over; no worker holds two; no job is
  both queued and leased; and \<open>W\<close> is the set of jobs someone waits for.\<close>

definition leases_ok :: "pending_job lease_table \<Rightarrow> bool" where
  "leases_ok t \<longleftrightarrow>
     tbl_wf t \<and> distinct (map (\<lambda>(_, l). ls_worker l) t) \<and>
     (\<forall>(j, l) \<in> set t. pj_job_id (ls_payload l) = j \<and> pj_attempts (ls_payload l) < MAX_ATTEMPTS)"

text \<open>No operation of the scheduler counts a job against its worker's connection.\<close>

definition conns_ok :: "connected_workers \<Rightarrow> bool" where
  "conns_ok c \<longleftrightarrow> tbl_wf c \<and> (\<forall>(_, w) \<in> set c. cn_inflight w = 0)"

definition inner_inv :: "inner \<Rightarrow> job_id set \<Rightarrow> bool" where
  "inner_inv i W \<longleftrightarrow>
     conns_ok (in_connected i) \<and> leases_ok (in_leases i) \<and>
     (\<forall>e \<in> set (fq_entries (in_pending i)). pj_attempts (fe_job e) < MAX_ATTEMPTS) \<and>
     distinct (pending_ids i) \<and> set (pending_ids i) \<inter> tbl_keys (in_leases i) = {} \<and>
     W = set (pending_ids i) \<union> tbl_keys (in_leases i)"

definition sched_inv :: "scheduler \<Rightarrow> bool" where
  "sched_inv s \<longleftrightarrow> tbl_wf (sc_waiters s) \<and> inner_inv (sc_inner s) (tbl_keys (sc_waiters s))"

lemma tbl_keys_remove: "tbl_keys (tbl_remove k t) = tbl_keys t - {k}"
  by (auto simp: tbl_keys_def tbl_remove_def tbl_retain_def)

lemma tbl_keys_filter: "tbl_keys (filter P t) \<subseteq> tbl_keys t"
  by (auto simp: tbl_keys_def)

lemma conns_ok_connect: "conns_ok c \<Longrightarrow> conns_ok (connect w chan c)"
  using set_tbl_insert [of w "\<lparr>cn_open = chan, cn_inflight = 0\<rparr>" c] by (auto simp: conns_ok_def connect_def)

lemma conns_ok_disconnect: "conns_ok c \<Longrightarrow> conns_ok (disconnect w c)"
  by (simp add: conns_ok_def disconnect_def) (auto simp: tbl_remove_def tbl_retain_def)

section \<open>Leases\<close>

lemma not_busy_iff: "\<not> is_worker_busy t w \<longleftrightarrow> w \<notin> set (map (\<lambda>(_, l). ls_worker l) t)"
  by (auto simp: is_worker_busy_def list_ex_iff)

lemma set_map_tbl_insert: "set (map f (tbl_insert k v t)) \<subseteq> insert (f (k, v)) (set (map f t))"
  using set_tbl_insert [of k v t] by auto

lemma tbl_insert_map_distinct:
  "distinct (map f t) \<Longrightarrow> f (k, v) \<notin> set (map f t) \<Longrightarrow> distinct (map f (tbl_insert k v t))"
proof (induction k v t rule: tbl_insert.induct)
  case (2 k v p t)
  have "f p \<notin> set (map f (tbl_insert k v t))"
    using 2(2,3) set_map_tbl_insert [of f k v t] by auto
  with 2 show ?case by auto
qed simp

lemma leases_ok_insert:
  assumes "leases_ok t" "\<not> is_worker_busy t w" "pj_attempts pj < MAX_ATTEMPTS"
  shows "leases_ok (lease_insert (pj_job_id pj) w dl pj t)"
proof -
  have "distinct (map (\<lambda>(_, l). ls_worker l) (lease_insert (pj_job_id pj) w dl pj t))"
    using tbl_insert_map_distinct [of "\<lambda>(_, l). ls_worker l" t "pj_job_id pj"] assms
    by (simp add: leases_ok_def not_busy_iff lease_insert_def)
  moreover have "\<forall>(j, l) \<in> set (lease_insert (pj_job_id pj) w dl pj t).
      pj_job_id (ls_payload l) = j \<and> pj_attempts (ls_payload l) < MAX_ATTEMPTS"
    using assms set_tbl_insert [of "pj_job_id pj" _ t] by (fastforce simp: leases_ok_def lease_insert_def)
  ultimately show ?thesis using assms by (simp add: leases_ok_def lease_insert_def)
qed

lemma leases_ok_filter: "leases_ok t \<Longrightarrow> leases_ok (filter P t)"
  by (auto simp: leases_ok_def tbl_wf_def distinct_map_filter sorted_wrt_filter filter_map [symmetric] sorted_wrt_map)

lemma leases_ok_remove: "leases_ok t \<Longrightarrow> leases_ok (tbl_remove j t)"
  using leases_ok_filter [of t "\<lambda>(k, _). k \<noteq> j"] by (simp add: tbl_remove_def tbl_retain_def)

lemma renew_worker_maps:
  "map fst (snd (renew_worker w dl t)) = map fst t"
  "map (\<lambda>(_, l). ls_worker l) (snd (renew_worker w dl t)) = map (\<lambda>(_, l). ls_worker l) t"
  "map (\<lambda>(j, l). (j, ls_payload l)) (snd (renew_worker w dl t)) = map (\<lambda>(j, l). (j, ls_payload l)) t"
  by (induction t) (auto simp: renew_worker_def)

lemma leases_ok_payloads:
  "(\<forall>(j, l) \<in> set t. pj_job_id (ls_payload l) = j \<and> pj_attempts (ls_payload l) < MAX_ATTEMPTS) \<longleftrightarrow>
   (\<forall>(j, p) \<in> set (map (\<lambda>(j, l). (j, ls_payload l)) t). pj_job_id p = j \<and> pj_attempts p < MAX_ATTEMPTS)"
  by auto

lemma leases_ok_renew:
  assumes "leases_ok t"
  shows "leases_ok (snd (renew_worker w dl t))" "tbl_keys (snd (renew_worker w dl t)) = tbl_keys t"
proof -
  show "leases_ok (snd (renew_worker w dl t))"
    using assms unfolding leases_ok_def leases_ok_payloads tbl_wf_def by (simp only: renew_worker_maps) blast
  show "tbl_keys (snd (renew_worker w dl t)) = tbl_keys t"
    using arg_cong [OF renew_worker_maps(1), of set w dl t] by (simp add: tbl_keys_def)
qed

section \<open>Requeueing\<close>

lemma push_entries [simp]: "\<exists>st. fq_entries (fq_push t j q) = fq_entries q @ [\<lparr>fe_start = st, fe_job = j\<rparr>]"
  by (simp add: fq_push_def Let_def)

lemma inner_inv_push:
  assumes "inner_inv i W" "pj_attempts pj < MAX_ATTEMPTS" "pj_job_id pj \<notin> W"
  shows "inner_inv (i\<lparr>in_pending := fq_push t pj (in_pending i)\<rparr>) (insert (pj_job_id pj) W)"
proof -
  obtain st where "fq_entries (fq_push t pj (in_pending i)) = fq_entries (in_pending i) @ [\<lparr>fe_start = st, fe_job = pj\<rparr>]"
    using push_entries [of t pj "in_pending i"] by (elim exE)
  with assms show ?thesis by (auto simp: inner_inv_def pending_ids_def)
qed

lemma requeue_taken_inv:
  assumes "inner_inv i W" "distinct (map fst jobs)" "fst ` set jobs \<inter> W = {}" "\<forall>(j, pj) \<in> set jobs. pj_job_id pj = j"
    and "requeue_taken jobs i = ((n, give_up), i')"
  shows "inner_inv i' (W \<union> (fst ` set jobs - set give_up)) \<and> set give_up \<subseteq> fst ` set jobs \<and>
    in_connected i' = in_connected i \<and> in_leases i' = in_leases i \<and> in_locality i' = in_locality i \<and>
    in_tenant_inflight i' = in_tenant_inflight i"
  using assms
proof (induction jobs arbitrary: i W n give_up)
  case (Cons p jobs)
  obtain j pj where p: "p = (j, pj)" by (cases p)
  let ?pj = "pj\<lparr>pj_attempts := pj_attempts pj + 1\<rparr>"
  have id: "pj_job_id ?pj = j" using Cons.prems(4) by (simp add: p)
  show ?case
  proof (cases "pj_attempts ?pj \<ge> MAX_ATTEMPTS")
    case True
    then obtain g where g: "requeue_taken jobs i = ((n, g), i')" "give_up = j # g"
      using Cons.prems(5) by (auto simp: p Let_def split: prod.splits)
    have "j \<notin> fst ` set jobs" using Cons.prems(2) by (simp add: p)
    with Cons.IH [OF Cons.prems(1) _ _ _ g(1)] Cons.prems g(2) show ?thesis by (auto simp: p)
  next
    case False
    let ?i = "i\<lparr>in_pending := fq_push (pj_tenant ?pj) ?pj (in_pending i)\<rparr>"
    from False obtain m where m: "requeue_taken jobs ?i = ((m, give_up), i')" 
      using Cons.prems(5) by (auto simp: p Let_def split: prod.splits)
    have "inner_inv ?i (insert j W)"
      using inner_inv_push [OF Cons.prems(1), of ?pj "pj_tenant ?pj"] False Cons.prems(3) id by (simp add: p)
    moreover have "fst ` set jobs \<inter> insert j W = {}" "j \<notin> fst ` set jobs"
      using Cons.prems(2,3) by (auto simp: p)
    ultimately have "inner_inv i' (insert j W \<union> (fst ` set jobs - set give_up)) \<and> set give_up \<subseteq> fst ` set jobs \<and>
        in_connected i' = in_connected ?i \<and> in_leases i' = in_leases ?i \<and> in_locality i' = in_locality ?i \<and>
        in_tenant_inflight i' = in_tenant_inflight ?i"
      using Cons.IH [OF _ _ _ _ m, of "insert j W"] Cons.prems(2,4) by (simp add: p)
      moreover have "W \<union> (fst ` set (p # jobs) - set give_up) = insert j W \<union> (fst ` set jobs - set give_up)"
      if "set give_up \<subseteq> fst ` set jobs" using that \<open>j \<notin> fst ` set jobs\<close> by (auto simp: p)
    ultimately show ?thesis by (simp add: p) blast
  qed
qed simp

lemma fail_jobs_frame [simp]: "sc_inner (fail_jobs js s) = sc_inner s"
  by (induction js arbitrary: s) (simp_all add: fail_jobs_def)

lemma drop_waiter_keys [simp]: "tbl_keys (sc_waiters (drop_waiter j s)) = tbl_keys (sc_waiters s) - {j}"
  by (auto simp: drop_waiter_def tbl_keys_remove tbl_get_None_iff split: option.splits)

lemma drop_waiter_wf [simp]: "tbl_wf (sc_waiters s) \<Longrightarrow> tbl_wf (sc_waiters (drop_waiter j s))"
  by (simp add: drop_waiter_def split: option.splits)

lemma fail_jobs_waiters:
  "tbl_wf (sc_waiters s) \<Longrightarrow>
   tbl_wf (sc_waiters (fail_jobs js s)) \<and> tbl_keys (sc_waiters (fail_jobs js s)) = tbl_keys (sc_waiters s) - set js"
  by (induction js arbitrary: s) (auto simp: fail_jobs_def)

section \<open>Dispatch\<close>

lemma best_slot_spec:
  "best_slot cands best slots = Some (idx, ws, st) \<Longrightarrow>
     (best = Some (idx, ws, st) \<or> (\<exists>pj. (idx, st, pj) \<in> set slots \<and> ws = cands pj \<and> ws \<noteq> [])) \<and>
     (\<forall>j st' pj. (j, st', pj) \<in> set slots \<longrightarrow> cands pj \<noteq> [] \<longrightarrow> st \<le> st') \<and>
     (\<forall>j ws' st'. best = Some (j, ws', st') \<longrightarrow> st \<le> st')"
proof (induction cands best slots rule: best_slot.induct)
  case (2 cands best i start pj slots)
  show ?case
  proof (cases "case best of Some (_, _, incumbent) \<Rightarrow> start \<ge> incumbent | None \<Rightarrow> False")
    case True
    then obtain j ws' st' where "best = Some (j, ws', st')" "st' \<le> start" by (auto split: option.splits)
    with 2(1) [OF True] 2(3) True show ?thesis by (fastforce intro: le_trans)
  next
    case False
    have below: "start < st'" if "best = Some (j, ws', st')" for j ws' st' using False that by simp
    show ?thesis
    proof (cases "cands pj = []")
      case True
      with 2(2) [OF False] 2(3) False show ?thesis by fastforce
    next
      case nonempty: False
      with 2(2) [OF False] 2(3) False below show ?thesis by (fastforce intro: less_imp_le order.strict_implies_order le_trans)
    qed
  qed
qed simp

lemma best_slot_None:
  "best_slot cands best slots = None \<longleftrightarrow> best = None \<and> (\<forall>j st pj. (j, st, pj) \<in> set slots \<longrightarrow> cands pj = [])"
  by (induction cands best slots rule: best_slot.induct) (auto split: option.splits, blast)

lemma slots_set: "(j, st, pj) \<in> set (fq_slots q) \<longleftrightarrow>
    j < length (fq_entries q) \<and> st = fe_start (fq_entries q ! j) \<and> pj = fe_job (fq_entries q ! j)"
  by (force simp: fq_slots_def in_set_enumerate_eq)

lemma entry_slot:
  "e \<in> set (fq_entries q) \<Longrightarrow> \<exists>j. (j, fe_start e, fe_job e) \<in> set (fq_slots q)"
proof -
  assume "e \<in> set (fq_entries q)"
  then obtain j where "j < length (fq_entries q)" "fq_entries q ! j = e" by (metis in_set_conv_nth)
  then have "(j, fe_start e, fe_job e) \<in> set (fq_slots q)" by (simp add: slots_set)
  then show ?thesis ..
qed

lemma candidates_idle:
  "w \<in> set (candidates_for g now i pj) \<Longrightarrow> is_connected (in_connected i) w \<and> \<not> is_worker_busy (in_leases i) w"
  by (auto simp: candidates_for_def connected_ids_def is_connected_def tbl_get_None_iff tbl_keys_def split: option.splits)

lemma take_entries:
  assumes "fq_take idx q = (Some pj, q')"
  shows "fe_job (fq_entries q ! idx) = pj" "mset (fq_entries q) = add_mset (fq_entries q ! idx) (mset (fq_entries q'))"
  using fq_take_SomeD [OF assms] swap_remove_mset [of idx "fq_entries q"] by simp_all

lemma inner_inv_take:
  assumes "inner_inv i W" "fq_take idx (in_pending i) = (Some pj, q)" "\<not> is_worker_busy (in_leases i) w"
  shows "inner_inv (i\<lparr>in_pending := q, in_leases := lease_insert (pj_job_id pj) w dl pj (in_leases i)\<rparr>) W"
    and "pj_attempts pj < MAX_ATTEMPTS" "pj_job_id pj \<in> W"
proof -
  let ?g = "\<lambda>e. pj_job_id (fe_job e)"
  note t = take_entries [OF assms(2)]
  have m: "mset (pending_ids i) = add_mset (pj_job_id pj) (mset (map ?g (fq_entries q)))"
    using arg_cong [OF t(2), of "image_mset ?g"] by (simp add: pending_ids_def t(1))
  have sub: "set (fq_entries q) \<subseteq> set (fq_entries (in_pending i))"
    using arg_cong [OF t(2), of set_mset] by auto
  have "fq_entries (in_pending i) ! idx \<in> set (fq_entries (in_pending i))"
    using fq_take_SomeD [OF assms(2)] by simp
  then show att: "pj_attempts pj < MAX_ATTEMPTS" using assms(1) t(1) by (auto simp: inner_inv_def)
  have set: "set (pending_ids i) = insert (pj_job_id pj) (set (map ?g (fq_entries q)))"
    using arg_cong [OF m, of set_mset] by simp
  then show "pj_job_id pj \<in> W" using assms(1) by (auto simp: inner_inv_def)
  have "distinct (pj_job_id pj # map ?g (fq_entries q))"
    using assms(1) m by (metis inner_inv_def mset.simps(2) mset_eq_imp_distinct_iff)
  then show "inner_inv (i\<lparr>in_pending := q, in_leases := lease_insert (pj_job_id pj) w dl pj (in_leases i)\<rparr>) W"
    using assms(1) leases_ok_insert [OF _ assms(3) att] set sub
    by (auto simp: inner_inv_def pending_ids_def lease_insert_def)
qed

lemma inner_inv_complete:
  assumes "inner_inv i W" "j \<notin> set (pending_ids i)"
  shows "inner_inv (i\<lparr>in_leases := tbl_remove j (in_leases i)\<rparr>) (W - {j})"
  using assms leases_ok_remove [of "in_leases i" j] by (auto simp: inner_inv_def pending_ids_def tbl_keys_remove)

lemma inner_inv_connected:
  "inner_inv i W \<Longrightarrow> conns_ok c \<Longrightarrow> inner_inv (i\<lparr>in_connected := c\<rparr>) W"
  by (simp add: inner_inv_def pending_ids_def)

lemma send_failed_inv:
  assumes "sched_inv s" "pj_job_id pj \<in> tbl_keys (in_leases (sc_inner s))"
  shows "sched_inv (send_failed w pj s)"
proof -
  let ?j = "pj_job_id pj" let ?i = "sc_inner s" let ?W = "tbl_keys (sc_waiters s)"
  let ?pj = "pj\<lparr>pj_attempts := pj_attempts pj + 1\<rparr>"
  define i1 where "i1 = ?i\<lparr>in_leases := tbl_remove ?j (in_leases ?i), in_connected := disconnect w (in_connected ?i)\<rparr>"
  have inv: "inner_inv ?i ?W" "tbl_wf (sc_waiters s)" using assms(1) by (simp_all add: sched_inv_def)
  have j: "?j \<notin> set (pending_ids ?i)" "?j \<in> ?W" using inv(1) assms(2) by (auto simp: inner_inv_def)
  have i1: "inner_inv i1 (?W - {?j})"
    using inner_inv_connected [OF inner_inv_complete [OF inv(1) j(1)], of "disconnect w (in_connected ?i)"] inv(1)
    by (simp add: i1_def conns_ok_disconnect inner_inv_def)
  show ?thesis
  proof (cases "MAX_ATTEMPTS \<le> Suc (pj_attempts pj)")
    case True
    with i1 inv(2) show ?thesis
      by (simp add: send_failed_def Let_def sched_inv_def lease_complete_def i1_def)
  next
    case False
    then have "inner_inv (i1\<lparr>in_pending := fq_push (pj_tenant ?pj) ?pj (in_pending i1)\<rparr>) (insert ?j (?W - {?j}))"
      using inner_inv_push [OF i1, of ?pj "pj_tenant ?pj"] by simp
    with False inv(2) j(2) show ?thesis
      by (simp add: send_failed_def Let_def sched_inv_def lease_complete_def i1_def insert_absorb)
  qed
qed

text \<open>What dispatch leaves alone.\<close>

definition same_policy :: "scheduler \<Rightarrow> scheduler \<Rightarrow> bool" where
  "same_policy s s' \<longleftrightarrow>
     sc_strategy s' = sc_strategy s \<and> sc_worker_registry s' = sc_worker_registry s \<and>
     sc_max_concurrent_per_tenant s' = sc_max_concurrent_per_tenant s \<and>
     in_tenant_inflight (sc_inner s') = in_tenant_inflight (sc_inner s)"

lemma same_policy_refl [simp]: "same_policy s s"
  by (simp add: same_policy_def)

lemma same_policy_trans: "same_policy a b \<Longrightarrow> same_policy b c \<Longrightarrow> same_policy a c"
  by (simp add: same_policy_def)

lemma same_policy_drop [simp]: "same_policy s (drop_waiter j s)"
  by (simp add: same_policy_def drop_waiter_def split: option.splits)

lemma same_policy_fail [simp]: "same_policy s (fail_jobs js s)"
  by (induction js arbitrary: s) (auto simp: fail_jobs_def intro: same_policy_trans [OF same_policy_drop])

lemma same_policy_send_failed: "same_policy s (send_failed w pj s)"
  by (auto simp: send_failed_def Let_def intro!: same_policy_trans [OF _ same_policy_drop]) (simp_all add: same_policy_def)

context strategy
begin

lemma place_one_placed:
  assumes "place_one now s = (Some (w, chan, pj), s')" "sc_strategy s = pick"
  obtains idx q where "fq_take idx (in_pending (sc_inner s)) = (Some pj, q)"
    "w \<in> set (candidates_for (sc_worker_registry s) now (sc_inner s) pj)"
    "s' = s\<lparr>sc_inner := (sc_inner s)\<lparr>in_pending := q,
       in_leases := lease_insert (pj_job_id pj) w (now + pj_lease_duration pj) pj (in_leases (sc_inner s))\<rparr>\<rparr>"
    "\<forall>e \<in> set (fq_entries (in_pending (sc_inner s))).
       candidates_for (sc_worker_registry s) now (sc_inner s) (fe_job e) \<noteq> [] \<longrightarrow>
       fe_start (fq_entries (in_pending (sc_inner s)) ! idx) \<le> fe_start e"
  using assms(1)
proof (rule place_one_SomeE)
  fix idx start ws q ctx
  assume b: "best_slot (candidates_for (sc_worker_registry s) now (sc_inner s)) None
      (fq_slots (in_pending (sc_inner s))) = Some (idx, ws, start)"
    and p: "sc_strategy s (sort ws) ctx = Some w" and t: "fq_take idx (in_pending (sc_inner s)) = (Some pj, q)"
    and s': "s' = s\<lparr>sc_inner := (sc_inner s)\<lparr>in_pending := q,
       in_leases := lease_insert (pj_job_id pj) w (now + pj_lease_duration pj) pj (in_leases (sc_inner s))\<rparr>\<rparr>"
  note spec = best_slot_spec [OF b]
  have slot: "(idx, start, pj) \<in> set (fq_slots (in_pending (sc_inner s)))"
    "ws = candidates_for (sc_worker_registry s) now (sc_inner s) pj"
    using spec fq_take_SomeD [OF t] by (auto simp: slots_set)
  have "w \<in> set ws" using chosen_mem [of "sort ws"] p assms(2) by auto
  moreover have "\<forall>e \<in> set (fq_entries (in_pending (sc_inner s))).
      candidates_for (sc_worker_registry s) now (sc_inner s) (fe_job e) \<noteq> [] \<longrightarrow>
      fe_start (fq_entries (in_pending (sc_inner s)) ! idx) \<le> fe_start e"
  proof (intro ballI impI)
    fix e
    assume e: "e \<in> set (fq_entries (in_pending (sc_inner s)))"
      "candidates_for (sc_worker_registry s) now (sc_inner s) (fe_job e) \<noteq> []"
    from entry_slot [OF e(1)] obtain j where "(j, fe_start e, fe_job e) \<in> set (fq_slots (in_pending (sc_inner s)))" ..
    with spec e(2) have "start \<le> fe_start e" by blast
    with slot(1) show "fe_start (fq_entries (in_pending (sc_inner s)) ! idx) \<le> fe_start e" by (simp add: slots_set)
  qed
  ultimately show thesis using that [OF t] slot(2) s' by blast
qed

lemma dispatch_turn_inv:
  assumes "dispatch_turn now s = Some s'" "sched_inv s" "sc_strategy s = pick"
  shows "sched_inv s' \<and> same_policy s s'"
proof -
  from assms(1) obtain w chan pj s1 where p: "place_one now s = (Some (w, chan, pj), s1)"
    and s': "s' = (if chan then s1 else send_failed w pj s1)"
    by (auto simp: dispatch_turn_def split: prod.splits option.splits)
  from p assms(3) obtain idx q where t: "fq_take idx (in_pending (sc_inner s)) = (Some pj, q)"
    and w: "w \<in> set (candidates_for (sc_worker_registry s) now (sc_inner s) pj)"
    and s1: "s1 = s\<lparr>sc_inner := (sc_inner s)\<lparr>in_pending := q,
       in_leases := lease_insert (pj_job_id pj) w (now + pj_lease_duration pj) pj (in_leases (sc_inner s))\<rparr>\<rparr>"
    by (rule place_one_placed)
  have inv: "inner_inv (sc_inner s) (tbl_keys (sc_waiters s))" using assms(2) by (simp add: sched_inv_def)
  have "sched_inv s1"
    using inner_inv_take(1) [OF inv t, of w] candidates_idle [OF w] assms(2) by (simp add: sched_inv_def s1)
  moreover have "pj_job_id pj \<in> tbl_keys (in_leases (sc_inner s1))" by (simp add: s1 lease_insert_def)
  moreover have "same_policy s s1" by (simp add: same_policy_def s1)
  ultimately show ?thesis
    using send_failed_inv same_policy_trans [OF _ same_policy_send_failed] by (simp add: s')
qed

lemma try_dispatch_inv:
  "sched_inv s \<Longrightarrow> sc_strategy s = pick \<Longrightarrow> sched_inv (try_dispatch clock s) \<and> same_policy s (try_dispatch clock s)"
proof (induction clock s rule: try_dispatch.induct)
  case (1 clock s)
  show ?case
  proof (cases "dispatch_turn (clock 0) s")
    case None
    with 1(2) show ?thesis by (simp add: try_dispatch.simps [of clock s])
  next
    case (Some s')
    note turn = dispatch_turn_inv [OF Some 1(2,3)]
    then have "sc_strategy s' = pick" using 1(3) by (simp add: same_policy_def)
    with 1(1) [OF Some] turn show ?thesis
      by (auto simp: try_dispatch.simps [of clock s] Some intro: same_policy_trans)
  qed
qed

lemma place_one_None:
  assumes "fst (place_one now s) = None" "sc_strategy s = pick" "e \<in> set (fq_entries (in_pending (sc_inner s)))"
  shows "candidates_for (sc_worker_registry s) now (sc_inner s) (fe_job e) = []"
proof (cases "best_slot (candidates_for (sc_worker_registry s) now (sc_inner s)) None (fq_slots (in_pending (sc_inner s)))")
  case None
  then show ?thesis using entry_slot [OF assms(3)] unfolding best_slot_None by blast
next
  case (Some b)
  obtain idx ws st where b: "b = (idx, ws, st)" by (cases b)
  from best_slot_spec [OF Some [unfolded b]] obtain pj where
    pj: "(idx, st, pj) \<in> set (fq_slots (in_pending (sc_inner s)))"
      "ws = candidates_for (sc_worker_registry s) now (sc_inner s) pj" "ws \<noteq> []" by auto
  then have idx: "idx < length (fq_entries (in_pending (sc_inner s)))" by (simp add: slots_set)
  have sendable: "\<exists>w. pick (sort ws) ctx = Some w \<and> conn_sender (in_connected (sc_inner s)) w \<noteq> None" for ctx
  proof -
    obtain w where w: "w \<in> set (sort ws)" "pick (sort ws) ctx = Some w"
      using chooses [of "sort ws" ctx] pj(3) by (metis set_empty set_sort)
    then have "is_connected (in_connected (sc_inner s)) w"
      using candidates_idle [of w] pj(2) by auto
    with w(2) show ?thesis by (auto simp: is_connected_def conn_sender_def)
  qed
  let ?win = "fe_job (fq_entries (in_pending (sc_inner s)) ! idx)"
  from sendable [of "\<lparr>dc_loads = in_connected (sc_inner s), dc_locality = in_locality (sc_inner s),
      dc_job = \<lparr>jf_tenant = pj_tenant ?win, jf_action_digest = pj_action_digest ?win,
        jf_input_root_digest = pj_input_root_digest ?win, jf_platform = pj_platform ?win\<rparr>\<rparr>"]
  have "fst (place_one now s) \<noteq> None"
    using Some b idx assms(2) by (auto simp: place_one_def Let_def fq_get_def fq_take_def)
  with assms(1) show ?thesis by simp
qed

lemma try_dispatch_exhausts:
  "sc_strategy s = pick \<Longrightarrow> sched_inv s \<Longrightarrow> \<exists>k. fst (place_one (clock k) (try_dispatch clock s)) = None"
proof (induction clock s rule: try_dispatch.induct)
  case (1 clock s)
  show ?case
  proof (cases "dispatch_turn (clock 0) s")
    case None
    then have "fst (place_one (clock 0) (try_dispatch clock s)) = None"
      by (auto simp: try_dispatch.simps [of clock s] dispatch_turn_def split: prod.splits option.splits)
    then show ?thesis by blast
  next
    case (Some s')
    then have "sched_inv s'" "sc_strategy s' = pick"
      using dispatch_turn_inv [OF Some 1(3,2)] 1(2) by (simp_all add: same_policy_def)
    with 1(1) [OF Some] Some show ?thesis by (auto simp: try_dispatch.simps [of clock s])
  qed
qed

lemma connect_worker_inv:
  assumes "sched_inv s" "sc_strategy s = pick"
  shows "sched_inv (connect_worker clock w chan s) \<and> same_policy s (connect_worker clock w chan s)"
proof -
  let ?s = "s\<lparr>sc_inner := (sc_inner s)\<lparr>in_connected := connect w chan (in_connected (sc_inner s))\<rparr>\<rparr>"
  have "sched_inv ?s" "same_policy s ?s"
    using assms(1) inner_inv_connected [OF _ conns_ok_connect] by (simp_all add: sched_inv_def same_policy_def inner_inv_def pending_ids_def conns_ok_connect)
  with try_dispatch_inv [of ?s clock] assms(2) show ?thesis
    by (auto simp: connect_worker_def intro: same_policy_trans)
qed

lemma requeued_inv:
  assumes "sched_inv s" and drained: "drained = map (\<lambda>(j, l). (j, ls_payload l)) (filter P (in_leases (sc_inner s)))"
    and "conns_ok c" and r: "requeue_taken drained ((sc_inner s)\<lparr>in_connected := c, in_leases := filter (\<lambda>p. \<not> P p) (in_leases (sc_inner s))\<rparr>)
      = ((n, give_up), i)"
  shows "sched_inv (fail_jobs give_up (s\<lparr>sc_inner := i\<rparr>)) \<and> same_policy s (fail_jobs give_up (s\<lparr>sc_inner := i\<rparr>))"
proof -
  let ?i = "sc_inner s" let ?W = "tbl_keys (sc_waiters s)"
  let ?t = "in_leases ?i" let ?kept = "filter (\<lambda>p. \<not> P p) ?t"
  have inv: "inner_inv ?i ?W" "tbl_wf (sc_waiters s)" using assms(1) by (simp_all add: sched_inv_def)
  have t: "leases_ok ?t" using inv(1) by (simp add: inner_inv_def)
  then have dist: "distinct (map fst ?t)" by (simp add: leases_ok_def tbl_wf_distinct)
  have fst: "map fst drained = map fst (filter P ?t)" by (simp add: drained comp_def case_prod_beta)
  have split: "tbl_keys ?t = tbl_keys ?kept \<union> fst ` set drained" "tbl_keys ?kept \<inter> fst ` set drained = {}"
    using arg_cong [OF fst, of set] dist by (auto simp: tbl_keys_def distinct_map inj_on_def)
  have "inner_inv (?i\<lparr>in_connected := c, in_leases := ?kept\<rparr>) (set (pending_ids ?i) \<union> tbl_keys ?kept)"
    using inv(1) assms(3) leases_ok_filter [OF t] split(1) by (auto simp: inner_inv_def pending_ids_def)
  moreover have "distinct (map fst drained)" using dist by (simp add: fst distinct_map_filter)
  moreover have "fst ` set drained \<inter> (set (pending_ids ?i) \<union> tbl_keys ?kept) = {}"
    using inv(1) split by (auto simp: inner_inv_def)
  moreover have "\<forall>(j, pj) \<in> set drained. pj_job_id pj = j" using t by (auto simp: drained leases_ok_def)
  ultimately have i: "inner_inv i (set (pending_ids ?i) \<union> tbl_keys ?kept \<union> (fst ` set drained - set give_up))"
    "set give_up \<subseteq> fst ` set drained" "in_locality i = in_locality ?i" "in_tenant_inflight i = in_tenant_inflight ?i"
    using requeue_taken_inv [OF _ _ _ _ r] by auto
  have "?W - set give_up = set (pending_ids ?i) \<union> tbl_keys ?kept \<union> (fst ` set drained - set give_up)"
    using inv(1) split i(2) by (auto simp: inner_inv_def)
  with i(1) have "inner_inv i (?W - set give_up)" by simp
  moreover have "same_policy s (s\<lparr>sc_inner := i\<rparr>)" using i(3,4) by (simp add: same_policy_def)
  ultimately show ?thesis
    using fail_jobs_waiters [of "s\<lparr>sc_inner := i\<rparr>" give_up] inv(2) same_policy_trans [OF _ same_policy_fail]
    by (simp add: sched_inv_def)
qed

lemma disconnect_worker_inv:
  assumes "sched_inv s" "sc_strategy s = pick"
  shows "sched_inv (disconnect_worker clock w s) \<and> same_policy s (disconnect_worker clock w s)"
proof -
  let ?t = "in_leases (sc_inner s)" let ?P = "\<lambda>(_, l). ls_worker l = w"
  have wf: "tbl_wf ?t" "conns_ok (in_connected (sc_inner s))"
    using assms(1) by (simp_all add: sched_inv_def inner_inv_def leases_ok_def)
  obtain n g i where r: "requeue_taken (map (\<lambda>(j, l). (j, ls_payload l)) (filter ?P ?t))
      ((sc_inner s)\<lparr>in_connected := disconnect w (in_connected (sc_inner s)), in_leases := filter (\<lambda>p. \<not> ?P p) ?t\<rparr>) = ((n, g), i)"
    by (metis old.prod.exhaust)
  note q = requeued_inv [OF assms(1) refl conns_ok_disconnect [OF wf(2)] r]
  have "disconnect_worker clock w s = try_dispatch clock (fail_jobs g (s\<lparr>sc_inner := i\<rparr>))"
    using r by (simp add: disconnect_worker_def take_worker_def drain_filter [OF wf(1)] Let_def)
  with q try_dispatch_inv [of "fail_jobs g (s\<lparr>sc_inner := i\<rparr>)" clock] assms(2) show ?thesis
    by (auto simp: same_policy_def)
qed

lemma reap_inv:
  assumes "sched_inv s" "sc_strategy s = pick"
  shows "sched_inv (reap_expired_at clock now s) \<and> same_policy s (reap_expired_at clock now s)"
proof -
  let ?t = "in_leases (sc_inner s)" let ?P = "\<lambda>(_, l). ls_deadline l \<le> now"
  have wf: "tbl_wf ?t" "conns_ok (in_connected (sc_inner s))"
    using assms(1) by (simp_all add: sched_inv_def inner_inv_def leases_ok_def)
  obtain n g i where r: "requeue_taken (map (\<lambda>(j, l). (j, ls_payload l)) (filter ?P ?t))
      ((sc_inner s)\<lparr>in_connected := in_connected (sc_inner s), in_leases := filter (\<lambda>p. \<not> ?P p) ?t\<rparr>) = ((n, g), i)"
    by (metis old.prod.exhaust)
  note q = requeued_inv [OF assms(1) refl wf(2) r]
  have "reap_expired_at clock now s =
      (if n > 0 then try_dispatch clock (fail_jobs g (s\<lparr>sc_inner := i\<rparr>)) else fail_jobs g (s\<lparr>sc_inner := i\<rparr>))"
    using r by (simp add: reap_expired_at_def take_expired_def drain_filter [OF wf(1)] Let_def)
  with q try_dispatch_inv [of "fail_jobs g (s\<lparr>sc_inner := i\<rparr>)" clock] assms(2) show ?thesis
    by (auto simp: same_policy_def)
qed

end

end
