(* ===== verification/Ctl_Scheduler_Run.thy ===== *)
theory Ctl_Scheduler_Run
  imports Ctl_Scheduler_Inv
begin

text \<open>
  The scheduler over time: every operation of it, a worker's channel closing and the shared
  registry changing are the steps of an inductive relation, and the properties hold in every
  state it reaches.
\<close>

section \<open>Steps\<close>

definition close_channel :: "worker_id \<Rightarrow> scheduler \<Rightarrow> scheduler" where
  "close_channel w s =
     s\<lparr>sc_inner := (sc_inner s)\<lparr>in_connected :=
         map (\<lambda>(v, c). (v, if v = w then c\<lparr>cn_open := False\<rparr> else c)) (in_connected (sc_inner s))\<rparr>\<rparr>"

inductive sched_reach :: "strategy_fn \<Rightarrow> nat option \<Rightarrow> scheduler \<Rightarrow> bool" for pick quota where
  start: "sched_reach pick quota (scheduler_build t g pick quota)"
| connected: "sched_reach pick quota s \<Longrightarrow> sched_reach pick quota (connect_worker clock w chan s)"
| disconnected: "sched_reach pick quota s \<Longrightarrow> sched_reach pick quota (disconnect_worker clock w s)"
| closed: "sched_reach pick quota s \<Longrightarrow> sched_reach pick quota (close_channel w s)"
| reaped: "sched_reach pick quota s \<Longrightarrow> sched_reach pick quota (reap_expired_at clock now s)"
| renewed: "sched_reach pick quota s \<Longrightarrow> sched_reach pick quota (snd (renew_worker_leases now w s))"
| reported: "sched_reach pick quota s \<Longrightarrow> sched_reach pick quota (snd (report clock ms r s))"
| began: "sched_reach pick quota s \<Longrightarrow> fresh \<notin> tbl_keys (sc_waiters s) \<Longrightarrow>
    sched_reach pick quota (snd (execute_begin env clock fresh d skip tenant s))"
| finished: "sched_reach pick quota s \<Longrightarrow>
    sched_reach pick quota (snd (execute_finish env j d tenant timeout ending s))"
| registry: "sched_reach pick quota s \<Longrightarrow> sched_reach pick quota (s\<lparr>sc_worker_registry := g\<rparr>)"

section \<open>Preservation\<close>

definition quota_ok :: "nat option \<Rightarrow> scheduler \<Rightarrow> bool" where
  "quota_ok quota s \<longleftrightarrow>
     sc_max_concurrent_per_tenant s = quota \<and> tbl_wf (in_tenant_inflight (sc_inner s)) \<and>
     (\<forall>limit t. quota = Some limit \<longrightarrow> tenant_inflight (sc_inner s) t \<le> limit)"

lemma tenant_inflight_pending [simp]: "tenant_inflight (i\<lparr>in_pending := q\<rparr>) t = tenant_inflight i t"
  by (simp add: tenant_inflight_def)

lemma quota_ok_cong:
  "same_policy s s' \<Longrightarrow> quota_ok quota s \<Longrightarrow> quota_ok quota s'"
proof -
  assume "same_policy s s'" "quota_ok quota s"
  moreover from this have "tenant_inflight (sc_inner s') t = tenant_inflight (sc_inner s) t" for t
    by (simp add: tenant_inflight_def same_policy_def)
  ultimately show ?thesis by (simp add: quota_ok_def same_policy_def split: option.splits)
qed

lemma remove_absent: "tbl_get t j = None \<Longrightarrow> tbl_remove j t = t"
  by (force simp: tbl_remove_def tbl_retain_def tbl_get_def map_of_eq_None_iff intro!: filter_True)

lemma close_channel_inv: "sched_inv s \<Longrightarrow> sched_inv (close_channel w s) \<and> same_policy s (close_channel w s)"
proof -
  assume s: "sched_inv s"
  let ?f = "map (\<lambda>(v, c). (v, if v = w then c\<lparr>cn_open := False\<rparr> else c))"
  have keys: "map fst (?f c) = map fst c" for c by (induction c) auto
  have "tbl_wf (?f c) \<longleftrightarrow> tbl_wf c" for c by (simp only: tbl_wf_def keys)
  then have "conns_ok c \<Longrightarrow> conns_ok (?f c)" for c by (auto simp: conns_ok_def)
  with s show ?thesis
    by (auto simp: sched_inv_def close_channel_def same_policy_def inner_inv_def pending_ids_def)
qed

lemma renew_inv:
  assumes "sched_inv s"
  shows "sched_inv (snd (renew_worker_leases now w s)) \<and> same_policy s (snd (renew_worker_leases now w s))"
proof -
  have "leases_ok (in_leases (sc_inner s))" using assms by (simp add: sched_inv_def inner_inv_def)
  from leases_ok_renew [OF this, of w "now + sc_lease_duration s"] assms show ?thesis
    by (auto simp: renew_worker_leases_def case_prod_beta sched_inv_def inner_inv_def pending_ids_def same_policy_def)
qed

lemma completed_inv:
  assumes "sched_inv s" "tbl_get (in_leases (sc_inner s)) j \<noteq> None"
    and "i = (sc_inner s)\<lparr>in_leases := tbl_remove j (in_leases (sc_inner s)), in_locality := x, in_job_history := h\<rparr>"
  shows "sched_inv (send_result j r (s\<lparr>sc_inner := i\<rparr>)) \<and> same_policy s (send_result j r (s\<lparr>sc_inner := i\<rparr>))"
proof -
  let ?W = "tbl_keys (sc_waiters s)"
  have inv: "inner_inv (sc_inner s) ?W" "tbl_wf (sc_waiters s)" using assms(1) by (simp_all add: sched_inv_def)
  have j: "j \<in> tbl_keys (in_leases (sc_inner s))" using assms(2) by (simp add: tbl_get_None_iff)
  then have "j \<notin> set (pending_ids (sc_inner s))" "j \<in> ?W" using inv(1) by (auto simp: inner_inv_def)
  moreover from this have "tbl_get (sc_waiters s) j \<noteq> None" by (simp add: tbl_get_None_iff)
  moreover have "inner_inv i (?W - {j})"
    using inner_inv_complete [OF inv(1) calculation(1)] by (simp add: assms(3) inner_inv_def pending_ids_def)
  ultimately show ?thesis
    using inv(2) by (auto simp: send_result_def sched_inv_def same_policy_def tbl_keys_remove assms(3))
qed

lemma execute_begin_cases:
  fixes s fresh
  defines "s1 \<equiv> s\<lparr>sc_waiters := tbl_insert fresh () (sc_waiters s)\<rparr>"
  shows "snd (execute_begin env clock fresh d skip tenant s) = s \<or>
    (\<exists>pj l s0. admit pj s1 = (Some l, s0) \<and>
       snd (execute_begin env clock fresh d skip tenant s) = s0\<lparr>sc_waiters := tbl_remove fresh (sc_waiters s0)\<rparr>) \<or>
    (\<exists>pj s0 c. admit pj s1 = (None, s0) \<and> pj_job_id pj = fresh \<and> pj_attempts pj = 0 \<and>
       snd (execute_begin env clock fresh d skip tenant s) = try_dispatch c s0)"
proof (cases "lookup_cached env skip d")
  case (Inl e)
  then show ?thesis by (simp add: execute_begin_def)
next
  case look: (Inr found)
  show ?thesis
  proof (cases found)
    case (Some r)
    with look show ?thesis by (simp add: execute_begin_def)
  next
    case None
    note look = look [unfolded None]
    show ?thesis
    proof (cases "fetch_inputs env d")
      case (Inl e)
      with look show ?thesis by (simp add: execute_begin_def)
    next
      case (Inr ac)
      obtain a c where ac: "ac = (a, c)" by (cases ac)
      define pj where "pj = \<lparr>pj_job_id = fresh, pj_tenant = tenant,
        pj_job = \<lparr>jm_job_id = fresh, jm_action_digest = d, jm_action = a, jm_command = c\<rparr>,
        pj_platform = resolve_platform a c, pj_lease_duration = min (effective_timeout s a) (sc_lease_duration s),
        pj_attempts = 0, pj_action_digest = d, pj_input_root_digest = digest_option (ac_input_root_digest a)\<rparr>"
      obtain over s0 where adm: "admit pj s1 = (over, s0)" by (cases "admit pj s1")
      show ?thesis
      proof (cases "case sc_worker_registry s of Some g \<Rightarrow> eligible_workers g (clock 0) (resolve_platform a c) = [] | None \<Rightarrow> False")
        case True
        with look Inr ac show ?thesis by (simp add: execute_begin_def Let_def)
      next
        case False
        then have "execute_begin env clock fresh d skip tenant s =
            (case admit pj s1 of
               (Some limit, s2) \<Rightarrow> (Inl (Inl (QuotaExceeded limit)), s2\<lparr>sc_waiters := tbl_remove fresh (sc_waiters s2)\<rparr>)
             | (None, s2) \<Rightarrow> (Inr (effective_timeout s a), try_dispatch (\<lambda>n. clock (Suc n)) s2))"
          using look Inr ac by (simp add: execute_begin_def Let_def pj_def s1_def)
        moreover have "pj_job_id pj = fresh" "pj_attempts pj = 0" by (simp_all add: pj_def)
        ultimately show ?thesis using adm by (cases over) (simp_all, blast+)
      qed
    qed
  qed
qed

context strategy
begin

lemma report_inv:
  assumes "sched_inv s" "sc_strategy s = pick"
  shows "sched_inv (snd (report clock ms r s)) \<and> same_policy s (snd (report clock ms r s))"
proof (cases "job_id_new (jr_job_id r)")
  case (Inl e)
  with assms show ?thesis by (simp add: report_def)
next
  case (Inr j)
  show ?thesis
  proof (cases "tbl_get (in_leases (sc_inner s)) j")
    case None
    with Inr assms show ?thesis
      by (simp add: report_def Let_def worker_of_def lease_complete_def remove_absent)
  next
    case (Some l)
    let ?pj = "ls_payload l"
    let ?i = "(sc_inner s)\<lparr>in_leases := tbl_remove j (in_leases (sc_inner s)),
      in_locality := locality_record (ls_worker l) (pj_action_digest ?pj) (pj_input_root_digest ?pj) (in_locality (sc_inner s)),
      in_job_history := history_record (report_summary s ms (ls_worker l) ?pj r) (in_job_history (sc_inner s))\<rparr>"
    let ?s = "send_result j r (s\<lparr>sc_inner := ?i\<rparr>)"
    have "sched_inv ?s" "same_policy s ?s" using completed_inv [OF assms(1) _ refl] Some by simp_all
    moreover have "snd (report clock ms r s) = try_dispatch clock ?s"
      using Some by (simp add: report_def Inr Let_def worker_of_def lease_complete_def)
    ultimately show ?thesis
      using try_dispatch_inv [of ?s clock] assms(2) by (auto simp: same_policy_def)
  qed
qed

lemma admit_inv:
  assumes "inner_inv (sc_inner s) W" "quota_ok quota s" "pj_job_id pj \<notin> W" "pj_attempts pj = 0"
    and "admit pj s = (over, s')"
  shows "(case over of None \<Rightarrow> inner_inv (sc_inner s') (insert (pj_job_id pj) W) | Some _ \<Rightarrow> s' = s) \<and>
    quota_ok quota s' \<and> sc_strategy s' = sc_strategy s \<and> sc_waiters s' = sc_waiters s"
proof -
  let ?i = "inc_tenant (pj_tenant pj) (sc_inner s)"
  have "inner_inv ?i W" using assms(1) by (simp add: inc_tenant_def inner_inv_def pending_ids_def)
  then have "inner_inv (?i\<lparr>in_pending := fq_push (pj_tenant pj) pj (in_pending ?i)\<rparr>) (insert (pj_job_id pj) W)"
    using inner_inv_push assms(3,4) by (simp add: MAX_ATTEMPTS_def)
  moreover have "tbl_wf (in_tenant_inflight ?i)" using assms(2) by (simp add: inc_tenant_def quota_ok_def)
  moreover have "tenant_inflight ?i t = (if t = pj_tenant pj then tenant_inflight (sc_inner s) t + 1 else tenant_inflight (sc_inner s) t)" for t
    by (simp add: inc_tenant_def tenant_inflight_def table_simps)
  ultimately show ?thesis
    using assms(2,5) by (auto simp: admit_def quota_ok_def Let_def split: option.splits if_splits)
qed

lemma execute_begin_inv:
  assumes "sched_inv s" "sc_strategy s = pick" "quota_ok quota s" "fresh \<notin> tbl_keys (sc_waiters s)"
  shows "sched_inv (snd (execute_begin env clock fresh d skip tenant s)) \<and>
    sc_strategy (snd (execute_begin env clock fresh d skip tenant s)) = pick \<and>
    quota_ok quota (snd (execute_begin env clock fresh d skip tenant s))"
proof -
  have inv: "inner_inv (sc_inner s) (tbl_keys (sc_waiters s))" "tbl_wf (sc_waiters s)"
    using assms(1) by (simp_all add: sched_inv_def)
  let ?s = "s\<lparr>sc_waiters := tbl_insert fresh () (sc_waiters s)\<rparr>"
  have same: "tbl_remove fresh (tbl_insert fresh () (sc_waiters s)) = sc_waiters s"
    using tbl.rem_ins_absent [OF inv(2)] assms(4) by (simp add: tbl_get_None_iff)
  have "sched_inv s1 \<and> sc_strategy s1 = pick \<and> quota_ok quota s1"
    if "admit pj ?s = (None, s0)" "pj_job_id pj = fresh" "pj_attempts pj = 0" "s1 = try_dispatch c s0" for pj s0 s1 c
  proof -
    have "quota_ok quota ?s" using assms(3) by (simp add: quota_ok_def split: option.splits)
    then have "inner_inv (sc_inner s0) (insert fresh (tbl_keys (sc_waiters s))) \<and> quota_ok quota s0 \<and>
        sc_strategy s0 = pick \<and> sc_waiters s0 = tbl_insert fresh () (sc_waiters s)"
      using admit_inv [of ?s "tbl_keys (sc_waiters s)" quota pj None s0] inv assms(2,4) that by simp
    then have "sched_inv s0" "sc_strategy s0 = pick" "quota_ok quota s0" using inv(2) by (simp_all add: sched_inv_def)
    with try_dispatch_inv [of s0 c] quota_ok_cong show ?thesis by (auto simp: that(4) same_policy_def)
  qed
  moreover have "s0\<lparr>sc_waiters := tbl_remove fresh (sc_waiters s0)\<rparr> = s" if "admit pj ?s = (Some l, s0)" for pj l s0
    using that same by (auto simp: admit_def split: option.splits if_splits)
  ultimately show ?thesis
    using execute_begin_cases [of env clock fresh d skip tenant s] assms(1-3) by metis
qed

lemma give_up_waiting_inv:
  assumes "sched_inv s"
  shows "sched_inv (give_up_waiting j s) \<and> same_policy s (give_up_waiting j s)"
proof -
  have inv: "inner_inv (sc_inner s) (tbl_keys (sc_waiters s))" "tbl_wf (sc_waiters s)"
    using assms by (simp_all add: sched_inv_def)
  let ?q = "fq_retain (\<lambda>p. pj_job_id p \<noteq> j) (in_pending (sc_inner s))"
  have ids: "map (\<lambda>e. pj_job_id (fe_job e)) (fq_entries ?q) = filter (\<lambda>k. k \<noteq> j) (pending_ids (sc_inner s))"
    by (simp add: fq_retain_def pending_ids_def filter_map comp_def)
  have "leases_ok (tbl_remove j (in_leases (sc_inner s)))" using inv(1) leases_ok_remove by (simp add: inner_inv_def)
  moreover have "distinct (filter (\<lambda>k. k \<noteq> j) (pending_ids (sc_inner s)))" using inv(1) by (simp add: inner_inv_def)
  moreover have "\<forall>e \<in> set (fq_entries ?q). pj_attempts (fe_job e) < MAX_ATTEMPTS"
    using inv(1) by (auto simp: inner_inv_def fq_retain_def)
  ultimately show ?thesis
    using inv by (auto simp: give_up_waiting_def sched_inv_def same_policy_def inner_inv_def lease_complete_def
        tbl_keys_remove pending_ids_def ids [unfolded pending_ids_def])
qed

lemma store_result_frame:
  "same_policy s (snd (store_result env d r s))" "sched_inv s \<Longrightarrow> sched_inv (snd (store_result env d r s))"
  by (simp_all add: store_result_def same_policy_def sched_inv_def split: sum.splits cache_answer.splits)

lemma dec_tenant_le: "tbl_wf (in_tenant_inflight i) \<Longrightarrow> tenant_inflight (dec_tenant t i) u \<le> tenant_inflight i u"
  by (auto simp: dec_tenant_def tenant_inflight_def table_simps sat_sub_def split: option.splits)

lemma dec_tenant_frame:
  "inner_inv i W \<Longrightarrow> inner_inv (dec_tenant t i) W"
  "tbl_wf (in_tenant_inflight i) \<Longrightarrow> tbl_wf (in_tenant_inflight (dec_tenant t i))"
  by (auto simp: dec_tenant_def inner_inv_def pending_ids_def split: option.splits)

lemma dec_tenant_quota:
  assumes "quota_ok quota s"
  shows "quota_ok quota (s\<lparr>sc_inner := dec_tenant t (sc_inner s)\<rparr>)"
proof -
  have "tbl_wf (in_tenant_inflight (sc_inner s))" using assms by (simp add: quota_ok_def)
  from dec_tenant_le [OF this] dec_tenant_frame(2) [OF this] assms show ?thesis
    by (simp add: quota_ok_def) (meson le_trans)
qed

lemma execute_finish_cases:
  "\<exists>s1. snd (execute_finish env j d tenant timeout ending s) = s1\<lparr>sc_inner := dec_tenant tenant (sc_inner s1)\<rparr> \<and>
     (s1 = s \<or> s1 = give_up_waiting j s \<or> (\<exists>r. s1 = snd (store_result env d r s)))"
proof (cases ending)
  case (Reported r)
  show ?thesis
  proof (cases "jr_error_message r \<noteq> [] \<or> jr_result r = None")
    case True
    then show ?thesis by (auto simp: execute_finish_def Reported Let_def split: option.splits)
  next
    case False
    then obtain res where res: "jr_error_message r = []" "jr_result r = Some res" by auto
    obtain out s1 where out: "store_result env d res s = (out, s1)" by (cases "store_result env d res s")
    have "snd (execute_finish env j d tenant timeout ending s) = s1\<lparr>sc_inner := dec_tenant tenant (sc_inner s1)\<rparr>"
      using res out by (cases out) (simp_all add: execute_finish_def Reported Let_def)
    moreover have "s1 = snd (store_result env d res s)" using out by simp
    ultimately show ?thesis by blast
  qed
qed (auto simp: execute_finish_def Let_def)

lemma execute_finish_inv:
  assumes "sched_inv s" "quota_ok quota s"
  shows "sched_inv (snd (execute_finish env j d tenant timeout ending s)) \<and>
    sc_strategy (snd (execute_finish env j d tenant timeout ending s)) = sc_strategy s \<and>
    quota_ok quota (snd (execute_finish env j d tenant timeout ending s))"
proof -
  obtain s1 where s1: "snd (execute_finish env j d tenant timeout ending s) = s1\<lparr>sc_inner := dec_tenant tenant (sc_inner s1)\<rparr>"
    "s1 = s \<or> s1 = give_up_waiting j s \<or> (\<exists>r. s1 = snd (store_result env d r s))"
    using execute_finish_cases by blast
  have "sched_inv s1 \<and> same_policy s s1"
    using s1(2) assms give_up_waiting_inv [OF assms(1), of j] by (auto simp: store_result_frame)
  then have "sched_inv s1" "sc_strategy s1 = sc_strategy s" "quota_ok quota s1"
    using quota_ok_cong [OF _ assms(2)] by (auto simp: same_policy_def)
  with dec_tenant_quota [of quota s1 tenant] dec_tenant_frame(1) show ?thesis by (simp add: s1(1) sched_inv_def)
qed

lemma build_inv: "sched_inv (scheduler_build t g p quota) \<and> quota_ok quota (scheduler_build t g p quota)"
  by (auto simp: sched_inv_def scheduler_build_def inner_new_def inner_inv_def conns_ok_def leases_ok_def lease_new_def
      pending_ids_def fq_new_def tbl_keys_def quota_ok_def tenant_inflight_def split: option.splits)

lemma reach_inv:
  "sched_reach pick quota s \<Longrightarrow> sched_inv s \<and> sc_strategy s = pick \<and> quota_ok quota s"
proof (induction rule: sched_reach.induct)
  case (start t g)
  then show ?case using build_inv by (simp add: scheduler_build_def)
next
  case (connected s clock w chan)
  then show ?case using connect_worker_inv [of s clock w chan] quota_ok_cong by (auto simp: same_policy_def)
next
  case (disconnected s clock w)
  then show ?case using disconnect_worker_inv [of s clock w] quota_ok_cong by (auto simp: same_policy_def)
next
  case (closed s w)
  then show ?case using close_channel_inv [of s w] quota_ok_cong by (auto simp: same_policy_def)
next
  case (reaped s clock now)
  then show ?case using reap_inv [of s clock now] quota_ok_cong by (auto simp: same_policy_def)
next
  case (renewed s now w)
  then show ?case using renew_inv [of s now w] quota_ok_cong by (auto simp: same_policy_def)
next
  case (reported s clock ms r)
  then show ?case using report_inv [of s clock ms r] quota_ok_cong by (auto simp: same_policy_def)
next
  case (began s fresh env clock d skip tenant)
  then show ?case using execute_begin_inv by blast
next
  case (finished s env j d tenant timeout ending)
  then show ?case using execute_finish_inv by metis
next
  case (registry s g)
  then show ?case by (simp add: sched_inv_def quota_ok_def split: option.splits)
qed

end

definition built_in :: "strategy_fn \<Rightarrow> bool" where
  "built_in pick \<longleftrightarrow> pick = choose_with simple_fifo_choose \<or> (\<exists>cap. pick = choose_with (bin_packing_choose cap))"

lemma built_in_inv:
  "built_in pick \<Longrightarrow> sched_reach pick quota s \<Longrightarrow> sched_inv s \<and> sc_strategy s = pick \<and> quota_ok quota s"
  using fifo.reach_inv packing.reach_inv by (auto simp: built_in_def)

lemma built_in_exhausts:
  "built_in pick \<Longrightarrow> sc_strategy s = pick \<Longrightarrow> sched_inv s \<Longrightarrow>
     sched_inv (try_dispatch clock s) \<and> sc_strategy (try_dispatch clock s) = pick \<and>
     (\<exists>k. fst (place_one (clock k) (try_dispatch clock s)) = None)"
  using fifo.try_dispatch_inv fifo.try_dispatch_exhausts packing.try_dispatch_inv packing.try_dispatch_exhausts
  by (auto simp: built_in_def same_policy_def)

lemma built_in_place_None:
  "built_in pick \<Longrightarrow> fst (place_one now s) = None \<Longrightarrow> sc_strategy s = pick \<Longrightarrow>
     e \<in> set (fq_entries (in_pending (sc_inner s))) \<Longrightarrow>
     candidates_for (sc_worker_registry s) now (sc_inner s) (fe_job e) = []"
  using fifo.place_one_None packing.place_one_None by (auto simp: built_in_def)

lemma loads_zero:
  assumes "sched_inv s"
  shows "inflight (in_connected (sc_inner s)) w = 0"
proof -
  have "conns_ok (in_connected (sc_inner s))" using assms by (simp add: sched_inv_def inner_inv_def)
  then show ?thesis by (auto simp: inflight_def conns_ok_def dest: tbl_get_SomeD split: option.splits)
qed

section \<open>A run\<close>

definition demo_env :: exec_env where
  "demo_env =
     \<lparr>ev_get_action_result = (\<lambda>_. NotTheLeader),
      ev_fetch_action = (\<lambda>_. Inr \<lparr>ac_command_digest = Some (replicate 64 CHR ''a'', 1), ac_input_root_digest = None,
        ac_platform = None, ac_timeout = None\<rparr>),
      ev_fetch_command = (\<lambda>_. Inr \<lparr>cm_platform = None\<rparr>), ev_gc_window = Inr (),
      ev_update_action_result = (\<lambda>_ _. NotTheLeader)\<rparr>"

definition demo_digest :: digest where
  "demo_digest = \<lparr>dg_hash = replicate 64 CHR ''b'', dg_size = 7\<rparr>"

definition demo_submit :: "job_id \<Rightarrow> scheduler \<Rightarrow> scheduler" where
  "demo_submit j s = snd (execute_begin demo_env (\<lambda>_. 0) j demo_digest False ''t'' s)"

definition demo_idle :: scheduler where
  "demo_idle = connect_worker (\<lambda>_. 0) ''w1'' True
     (scheduler_build DEFAULT_EXECUTION_TIMEOUT None (choose_with simple_fifo_choose) (Some 2))"

definition demo_busy :: scheduler where
  "demo_busy = demo_submit ''j2'' (demo_submit ''j1'' demo_idle)"

definition view :: "scheduler \<Rightarrow> job_id list \<times> (job_id \<times> worker_id) list \<times> job_id list" where
  "view s = (pending_ids (sc_inner s), map (\<lambda>(j, l). (j, ls_worker l)) (in_leases (sc_inner s)), map fst (sc_waiters s))"

lemma demo_busy_view: "view demo_busy = ([''j2''], [(''j1'', ''w1'')], [''j1'', ''j2''])"
  by code_simp

lemma demo_reach: "sched_reach (choose_with simple_fifo_choose) (Some 2) demo_busy"
proof -
  have idle: "sched_reach (choose_with simple_fifo_choose) (Some 2) demo_idle"
    unfolding demo_idle_def by (intro sched_reach.intros)
  have "tbl_get (sc_waiters demo_idle) ''j1'' = None" "tbl_get (sc_waiters (demo_submit ''j1'' demo_idle)) ''j2'' = None"
    by code_simp+
  then show ?thesis
    unfolding demo_busy_def demo_submit_def
    by (intro sched_reach.began idle) (simp_all add: tbl_get_None_iff demo_submit_def)
qed

lemma demo_built_in: "built_in (choose_with simple_fifo_choose)"
  by (simp add: built_in_def)

section \<open>What the implementation also does\<close>

text \<open>A failed send after the same worker's disconnect: the disconnect has already put the job back,
  the failure handler puts it back once more, and one job is queued twice.\<close>

definition race_start :: scheduler where
  "race_start = close_channel ''w1'' (snd (admit
     \<lparr>pj_job_id = ''j1'', pj_tenant = ''t'',
      pj_job = \<lparr>jm_job_id = ''j1'', jm_action_digest = demo_digest,
        jm_action = \<lparr>ac_command_digest = None, ac_input_root_digest = None, ac_platform = None, ac_timeout = None\<rparr>,
        jm_command = \<lparr>cm_platform = None\<rparr>\<rparr>,
      pj_platform = [], pj_lease_duration = 60, pj_attempts = 0, pj_action_digest = demo_digest,
      pj_input_root_digest = None\<rparr> demo_idle))"

definition race_end :: scheduler where
  "race_end =
     (case place_one 0 race_start of
        (Some (w, _, pj), s) \<Rightarrow> send_failed w pj (disconnect_worker (\<lambda>_. 0) w s)
      | (None, s) \<Rightarrow> s)"

lemma send_failure_race_duplicates_job: "pending_ids (sc_inner race_end) = [''j1'', ''j1'']"
  by code_simp

text \<open>The old stream's disconnect after a reconnect removes the new connection.\<close>

lemma late_disconnect_drops_reconnect:
  "is_connected (in_connected (sc_inner (connect_worker (\<lambda>_. 0) ''w1'' True demo_idle))) ''w1'' \<and>
   \<not> is_connected (in_connected (sc_inner (disconnect_worker (\<lambda>_. 0) ''w1'' (connect_worker (\<lambda>_. 0) ''w1'' True demo_idle)))) ''w1''"
  by code_simp

text \<open>A result that arrives after its lease was given to another worker is accepted, and the
  completion is credited to that other worker.\<close>

definition reassigned :: scheduler where
  "reassigned = connect_worker (\<lambda>_. 1) ''w2'' True (disconnect_worker (\<lambda>_. 1) ''w1'' (demo_submit ''j1'' demo_idle))"

lemma late_report_credits_new_holder:
  "view reassigned = ([], [(''j1'', ''w2'')], [''j1'']) \<and>
   (let s = snd (report (\<lambda>_. 2) 0 \<lparr>jr_job_id = ''j1'', jr_result = None, jr_error_message = ''late, from w1''\<rparr> reassigned)
    in in_leases (sc_inner s) = [] \<and> action_hits (in_locality (sc_inner s)) ''w2'' demo_digest = 1)"
  by code_simp

text \<open>A timed-out execution frees its worker but places nothing on it.\<close>

lemma timeout_leaves_worker_idle:
  "let s = snd (execute_finish demo_env ''j1'' demo_digest ''t'' 0 TimedOut demo_busy)
   in view s = ([''j2''], [], [''j2'']) \<and> view (try_dispatch (\<lambda>_. 0) s) = ([], [(''j2'', ''w1'')], [''j2''])"
  by code_simp

text \<open>The counts shown to operators stay zero for a worker that holds a lease.\<close>

lemma busy_worker_shown_idle:
  "is_worker_busy (in_leases (sc_inner demo_busy)) ''w1'' \<and> inflight_snapshot demo_busy = [(''w1'', 0)]"
  by code_simp

section \<open>Properties\<close>







text \<open>
  C6. Dispatch terminates and is work-conserving: the loop ends from every reachable state, and when
  it ends, at the time it last read, no queued job has an eligible, connected, idle worker left.
\<close>

theorem dispatch_work_conserving:
  assumes "built_in pick" "sched_reach pick quota s"
  shows "\<exists>k. \<forall>e \<in> set (fq_entries (in_pending (sc_inner (try_dispatch clock s)))).
    candidates_for (sc_worker_registry (try_dispatch clock s)) (clock k) (sc_inner (try_dispatch clock s)) (fe_job e) = []"
proof -
  have "sc_strategy s = pick" "sched_inv s" using built_in_inv [OF assms] by simp_all
  from built_in_exhausts [OF assms(1) this, of clock] obtain k where
    "fst (place_one (clock k) (try_dispatch clock s)) = None" "sc_strategy (try_dispatch clock s) = pick" by blast
  with built_in_place_None [OF assms(1)] show ?thesis by blast
qed

theorem dispatch_work_conserving_witness:
  "\<exists>k. \<forall>e \<in> set (fq_entries (in_pending (sc_inner (try_dispatch (\<lambda>n. n) demo_busy)))).
    candidates_for (sc_worker_registry (try_dispatch (\<lambda>n. n) demo_busy)) k (sc_inner (try_dispatch (\<lambda>n. n) demo_busy)) (fe_job e) = []"
  using dispatch_work_conserving [OF demo_built_in demo_reach, of "\<lambda>n. n"] by simp

text \<open>
  Under leases of capacity one, bin packing spreads: in every reachable state the loads a strategy
  sees are all zero, so bin packing, whatever its cap, places exactly as the simple strategy does.
\<close>

theorem bin_packing_degenerates:
  assumes "built_in pick" "sched_reach pick quota s" "dc_loads ctx = in_connected (sc_inner s)"
  shows "choose_with (bin_packing_choose (bin_packing_new cap)) ws ctx = choose_with simple_fifo_choose ws ctx"
proof -
  have "inflight (dc_loads ctx) = (\<lambda>_. 0)"
    using loads_zero built_in_inv [OF assms(1,2)] assms(3) by (simp add: fun_eq_iff)
  moreover have "more_loaded (\<lambda>_. 0) = less_loaded (\<lambda>_. 0)"
    by (simp add: fun_eq_iff more_loaded_def less_loaded_def)
  ultimately show ?thesis
    by (simp add: choose_with_def bin_packing_choose_def simple_fifo_choose_def bin_packing_new_def less_max_iff_disj split: option.splits)
qed

theorem bin_packing_degenerates_witness:
  "choose_with (bin_packing_choose (bin_packing_new 4)) [''w2'', ''w1'']
     \<lparr>dc_loads = in_connected (sc_inner demo_busy), dc_locality = locality_default,
      dc_job = \<lparr>jf_tenant = ''t'', jf_action_digest = demo_digest, jf_input_root_digest = None, jf_platform = []\<rparr>\<rparr>
   = Some ''w1''"
proof -
  let ?ctx = "\<lparr>dc_loads = in_connected (sc_inner demo_busy), dc_locality = locality_default,
    dc_job = \<lparr>jf_tenant = ''t'', jf_action_digest = demo_digest, jf_input_root_digest = None, jf_platform = []\<rparr>\<rparr>"
  have "choose_with simple_fifo_choose [''w2'', ''w1''] ?ctx = Some ''w1''" by code_simp
  with bin_packing_degenerates [OF demo_built_in demo_reach, of ?ctx 4 "[''w2'', ''w1'']"] show ?thesis by simp
qed

end
