(* ===== verification/Cas_Store.thy ===== *)
theory Cas_Store
  imports Cas_Digest "HOL-Library.AList" "HOL-Library.Multiset"
begin

text \<open>
  The interface of the content-addressed store (\<open>brokkr-cas/src/traits.rs\<close>, \<open>error.rs\<close>), the
  in-memory store (\<open>in_memory.rs\<close>), the Bloom filter (\<open>bloom.rs\<close>) and the store decorated with
  it (\<open>bloom_cas.rs\<close>). A backend is a record of functions over its state; the contract is a locale
  that a decorator inherits from the store it wraps.
\<close>

unbundle bit_operations_syntax

section \<open>The interface\<close>

datatype cas_error =
    NotFound digest
  | DigestFault digest_error
  | Io string
  | RedbError string
  | CasOther string
  | ThroughputLimit nat
  | CasNotLeader "string option" "string option"

record update_result =
  ur_digest :: digest
  ur_status :: "string + unit"

record cas_stats =
  cs_objects :: nat
  cs_bytes :: nat

record 's cas_ops =
  op_find_missing :: "digest list \<Rightarrow> 's \<Rightarrow> (cas_error + digest list) \<times> 's"
  op_update :: "(digest \<times> bytes) list \<Rightarrow> 's \<Rightarrow> (cas_error + update_result list) \<times> 's"
  op_read :: "digest list \<Rightarrow> 's \<Rightarrow> (cas_error + (cas_error + bytes) list) \<times> 's"
  op_list :: "'s \<Rightarrow> cas_error + digest list"
  op_delete :: "digest \<Rightarrow> 's \<Rightarrow> (cas_error + unit) \<times> 's"

text \<open>The default methods of the trait.\<close>

definition default_list :: "'s \<Rightarrow> cas_error + digest list" where
  "default_list s = Inr []"

definition default_delete :: "digest \<Rightarrow> 's \<Rightarrow> (cas_error + unit) \<times> 's" where
  "default_delete d s = (Inr (), s)"

definition default_stats :: "(cas_error + digest list) \<Rightarrow> cas_error + cas_stats" where
  "default_stats listed =
     (case listed of
        Inl e \<Rightarrow> Inl e
      | Inr ds \<Rightarrow> Inr \<lparr>cs_objects = length ds, cs_bytes = sum_list (map (\<lambda>d. if dg_size d < 0 then 0 else nat (dg_size d)) ds)\<rparr>)"

section \<open>The in-memory store\<close>

type_synonym mem_cas = "(digest \<times> bytes) list"

definition mem_find_missing :: "digest list \<Rightarrow> mem_cas \<Rightarrow> (cas_error + digest list) \<times> mem_cas" where
  "mem_find_missing ds m = (Inr (filter (\<lambda>d. map_of m d = None) ds), m)"

text \<open>\<open>digest.verify\<close> with its error as text.\<close>

definition accepts :: "(digest_error \<Rightarrow> string) \<Rightarrow> (bytes \<Rightarrow> bytes) \<Rightarrow> digest \<Rightarrow> bytes \<Rightarrow> string + unit" where
  "accepts show_error sha256 d b =
     (case digest_verify sha256 d b of Inr _ \<Rightarrow> Inr () | Inl e \<Rightarrow> Inl (show_error e))"

fun mem_update_all :: "(digest \<Rightarrow> bytes \<Rightarrow> string + unit) \<Rightarrow> (digest \<times> bytes) list \<Rightarrow> mem_cas \<Rightarrow> update_result list \<times> mem_cas" where
  "mem_update_all ok [] m = ([], m)"
| "mem_update_all ok ((d, b) # blobs) m =
     (let m = (case ok d b of Inr _ \<Rightarrow> AList.update d b m | Inl _ \<Rightarrow> m);
          (out, m) = mem_update_all ok blobs m
      in (\<lparr>ur_digest = d, ur_status = ok d b\<rparr> # out, m))"

definition mem_update ::
  "(digest \<Rightarrow> bytes \<Rightarrow> string + unit) \<Rightarrow> (digest \<times> bytes) list \<Rightarrow> mem_cas \<Rightarrow> (cas_error + update_result list) \<times> mem_cas" where
  "mem_update ok blobs m = (let (out, m) = mem_update_all ok blobs m in (Inr out, m))"

definition found :: "(digest \<rightharpoonup> bytes) \<Rightarrow> digest \<Rightarrow> cas_error + bytes" where
  "found h d = (case h d of Some b \<Rightarrow> Inr b | None \<Rightarrow> Inl (NotFound d))"

definition mem_read :: "digest list \<Rightarrow> mem_cas \<Rightarrow> (cas_error + (cas_error + bytes) list) \<times> mem_cas" where
  "mem_read ds m = (Inr (map (found (map_of m)) ds), m)"

definition mem_list :: "mem_cas \<Rightarrow> cas_error + digest list" where
  "mem_list m = Inr (map fst m)"

definition mem_delete :: "digest \<Rightarrow> mem_cas \<Rightarrow> (cas_error + unit) \<times> mem_cas" where
  "mem_delete d m = (Inr (), AList.delete d m)"

definition mem_ops :: "(digest \<Rightarrow> bytes \<Rightarrow> string + unit) \<Rightarrow> mem_cas cas_ops" where
  "mem_ops ok =
     \<lparr>op_find_missing = mem_find_missing, op_update = mem_update ok, op_read = mem_read,
      op_list = mem_list, op_delete = mem_delete\<rparr>"

section \<open>The Bloom filter\<close>

record bloom =
  bl_bits :: "64 word list"
  bl_bit_len :: nat
  bl_k :: nat
  bl_items :: nat

text \<open>The two sizes come from floating-point formulas and are arguments here; the code rounds them
  up to a whole number of words and to at least one hash.\<close>

definition bloom_new :: "nat \<Rightarrow> nat \<Rightarrow> bloom" where
  "bloom_new m_float k_float =
     (let words = (max m_float 64 + 63) div 64
      in \<lparr>bl_bits = replicate words 0, bl_bit_len = words * 64, bl_k = max k_float 1, bl_items = 0\<rparr>)"

text \<open>\<open>u64::from_str_radix(_, 16)\<close>: an optional plus sign, then at least one digit of either case.\<close>

definition radix_digit :: "char \<Rightarrow> nat option" where
  "radix_digit c =
     (if CHR ''0'' \<le> c \<and> c \<le> CHR ''9'' then Some (of_char c - 48)
      else if CHR ''a'' \<le> c \<and> c \<le> CHR ''f'' then Some (of_char c - 87)
      else if CHR ''A'' \<le> c \<and> c \<le> CHR ''F'' then Some (of_char c - 55)
      else None)"

fun radix_value :: "nat \<Rightarrow> string \<Rightarrow> nat option" where
  "radix_value acc [] = Some acc"
| "radix_value acc (c # cs) =
     (case radix_digit c of None \<Rightarrow> None | Some v \<Rightarrow> if 16 * acc + v > u64_max then None else radix_value (16 * acc + v) cs)"

definition from_str_radix :: "string \<Rightarrow> nat option" where
  "from_str_radix s =
     (let s = (case s of CHR ''+'' # cs \<Rightarrow> cs | _ \<Rightarrow> s) in if s = [] then None else radix_value 0 s)"

definition radix_or_zero :: "string \<Rightarrow> 64 word" where
  "radix_or_zero s = (case from_str_radix s of Some n \<Rightarrow> word_of_nat n | None \<Rightarrow> 0)"

definition derive_pair :: "digest \<Rightarrow> 64 word \<times> 64 word" where
  "derive_pair d = (radix_or_zero (take 16 (dg_hash d)), radix_or_zero (take 16 (drop 16 (dg_hash d))))"

definition bit_index :: "bloom \<Rightarrow> 64 word \<Rightarrow> 64 word \<Rightarrow> nat \<Rightarrow> nat" where
  "bit_index f h1 h2 i = unat (h1 + word_of_nat i * h2) mod bl_bit_len f"

definition set_position :: "nat \<Rightarrow> 64 word list \<Rightarrow> 64 word list" where
  "set_position p bs = bs[p div 64 := bs ! (p div 64) OR push_bit (p mod 64) 1]"

definition test_position :: "64 word list \<Rightarrow> nat \<Rightarrow> bool" where
  "test_position bs p \<longleftrightarrow> bs ! (p div 64) AND push_bit (p mod 64) 1 \<noteq> 0"

definition bloom_insert :: "digest \<Rightarrow> bloom \<Rightarrow> bloom" where
  "bloom_insert d f =
     (let (h1, h2) = derive_pair d
      in f\<lparr>bl_bits := fold (\<lambda>i. set_position (bit_index f h1 h2 i)) [0..<bl_k f] (bl_bits f),
           bl_items := sat_add (bl_items f) 1\<rparr>)"

definition bloom_contains :: "bloom \<Rightarrow> digest \<Rightarrow> bool" where
  "bloom_contains f d =
     (let (h1, h2) = derive_pair d in list_all (\<lambda>i. test_position (bl_bits f) (bit_index f h1 h2 i)) [0..<bl_k f])"

definition bloom_clear :: "bloom \<Rightarrow> bloom" where
  "bloom_clear f = f\<lparr>bl_bits := map (\<lambda>_. 0) (bl_bits f), bl_items := 0\<rparr>"

section \<open>The decorated store\<close>

type_synonym 's bloom_cas = "'s \<times> bloom"

definition rebuild_from :: "digest list \<Rightarrow> 's bloom_cas \<Rightarrow> 's bloom_cas" where
  "rebuild_from ds s = (fst s, fold bloom_insert ds (bloom_clear (snd s)))"

definition bloom_find_missing ::
  "'s cas_ops \<Rightarrow> digest list \<Rightarrow> 's bloom_cas \<Rightarrow> (cas_error + digest list) \<times> 's bloom_cas" where
  "bloom_find_missing inner ds s =
     (let definitely_missing = filter (\<lambda>d. \<not> bloom_contains (snd s) d) ds;
          maybe_present = filter (bloom_contains (snd s)) ds
      in if maybe_present = [] then (Inr definitely_missing, s)
         else (case op_find_missing inner maybe_present (fst s) of
                 (Inl e, t) \<Rightarrow> (Inl e, (t, snd s))
               | (Inr backend_missing, t) \<Rightarrow> (Inr (definitely_missing @ backend_missing), (t, snd s))))"

definition is_ok :: "'e + 'a \<Rightarrow> bool" where
  "is_ok r = (case r of Inr _ \<Rightarrow> True | Inl _ \<Rightarrow> False)"

definition bloom_update ::
  "'s cas_ops \<Rightarrow> (digest \<times> bytes) list \<Rightarrow> 's bloom_cas \<Rightarrow> (cas_error + update_result list) \<times> 's bloom_cas" where
  "bloom_update inner blobs s =
     (case op_update inner blobs (fst s) of
        (Inl e, t) \<Rightarrow> (Inl e, (t, snd s))
      | (Inr results, t) \<Rightarrow>
          (Inr results, (t, fold bloom_insert (map ur_digest (filter (\<lambda>r. is_ok (ur_status r)) results)) (snd s))))"

definition bloom_read ::
  "'s cas_ops \<Rightarrow> digest list \<Rightarrow> 's bloom_cas \<Rightarrow> (cas_error + (cas_error + bytes) list) \<times> 's bloom_cas" where
  "bloom_read inner ds s = (let (r, t) = op_read inner ds (fst s) in (r, (t, snd s)))"

text \<open>Listing and deletion are not forwarded: the trait's defaults apply.\<close>

definition bloom_ops :: "'s cas_ops \<Rightarrow> 's bloom_cas cas_ops" where
  "bloom_ops inner =
     \<lparr>op_find_missing = bloom_find_missing inner, op_update = bloom_update inner, op_read = bloom_read inner,
      op_list = default_list, op_delete = default_delete\<rparr>"

section \<open>The contract\<close>

text \<open>What an upload does to the held blobs: those accepted are held afterwards.\<close>

definition stored :: "(digest \<Rightarrow> bytes \<Rightarrow> string + unit) \<Rightarrow> (digest \<times> bytes) list \<Rightarrow> (digest \<rightharpoonup> bytes) \<Rightarrow> (digest \<rightharpoonup> bytes)" where
  "stored ok blobs h = fold (\<lambda>(d, b) h. if is_ok (ok d b) then h(d \<mapsto> b) else h) blobs h"

definition receipts :: "(digest \<Rightarrow> bytes \<Rightarrow> string + unit) \<Rightarrow> (digest \<times> bytes) list \<Rightarrow> update_result list" where
  "receipts ok blobs = map (\<lambda>(d, b). \<lparr>ur_digest = d, ur_status = ok d b\<rparr>) blobs"

locale blob_store =
  fixes ops :: "'s cas_ops" and holds :: "'s \<Rightarrow> digest \<rightharpoonup> bytes" and inv :: "'s \<Rightarrow> bool"
    and ok :: "digest \<Rightarrow> bytes \<Rightarrow> string + unit"
  assumes find_missing: "inv s \<Longrightarrow> \<exists>ms s'. op_find_missing ops ds s = (Inr ms, s') \<and>
      mset ms = mset (filter (\<lambda>d. holds s d = None) ds) \<and> inv s' \<and> holds s' = holds s"
    and update: "inv s \<Longrightarrow> \<exists>s'. op_update ops blobs s = (Inr (receipts ok blobs), s') \<and> inv s' \<and>
      holds s' = stored ok blobs (holds s)"
    and read: "inv s \<Longrightarrow> \<exists>s'. op_read ops ds s = (Inr (map (found (holds s)) ds), s') \<and> inv s' \<and> holds s' = holds s"
begin

text \<open>An accepted upload is found by the next read.\<close>

lemma read_your_write:
  assumes "inv s" "is_ok (ok d b)" "op_update ops [(d, b)] s = (r, s')"
  shows "inv s' \<and> fst (op_read ops [d] s') = Inr [Inr b]"
  using update [OF assms(1), of "[(d, b)]"] assms(2,3) read [of s' "[d]"]
  by (auto simp: stored_def found_def)

end

lemma mem_update_all_exact:
  "fst (mem_update_all ok blobs m) = receipts ok blobs \<and>
   map_of (snd (mem_update_all ok blobs m)) = stored ok blobs (map_of m)"
proof (induction ok blobs m rule: mem_update_all.induct)
  case (2 ok d b blobs m)
  then show ?case
    by (auto simp: receipts_def stored_def is_ok_def update_conv' Let_def case_prod_beta split: sum.splits)
qed (simp add: receipts_def stored_def)

interpretation mem_store: blob_store "mem_ops ok" map_of "\<lambda>_. True" ok for ok
proof unfold_locales
  fix s :: mem_cas and blobs
  show "\<exists>s'. op_update (mem_ops ok) blobs s = (Inr (receipts ok blobs), s') \<and> True \<and> map_of s' = stored ok blobs (map_of s)"
    using mem_update_all_exact [of ok blobs s]
    by (cases "mem_update_all ok blobs s") (simp add: mem_ops_def mem_update_def)
qed (simp_all add: mem_ops_def mem_find_missing_def mem_read_def)

section \<open>The filter is sound\<close>

definition bloom_wf :: "bloom \<Rightarrow> bool" where
  "bloom_wf f \<longleftrightarrow> 0 < bl_bit_len f \<and> bl_bit_len f = length (bl_bits f) * 64"

lemma bloom_wf_new: "bloom_wf (bloom_new m k)"
  by (simp add: bloom_wf_def bloom_new_def Let_def div_greater_zero_iff)

lemma set_position_length [simp]: "length (set_position p bs) = length bs"
  by (simp add: set_position_def)

lemma fold_set_position_length [simp]: "length (fold (\<lambda>i. set_position (g i)) is bs) = length bs"
  by (induction "is" arbitrary: bs) simp_all

lemma test_position_bit: "test_position bs p \<longleftrightarrow> bit (bs ! (p div 64)) (p mod 64)"
  by (simp add: test_position_def bit_iff_and_push_bit_not_eq_0)

lemma test_set_position:
  assumes "p div 64 < length bs"
  shows "test_position (set_position p bs) q \<longleftrightarrow> test_position bs q \<or> p = q"
proof (cases "p div 64 = q div 64")
  case True
  have "p mod 64 = q mod 64 \<longleftrightarrow> p = q" using True by (metis div_mult_mod_eq)
  with True assms show ?thesis
    by (auto simp: test_position_bit set_position_def bit_or_iff bit_exp_iff)
next
  case False
  then have "p \<noteq> q" by auto
  with False show ?thesis by (simp add: test_position_bit set_position_def)
qed

lemma test_fold_set_position:
  assumes "\<forall>i \<in> set is. g i div 64 < length bs"
  shows "test_position (fold (\<lambda>i. set_position (g i)) is bs) q \<longleftrightarrow> test_position bs q \<or> q \<in> g ` set is"
  using assms by (induction "is" arbitrary: bs) (auto simp: test_set_position)

lemma bit_index_range: "bloom_wf f \<Longrightarrow> bit_index f h1 h2 i div 64 < length (bl_bits f)"
  by (rule less_mult_imp_div_less) (auto simp: bloom_wf_def bit_index_def)

lemma bloom_insert_sound:
  assumes "bloom_wf f"
  shows "bloom_wf (bloom_insert d f)" "bloom_contains (bloom_insert d f) d"
    and "bloom_contains f e \<Longrightarrow> bloom_contains (bloom_insert d f) e"
proof -
  have idx: "bit_index (f\<lparr>bl_bits := bs, bl_items := n\<rparr>) h1 h2 i = bit_index f h1 h2 i" for bs n h1 h2 i
    by (simp add: bit_index_def)
  obtain h1 h2 where h: "derive_pair d = (h1, h2)" by (cases "derive_pair d")
  have t: "test_position (bl_bits (bloom_insert d f)) q \<longleftrightarrow>
      test_position (bl_bits f) q \<or> q \<in> bit_index f h1 h2 ` set [0..<bl_k f]" for q
    using test_fold_set_position [of "[0..<bl_k f]" "bit_index f h1 h2" "bl_bits f" q] bit_index_range [OF assms]
    by (simp add: bloom_insert_def h)
  show "bloom_wf (bloom_insert d f)" using assms by (auto simp: bloom_wf_def bloom_insert_def h)
  have same: "bl_k (bloom_insert d f) = bl_k f" "bit_index (bloom_insert d f) = bit_index f"
    by (simp_all add: bloom_insert_def h bit_index_def fun_eq_iff)
  show "bloom_contains (bloom_insert d f) d"
    using t by (auto simp: bloom_contains_def h list_all_iff same)
  show "bloom_contains f e \<Longrightarrow> bloom_contains (bloom_insert d f) e"
    using t by (auto simp: bloom_contains_def list_all_iff same split: prod.splits)
qed

lemma bloom_fold_sound:
  "bloom_wf f \<Longrightarrow> bloom_wf (fold bloom_insert ds f) \<and>
     (\<forall>d. d \<in> set ds \<or> bloom_contains f d \<longrightarrow> bloom_contains (fold bloom_insert ds f) d)"
proof (induction ds arbitrary: f)
  case (Cons d ds)
  note ih = Cons.IH [OF bloom_insert_sound(1) [OF Cons.prems, of d]]
  with bloom_insert_sound(2) [OF Cons.prems, of d] bloom_insert_sound(3) [OF Cons.prems, of _ d] show ?case
    by (metis fold_simps(2) set_ConsD)
qed simp

lemma bloom_wf_clear: "bloom_wf f \<Longrightarrow> bloom_wf (bloom_clear f)"
  by (auto simp: bloom_wf_def bloom_clear_def)

definition covers :: "bloom \<Rightarrow> (digest \<rightharpoonup> bytes) \<Rightarrow> bool" where
  "covers f h \<longleftrightarrow> bloom_wf f \<and> (\<forall>d \<in> dom h. bloom_contains f d)"

lemma stored_dom:
  "dom (stored ok blobs h) = dom h \<union> set (map ur_digest (filter (\<lambda>r. is_ok (ur_status r)) (receipts ok blobs)))"
  by (induction blobs arbitrary: h) (auto simp: stored_def receipts_def)

context blob_store
begin

lemma bloom_is_store:
  "blob_store (bloom_ops ops) (\<lambda>s. holds (fst s)) (\<lambda>s. inv (fst s) \<and> covers (snd s) (holds (fst s))) ok"
proof unfold_locales
  fix s :: "'s bloom_cas" and ds
  assume s: "inv (fst s) \<and> covers (snd s) (holds (fst s))"
  let ?maybe = "filter (bloom_contains (snd s)) ds" and ?no = "filter (\<lambda>d. \<not> bloom_contains (snd s) d) ds"
  have absent: "\<not> bloom_contains (snd s) d \<Longrightarrow> holds (fst s) d = None" for d using s by (auto simp: covers_def)
  have split: "mset (filter (\<lambda>d. holds (fst s) d = None) ds) = mset ?no + mset (filter (\<lambda>d. holds (fst s) d = None) ?maybe)"
    by (induction ds) (auto simp: absent filter_filter_mset conj_commute)
  from find_missing [of "fst s" ?maybe] s split
  show "\<exists>ms s'. op_find_missing (bloom_ops ops) ds s = (Inr ms, s') \<and>
      mset ms = mset (filter (\<lambda>d. holds (fst s) d = None) ds) \<and>
      (inv (fst s') \<and> covers (snd s') (holds (fst s'))) \<and> holds (fst s') = holds (fst s)"
    by (cases "?maybe = []") (auto simp: bloom_ops_def bloom_find_missing_def Let_def)
next
  fix s :: "'s bloom_cas" and blobs
  assume s: "inv (fst s) \<and> covers (snd s) (holds (fst s))"
  from update [of "fst s" blobs] s obtain t where
    t: "op_update ops blobs (fst s) = (Inr (receipts ok blobs), t)" "inv t" "holds t = stored ok blobs (holds (fst s))" by blast
  let ?f = "fold bloom_insert (map ur_digest (filter (\<lambda>r. is_ok (ur_status r)) (receipts ok blobs))) (snd s)"
  have "covers ?f (holds t)"
    using bloom_fold_sound [of "snd s"] s by (auto simp: covers_def t(3) stored_dom)
  with t show "\<exists>s'. op_update (bloom_ops ops) blobs s = (Inr (receipts ok blobs), s') \<and>
      (inv (fst s') \<and> covers (snd s') (holds (fst s'))) \<and> holds (fst s') = stored ok blobs (holds (fst s))"
    by (simp add: bloom_ops_def bloom_update_def)
next
  fix s :: "'s bloom_cas" and ds
  assume s: "inv (fst s) \<and> covers (snd s) (holds (fst s))"
  from read [of "fst s" ds] s
  show "\<exists>s'. op_read (bloom_ops ops) ds s = (Inr (map (found (holds (fst s))) ds), s') \<and>
      (inv (fst s') \<and> covers (snd s') (holds (fst s'))) \<and> holds (fst s') = holds (fst s)"
    by (auto simp: bloom_ops_def bloom_read_def)
qed

end

interpretation bloom_store: blob_store "bloom_ops (mem_ops ok)" "\<lambda>s. map_of (fst s)"
  "\<lambda>s. True \<and> covers (snd s) (map_of (fst s))" ok for ok
  by (rule mem_store.bloom_is_store)

section \<open>Runs of uploads\<close>

lemma op_selectors [simp]:
  "op_find_missing (mem_ops ok) = mem_find_missing" "op_find_missing (bloom_ops ops) = bloom_find_missing ops"
  by (simp_all add: mem_ops_def bloom_ops_def)

definition uploads :: "'s cas_ops \<Rightarrow> (digest \<times> bytes) list list \<Rightarrow> 's \<Rightarrow> 's" where
  "uploads ops batches s = fold (\<lambda>blobs s. snd (op_update ops blobs s)) batches s"

context blob_store
begin

lemma uploads_hold:
  "inv s \<Longrightarrow> inv (uploads ops batches s) \<and> holds (uploads ops batches s) = fold (stored ok) batches (holds s)"
proof (induction batches arbitrary: s)
  case (Cons blobs batches)
  from update [OF Cons.prems, of blobs] Cons.IH show ?case by (auto simp: uploads_def)
qed (simp add: uploads_def)

lemma find_missing_after_uploads:
  assumes "inv s"
  shows "\<exists>ms. fst (op_find_missing ops ds (uploads ops batches s)) = Inr ms \<and>
    mset ms = mset (filter (\<lambda>d. fold (stored ok) batches (holds s) d = None) ds)"
  using find_missing [of "uploads ops batches s" ds] uploads_hold [OF assms, of batches] by auto

end

lemma rebuild_covers: "covers (snd (rebuild_from (map fst m) (m, bloom_new n k))) (map_of m)"
  using bloom_fold_sound [OF bloom_wf_clear [OF bloom_wf_new [of n k]], of "map fst m"]
  by (auto simp: covers_def rebuild_from_def dom_map_of_conv_image_fst)

text \<open>C22. The Bloom filter never changes an answer.  Start the decorated store over any content, with
  the filter rebuilt from that content at any size, and apply any batches of uploads, accepted or
  rejected: a query for missing blobs then answers the same blobs, with the same multiplicities, as
  the undecorated store does after the same uploads.\<close>

theorem bloom_never_hides_a_blob:
  "\<exists>ms ns. fst (bloom_find_missing (mem_ops ok) ds
        (uploads (bloom_ops (mem_ops ok)) batches (rebuild_from (map fst m) (m, bloom_new n k)))) = Inr ms \<and>
     fst (mem_find_missing ds (uploads (mem_ops ok) batches m)) = Inr ns \<and> mset ms = mset ns"
proof -
  have start: "fst (rebuild_from (map fst m) (m, bloom_new n k)) = m" by (simp add: rebuild_from_def)
  show ?thesis
    using bloom_store.find_missing_after_uploads [of "rebuild_from (map fst m) (m, bloom_new n k)" ok ds batches]
      mem_store.find_missing_after_uploads [of ok ds batches m] rebuild_covers [of m n k]
    by (auto simp: start)
qed

end
