(* ===== verification/Cas_Hot_Tier.thy ===== *)
theory Cas_Hot_Tier
  imports Cas_Store "HOL-Library.Monad_Syntax"
begin

text \<open>
  The hot tier of \<open>brokkr-cas/src/tiered.rs\<close>: an LRU cache bounded by bytes, kept as a hash map into
  a pool of slots linked in both directions by indices, with a free list.  Every operation returns
  \<open>None\<close> where the code would index the pool out of range and panic, or where the eviction loop would
  not end; the lemmas show that this never happens and that the cache behaves as a plain list in
  recency order.
\<close>

section \<open>The structure and its operations\<close>

text \<open>\<open>NONE\<close> of the source: the largest \<open>usize\<close>.\<close>

definition no_node :: nat where
  "no_node = u64_max"

record slot =
  sl_digest :: digest
  sl_bytes :: bytes
  sl_prev :: nat
  sl_next :: nat

record hot_tier =
  ht_capacity :: nat
  ht_bytes :: nat
  ht_map :: "(digest \<times> nat) list"
  ht_nodes :: "slot list"
  ht_free :: "nat list"
  ht_head :: nat
  ht_tail :: nat

definition hot_new :: "nat \<Rightarrow> hot_tier" where
  "hot_new cap =
     \<lparr>ht_capacity = cap, ht_bytes = 0, ht_map = [], ht_nodes = [], ht_free = [], ht_head = no_node, ht_tail = no_node\<rparr>"

definition hot_len :: "hot_tier \<Rightarrow> nat" where
  "hot_len h = length (ht_map h)"

text \<open>\<open>self.nodes[idx]\<close>, read and written.\<close>

definition node :: "nat \<Rightarrow> hot_tier \<Rightarrow> slot option" where
  "node i h = (if i < length (ht_nodes h) then Some (ht_nodes h ! i) else None)"

definition edit :: "nat \<Rightarrow> (slot \<Rightarrow> slot) \<Rightarrow> hot_tier \<Rightarrow> hot_tier option" where
  "edit i f h =
     (if i < length (ht_nodes h) then Some (h\<lparr>ht_nodes := (ht_nodes h)[i := f (ht_nodes h ! i)]\<rparr>) else None)"

definition alloc :: "digest \<Rightarrow> bytes \<Rightarrow> hot_tier \<Rightarrow> (nat \<times> hot_tier) option" where
  "alloc d b h =
     (let s = \<lparr>sl_digest = d, sl_bytes = b, sl_prev = no_node, sl_next = no_node\<rparr>
      in if ht_free h \<noteq> []
         then do {
           let i = last (ht_free h);
           h \<leftarrow> edit i (\<lambda>_. s) (h\<lparr>ht_free := butlast (ht_free h)\<rparr>);
           Some (i, h)
         }
         else Some (length (ht_nodes h), h\<lparr>ht_nodes := ht_nodes h @ [s]\<rparr>))"

definition recycle :: "nat \<Rightarrow> hot_tier \<Rightarrow> hot_tier option" where
  "recycle i h = do {
     h \<leftarrow> edit i (\<lambda>s. s\<lparr>sl_bytes := [], sl_prev := no_node, sl_next := no_node\<rparr>) h;
     Some (h\<lparr>ht_free := ht_free h @ [i]\<rparr>)
   }"

definition push_to_head :: "nat \<Rightarrow> hot_tier \<Rightarrow> hot_tier option" where
  "push_to_head i h = do {
     h \<leftarrow> edit i (\<lambda>s. s\<lparr>sl_prev := no_node, sl_next := ht_head h\<rparr>) h;
     h \<leftarrow> (if ht_head h \<noteq> no_node then edit (ht_head h) (\<lambda>s. s\<lparr>sl_prev := i\<rparr>) h else Some h);
     let h = h\<lparr>ht_head := i\<rparr>;
     Some (if ht_tail h = no_node then h\<lparr>ht_tail := i\<rparr> else h)
   }"

definition unlink :: "nat \<Rightarrow> hot_tier \<Rightarrow> hot_tier option" where
  "unlink i h = do {
     s \<leftarrow> node i h;
     h \<leftarrow> (if sl_prev s \<noteq> no_node then edit (sl_prev s) (\<lambda>t. t\<lparr>sl_next := sl_next s\<rparr>) h
           else Some (h\<lparr>ht_head := sl_next s\<rparr>));
     (if sl_next s \<noteq> no_node then edit (sl_next s) (\<lambda>t. t\<lparr>sl_prev := sl_prev s\<rparr>) h
      else Some (h\<lparr>ht_tail := sl_prev s\<rparr>))
   }"

definition move_to_head :: "nat \<Rightarrow> hot_tier \<Rightarrow> hot_tier option" where
  "move_to_head i h = (if i = ht_head h then Some h else unlink i h \<bind> push_to_head i)"

definition evict_tail :: "hot_tier \<Rightarrow> hot_tier option" where
  "evict_tail h = do {
     let victim = ht_tail h;
     s \<leftarrow> node victim h;
     h \<leftarrow> unlink victim h;
     let h = h\<lparr>ht_map := AList.delete (sl_digest s) (ht_map h), ht_bytes := sat_sub (ht_bytes h) (length (sl_bytes s))\<rparr>;
     recycle victim h
   }"

partial_function (option) evict_until_under_capacity :: "hot_tier \<Rightarrow> hot_tier option" where
  [code]: "evict_until_under_capacity h =
     (if ht_bytes h > ht_capacity h \<and> ht_tail h \<noteq> no_node
      then evict_tail h \<bind> evict_until_under_capacity else Some h)"

definition hot_get :: "digest \<Rightarrow> hot_tier \<Rightarrow> (bytes option \<times> hot_tier) option" where
  "hot_get d h =
     (case map_of (ht_map h) d of
        None \<Rightarrow> Some (None, h)
      | Some i \<Rightarrow> do {
          h \<leftarrow> move_to_head i h;
          s \<leftarrow> node i h;
          Some (Some (sl_bytes s), h)
        })"

definition hot_put :: "digest \<Rightarrow> bytes \<Rightarrow> hot_tier \<Rightarrow> hot_tier option" where
  "hot_put d b h =
     (if ht_capacity h = 0 then Some h
      else case map_of (ht_map h) d of
        Some i \<Rightarrow> do {
          s \<leftarrow> node i h;
          let h = h\<lparr>ht_bytes := sat_add (sat_sub (ht_bytes h) (length (sl_bytes s))) (length b)\<rparr>;
          h \<leftarrow> edit i (\<lambda>s. s\<lparr>sl_bytes := b\<rparr>) h;
          h \<leftarrow> move_to_head i h;
          evict_until_under_capacity h
        }
      | None \<Rightarrow>
          if length b > ht_capacity h then Some h
          else do {
            (i, h) \<leftarrow> alloc d b h;
            let h = h\<lparr>ht_map := AList.update d i (ht_map h), ht_bytes := sat_add (ht_bytes h) (length b)\<rparr>;
            h \<leftarrow> push_to_head i h;
            evict_until_under_capacity h
          })"

section \<open>Chains of slots\<close>

text \<open>\<open>linked ns p js q\<close>: the slots \<open>js\<close> are linked to each other in that order, the first one back to
  \<open>p\<close> and the last one on to \<open>q\<close>.\<close>

definition first :: "nat list \<Rightarrow> nat \<Rightarrow> nat" where
  "first js q = (case js of [] \<Rightarrow> q | j # _ \<Rightarrow> j)"

definition final :: "nat list \<Rightarrow> nat \<Rightarrow> nat" where
  "final js p = (if js = [] then p else last js)"

fun linked :: "slot list \<Rightarrow> nat \<Rightarrow> nat list \<Rightarrow> nat \<Rightarrow> bool" where
  "linked ns p [] q = True"
| "linked ns p (j # js) q \<longleftrightarrow>
     j < length ns \<and> sl_prev (ns ! j) = p \<and> sl_next (ns ! j) = first js q \<and> linked ns j js q"

lemma first_simps [simp]: "first [] q = q" "first (j # js) q = j" "first (xs @ ys) q = first xs (first ys q)"
  by (simp_all add: first_def split: list.split)

lemma final_simps [simp]: "final [] p = p" "final (j # js) p = final js j" "final (xs @ ys) p = final ys (final xs p)"
  by (simp_all add: final_def)

lemma linked_append [simp]:
  "linked ns p (xs @ ys) q \<longleftrightarrow> linked ns p xs (first ys q) \<and> linked ns (final xs p) ys q"
  by (induction xs arbitrary: p) auto

lemma linked_frame:
  "length ms = length ns \<Longrightarrow> \<forall>j \<in> set js. ms ! j = ns ! j \<Longrightarrow> linked ms p js q = linked ns p js q"
  by (induction js arbitrary: p) auto

lemma linked_frame_update [simp]: "j \<notin> set js \<Longrightarrow> linked (ns[j := s]) p js q = linked ns p js q"
  by (rule linked_frame) (auto intro: nth_list_update_neq)

lemma relink_next:
  assumes "linked ns p js q" "distinct js" "js \<noteq> []"
  shows "linked (ns[final js p := (ns ! final js p)\<lparr>sl_next := q'\<rparr>]) p js q'"
  using assms by (cases js rule: rev_cases) auto

lemma relink_prev:
  assumes "linked ns p js q" "distinct js" "js \<noteq> []"
  shows "linked (ns[first js q := (ns ! first js q)\<lparr>sl_prev := p'\<rparr>]) p' js q"
  using assms by (cases js) auto

lemma linked_range: "linked ns p js q \<Longrightarrow> j \<in> set js \<Longrightarrow> j < length ns"
  by (induction js arbitrary: p) auto

definition chain :: "hot_tier \<Rightarrow> nat list \<Rightarrow> bool" where
  "chain h js \<longleftrightarrow> linked (ht_nodes h) no_node js no_node \<and> distinct js \<and> length (ht_nodes h) \<le> no_node \<and>
     ht_head h = first js no_node \<and> ht_tail h = final js no_node"

text \<open>What relinking leaves alone.\<close>

definition payload :: "hot_tier \<Rightarrow> (digest \<times> bytes) list" where
  "payload h = map (\<lambda>s. (sl_digest s, sl_bytes s)) (ht_nodes h)"

definition same_data :: "hot_tier \<Rightarrow> hot_tier \<Rightarrow> bool" where
  "same_data h h' \<longleftrightarrow> payload h' = payload h \<and> ht_capacity h' = ht_capacity h \<and> ht_bytes h' = ht_bytes h \<and>
     ht_map h' = ht_map h \<and> ht_free h' = ht_free h"

lemma payload_length: "length (payload h) = length (ht_nodes h)"
  by (simp add: payload_def)

lemma payload_nth: "i < length (ht_nodes h) \<Longrightarrow> payload h ! i = (sl_digest (ht_nodes h ! i), sl_bytes (ht_nodes h ! i))"
  by (simp add: payload_def)

lemma same_data_length: "same_data h h' \<Longrightarrow> length (ht_nodes h') = length (ht_nodes h)"
  by (metis same_data_def payload_length)

lemma same_data_refl [simp]: "same_data h h"
  by (simp add: same_data_def)

lemma same_data_trans: "same_data h h' \<Longrightarrow> same_data h' h'' \<Longrightarrow> same_data h h''"
  by (simp add: same_data_def)

lemma payload_relink [simp]:
  assumes "sl_digest t = sl_digest (ns ! i)" "sl_bytes t = sl_bytes (ns ! i)"
  shows "map (\<lambda>s. (sl_digest s, sl_bytes s)) (ns[i := t]) = map (\<lambda>s. (sl_digest s, sl_bytes s)) ns"
proof (cases "i < length ns")
  case True
  with assms show ?thesis by (simp add: map_update list_update_same_conv)
qed (simp add: list_update_beyond)

lemma linked_ends:
  assumes "linked ns p js q" "js \<noteq> []"
  shows "first js n < length ns" "final js n < length ns"
  using assms linked_range [OF assms(1)] by (auto simp: final_def first_def split: list.split)

lemma ends_no_node:
  assumes "linked ns p js q" "length ns \<le> no_node"
  shows "first js no_node = no_node \<longleftrightarrow> js = []" "final js no_node = no_node \<longleftrightarrow> js = []"
  using linked_ends [OF assms(1), of no_node] assms(2) by force+

lemma unlink_chain:
  assumes "chain h (xs @ i # ys)"
  obtains h' where "unlink i h = Some h'" "chain h' (xs @ ys)" "same_data h h'"
proof -
  let ?ns = "ht_nodes h" and ?p = "final xs no_node" and ?n = "first ys no_node"
  from assms have l: "linked ?ns no_node xs i" "linked ?ns i ys no_node" "i < length ?ns" "length ?ns \<le> no_node"
    and d: "distinct xs" "distinct ys" "set xs \<inter> set ys = {}" "i \<notin> set xs" "i \<notin> set ys"
    and e: "sl_prev (?ns ! i) = ?p" "sl_next (?ns ! i) = ?n" "ht_head h = first xs i" "ht_tail h = final ys i"
    by (auto simp: chain_def)
  note ends = ends_no_node [OF l(1) l(4)] ends_no_node [OF l(2) l(4)]
  note range = linked_ends [OF l(1), of no_node] linked_ends [OF l(2), of no_node]
  have outx: "ys \<noteq> [] \<Longrightarrow> ?n \<notin> set xs" and outy: "xs \<noteq> [] \<Longrightarrow> ?p \<notin> set ys"
    using d disjoint_iff [of "set xs" "set ys"] last_in_set [of xs]
    by (auto simp: first_def final_def split: list.splits)
  define h1 where "h1 = (if xs \<noteq> [] then h\<lparr>ht_nodes := ?ns[?p := (?ns ! ?p)\<lparr>sl_next := ?n\<rparr>]\<rparr> else h\<lparr>ht_head := ?n\<rparr>)"
  let ?ms = "ht_nodes h1"
  have lx: "linked ?ms no_node xs ?n" using relink_next [OF l(1) d(1)] by (auto simp: h1_def)
  have ly: "linked ?ms i ys no_node" using l(2) outy by (auto simp: h1_def)
  have len: "length ?ms = length ?ns" by (simp add: h1_def)
  define h2 where "h2 = (if ys \<noteq> [] then h1\<lparr>ht_nodes := ?ms[?n := (?ms ! ?n)\<lparr>sl_prev := ?p\<rparr>]\<rparr> else h1\<lparr>ht_tail := ?p\<rparr>)"
  have run: "unlink i h = Some h2"
    using l(3) e(1,2) ends range
    by (cases "xs = []"; cases "ys = []") (simp_all add: unlink_def node_def edit_def h1_def h2_def)
  have "linked (ht_nodes h2) no_node xs ?n" using lx outx by (auto simp: h2_def)
  moreover have "linked (ht_nodes h2) ?p ys no_node" using relink_prev [OF ly d(2)] by (auto simp: h2_def)
  moreover have "ht_head h2 = first (xs @ ys) no_node" using e(3) by (cases xs) (auto simp: h1_def h2_def)
  moreover have "ht_tail h2 = final (xs @ ys) no_node" using e(4) by (cases ys) (auto simp: h1_def h2_def)
  ultimately have "chain h2 (xs @ ys)" using d l(4) len by (auto simp: chain_def h2_def)
  moreover have "same_data h h2"
    by (simp add: same_data_def payload_def h1_def h2_def del: map_update)
  ultimately show ?thesis using run that by blast
qed

lemma push_to_head_chain:
  assumes "chain h js" "i < length (ht_nodes h)" "i \<notin> set js"
  obtains h' where "push_to_head i h = Some h'" "chain h' (i # js)" "same_data h h'"
proof -
  let ?ns = "ht_nodes h"
  from assms(1) have l: "linked ?ns no_node js no_node" "distinct js" "length ?ns \<le> no_node"
    and e: "ht_head h = first js no_node" "ht_tail h = final js no_node" by (auto simp: chain_def)
  note ends = ends_no_node [OF l(1,3)] and range = linked_ends [OF l(1), of no_node]
  let ?ms = "?ns[i := (?ns ! i)\<lparr>sl_prev := no_node, sl_next := first js no_node\<rparr>]"
  let ?f = "first js no_node"
  have lm: "linked ?ms no_node js no_node" using l(1) assms(3) by simp
  have fi: "js \<noteq> [] \<Longrightarrow> ?f \<noteq> i" using assms(3) by (cases js) auto
  define h2 where "h2 = h\<lparr>ht_nodes := (if js \<noteq> [] then ?ms[?f := (?ms ! ?f)\<lparr>sl_prev := i\<rparr>] else ?ms), ht_head := i,
      ht_tail := final js i\<rparr>"
  have run: "push_to_head i h = Some h2"
    using assms(2) e ends range
    by (cases "js = []") (auto simp: push_to_head_def edit_def h2_def Let_def final_def)
  have "linked (ht_nodes h2) i js no_node"
    using relink_prev [OF lm l(2)] lm by (cases "js = []") (auto simp: h2_def)
  moreover have "sl_prev (ht_nodes h2 ! i) = no_node \<and> sl_next (ht_nodes h2 ! i) = ?f"
    using assms(2) fi by (auto simp: h2_def)
  ultimately have "chain h2 (i # js)" using l assms(2,3) by (simp add: chain_def h2_def)
  moreover have "same_data h h2"
    by (simp add: same_data_def payload_def h2_def del: map_update)
  ultimately show ?thesis using run that by blast
qed

lemma move_to_head_chain:
  assumes "chain h js" "i \<in> set js"
  obtains h' where "move_to_head i h = Some h'" "chain h' (i # remove1 i js)" "same_data h h'"
proof -
  obtain xs ys where js: "js = xs @ i # ys" "i \<notin> set xs" using assms(2) by (metis split_list_first)
  then have rem: "remove1 i js = xs @ ys" by (simp add: remove1_append)
  show ?thesis
  proof (cases "xs = []")
    case True
    with assms(1) js have "i = ht_head h" by (simp add: chain_def)
    with that [of h] assms(1) js rem True show ?thesis by (simp add: move_to_head_def)
  next
    case False
    have d: "distinct js" using assms(1) by (simp add: chain_def)
    have "ht_head h = first xs i" using assms(1) js by (simp add: chain_def)
    with False js have ne: "i \<noteq> ht_head h" by (cases xs) auto
    obtain h1 where u: "unlink i h = Some h1" "chain h1 (xs @ ys)" "same_data h h1"
      using unlink_chain assms(1) js(1) by metis
    have "i < length (ht_nodes h1)"
      using assms js(1) same_data_length [OF u(3)] by (auto simp: chain_def)
    then obtain h2 where "push_to_head i h1 = Some h2" "chain h2 (i # xs @ ys)" "same_data h1 h2"
      using push_to_head_chain [OF u(2)] d js by auto
    with that [of h2] u ne rem same_data_trans show ?thesis by (simp add: move_to_head_def)
  qed
qed

section \<open>The cache as a list\<close>

text \<open>The specification: the cached blobs, most recently used first.\<close>

type_synonym lru = "(digest \<times> bytes) list"

definition weight :: "lru \<Rightarrow> nat" where
  "weight es = sum_list (map (length \<circ> snd) es)"

definition without :: "digest \<Rightarrow> lru \<Rightarrow> lru" where
  "without d es = filter (\<lambda>e. fst e \<noteq> d) es"

definition lru_touch :: "digest \<Rightarrow> lru \<Rightarrow> lru" where
  "lru_touch d es = (case map_of es d of None \<Rightarrow> es | Some b \<Rightarrow> (d, b) # without d es)"

definition lru_enter :: "nat \<Rightarrow> digest \<Rightarrow> bytes \<Rightarrow> lru \<Rightarrow> lru" where
  "lru_enter cap d b es =
     (if cap = 0 then es
      else if map_of es d \<noteq> None then (d, b) # without d es
      else if length b > cap then es else (d, b) # es)"

function trim :: "nat \<Rightarrow> lru \<Rightarrow> lru" where
  "trim cap es = (if weight es \<le> cap then es else trim cap (butlast es))"
  by pat_completeness auto
termination
  by (relation "measure (\<lambda>(_, es). length es)") (auto simp: weight_def neq_Nil_conv intro!: diff_less)

declare trim.simps [simp del]

lemma trim_weight: "weight (trim cap es) \<le> cap"
  by (induction cap es rule: trim.induct) (simp add: trim.simps)

lemma weight_simps [simp]: "weight [] = 0" "weight (e # es) = length (snd e) + weight es" "weight (xs @ ys) = weight xs + weight ys"
  by (simp_all add: weight_def)

definition entries :: "hot_tier \<Rightarrow> nat list \<Rightarrow> lru" where
  "entries h js = map (\<lambda>j. payload h ! j) js"

definition good :: "hot_tier \<Rightarrow> nat list \<Rightarrow> bool" where
  "good h js \<longleftrightarrow> chain h js \<and> distinct (js @ ht_free h) \<and> set (js @ ht_free h) = {..<length (ht_nodes h)} \<and>
     distinct (map fst (ht_map h)) \<and> (\<forall>d i. map_of (ht_map h) d = Some i \<longleftrightarrow> i \<in> set js \<and> fst (payload h ! i) = d)"

definition caches :: "hot_tier \<Rightarrow> lru \<Rightarrow> bool" where
  "caches h es \<longleftrightarrow> (\<exists>js. good h js \<and> es = entries h js)"

lemma caches_new: "caches (hot_new cap) []"
  by (auto simp: caches_def good_def chain_def hot_new_def entries_def)

lemma good_range: "good h js \<Longrightarrow> i \<in> set js \<Longrightarrow> i < length (ht_nodes h)"
  by (auto simp: good_def)

lemma good_same_data:
  assumes "good h js" "same_data h h'" "chain h' ks" "set ks = set js"
  shows "good h' ks" "entries h' = entries h"
proof -
  from assms(3) have "distinct ks" by (simp add: chain_def)
  with assms same_data_length [OF assms(2)] show "good h' ks" by (simp add: good_def same_data_def)
  from assms(2) show "entries h' = entries h" by (simp add: fun_eq_iff entries_def same_data_def)
qed

lemma good_distinct_digests: "good h js \<Longrightarrow> i \<in> set js \<Longrightarrow> j \<in> set js \<Longrightarrow> fst (payload h ! i) = fst (payload h ! j) \<Longrightarrow> i = j"
  by (metis good_def option.inject)

lemma good_distinct_entries: "good h js \<Longrightarrow> distinct (map fst (entries h js))"
  using good_distinct_digests [of h js] by (auto simp: entries_def comp_def distinct_map inj_on_def good_def)

lemma lookup_hit:
  assumes "good h js" "map_of (ht_map h) d = Some i"
  shows "i \<in> set js" "payload h ! i = (d, sl_bytes (ht_nodes h ! i))" "map_of (entries h js) d = Some (sl_bytes (ht_nodes h ! i))"
    and "entries h (remove1 i js) = without d (entries h js)"
proof -
  from assms show i: "i \<in> set js" by (simp add: good_def)
  from assms have fd: "fst (payload h ! i) = d" by (simp add: good_def)
  then show p: "payload h ! i = (d, sl_bytes (ht_nodes h ! i))" using good_range [OF assms(1) i] by (simp add: payload_nth)
  have "distinct (map fst (entries h js))" by (rule good_distinct_entries [OF assms(1)])
  moreover have "(d, sl_bytes (ht_nodes h ! i)) \<in> set (entries h js)" using i p by (force simp: entries_def)
  ultimately show "map_of (entries h js) d = Some (sl_bytes (ht_nodes h ! i))" by simp
  have "distinct js" using assms(1) by (simp add: good_def)
  moreover have "filter (\<lambda>j. i \<noteq> j) js = filter (\<lambda>j. fst (payload h ! j) \<noteq> d) js"
    using good_distinct_digests [OF assms(1) i] fd by (intro filter_cong) auto
  ultimately show "entries h (remove1 i js) = without d (entries h js)"
    by (simp add: entries_def without_def filter_map comp_def distinct_remove1_removeAll removeAll_filter_not_eq)
qed

lemma lookup_miss: "good h js \<Longrightarrow> map_of (ht_map h) d = None \<Longrightarrow> map_of (entries h js) d = None"
  by (force simp: good_def entries_def map_of_eq_None_iff image_iff)

lemma hot_get_caches:
  assumes "caches h es"
  obtains h' where "hot_get d h = Some (map_of es d, h')" "caches h' (lru_touch d es)" "ht_bytes h' = ht_bytes h"
    "ht_capacity h' = ht_capacity h" "length (ht_nodes h') = length (ht_nodes h)"
proof -
  from assms obtain js where js: "good h js" "es = entries h js" by (auto simp: caches_def)
  show ?thesis
  proof (cases "map_of (ht_map h) d")
    case None
    with that [of h] lookup_miss [OF js(1) None] js(2) assms show ?thesis by (simp add: hot_get_def lru_touch_def)
  next
    case (Some i)
    note hit = lookup_hit [OF js(1) Some]
    obtain h' where m: "move_to_head i h = Some h'" "chain h' (i # remove1 i js)" "same_data h h'"
      using move_to_head_chain js(1) hit(1) by (metis good_def)
    have d: "distinct js" using js(1) by (simp add: good_def)
    have "set (i # remove1 i js) = set js" using hit(1) d by auto
    note g = good_same_data [OF js(1) m(3,2) this]
    have i: "i < length (ht_nodes h)" by (rule good_range [OF js(1) hit(1)])
    have "payload h' = payload h" using m(3) by (simp add: same_data_def)
    then have b: "sl_bytes (ht_nodes h' ! i) = sl_bytes (ht_nodes h ! i)"
      using i same_data_length [OF m(3)] payload_nth [of i h] payload_nth [of i h'] by simp
    have run: "hot_get d h = Some (map_of es d, h')"
      using Some m(1) i hit(3) js(2) same_data_length [OF m(3)] b by (simp add: hot_get_def node_def)
    have "lru_touch d es = entries h' (i # remove1 i js)"
      using hit g(2) js(2) by (simp add: lru_touch_def entries_def)
    then have "caches h' (lru_touch d es)" using g(1) by (auto simp: caches_def)
    with run that [of h'] m(3) same_data_length [OF m(3)] show ?thesis by (simp add: same_data_def)
  qed
qed

section \<open>Eviction\<close>

lemma evict_tail_good:
  assumes "good h (js @ [i])"
  obtains h' where "evict_tail h = Some h'" "good h' js" "entries h' js = entries h js"
    "ht_bytes h' = ht_bytes h - length (snd (payload h ! i))" "ht_capacity h' = ht_capacity h"
    "length (ht_nodes h') = length (ht_nodes h)"
proof -
  from assms have c: "chain h (js @ i # [])" and i: "i < length (ht_nodes h)" "i \<notin> set js" "i \<notin> set (ht_free h)"
    and tail: "ht_tail h = i" by (auto simp: good_def chain_def)
  obtain h1 where u: "unlink i h = Some h1" "chain h1 (js @ [])" "same_data h h1" by (rule unlink_chain [OF c])
  let ?s = "ht_nodes h ! i" and ?r = "\<lambda>s. s\<lparr>sl_bytes := [], sl_prev := no_node, sl_next := no_node\<rparr>"
  let ?ns = "(ht_nodes h1)[i := ?r (ht_nodes h1 ! i)]"
  define h2 where "h2 = h1\<lparr>ht_map := AList.delete (sl_digest ?s) (ht_map h), ht_bytes := ht_bytes h - length (sl_bytes ?s),
      ht_nodes := ?ns, ht_free := ht_free h @ [i]\<rparr>"
  have len: "length (ht_nodes h1) = length (ht_nodes h)" by (rule same_data_length [OF u(3)])
  have run: "evict_tail h = Some h2"
    using u i tail len
    by (simp add: evict_tail_def node_def recycle_def edit_def h2_def Let_def same_data_def sat_sub_def)
  have pay: "payload h2 = (payload h)[i := (sl_digest ?s, [])]"
  proof -
    have "sl_digest (ht_nodes h1 ! i) = sl_digest ?s"
      using u(3) i len payload_nth [of i h] payload_nth [of i h1] by (simp add: same_data_def)
    with u(3) show ?thesis by (simp add: payload_def h2_def map_update same_data_def)
  qed
  have ent: "entries h2 js = entries h js" using i pay by (auto simp: entries_def intro!: nth_list_update_neq)
  have "chain h2 js" using u(2) i by (simp add: chain_def h2_def)
  moreover have "set (js @ ht_free h2) = {..<length (ht_nodes h2)}" "distinct (js @ ht_free h2)"
    using assms len i by (auto simp: good_def h2_def)
  moreover have "distinct (map fst (ht_map h2))" using assms by (simp add: good_def h2_def distinct_delete)
  moreover have "map_of (ht_map h2) d = Some j \<longleftrightarrow> j \<in> set js \<and> fst (payload h2 ! j) = d" for d j
  proof -
    have "map_of (ht_map h) d = Some j \<longleftrightarrow> j \<in> set (js @ [i]) \<and> fst (payload h ! j) = d" using assms by (simp add: good_def)
    moreover have "fst (payload h ! i) = sl_digest ?s" using i by (simp add: payload_nth)
    moreover have "j \<in> set js \<Longrightarrow> fst (payload h ! j) \<noteq> fst (payload h ! i)"
      using good_distinct_digests [OF assms, of j i] i by auto
    ultimately show ?thesis using i pay by (cases "j = i") (auto simp: h2_def delete_conv' restrict_map_def)
  qed
  ultimately have "good h2 js" unfolding good_def by blast
  with run ent that [of h2] i u(3) len show ?thesis by (simp add: h2_def payload_nth same_data_def)
qed

lemma evict_caches:
  assumes "good h js"
  shows "\<exists>h' n. evict_until_under_capacity h = Some h' \<and> caches h' (take n (entries h js)) \<and>
    ht_capacity h' = ht_capacity h \<and> length (ht_nodes h') = length (ht_nodes h) \<and>
    (ht_bytes h = weight (entries h js) \<longrightarrow>
       take n (entries h js) = trim (ht_capacity h) (entries h js) \<and> ht_bytes h' = weight (trim (ht_capacity h) (entries h js)))"
  using assms
proof (induction js arbitrary: h rule: rev_induct)
  case Nil
  then have "ht_tail h = no_node" by (simp add: good_def chain_def)
  with Nil show ?case
    by (auto simp: evict_until_under_capacity.simps [of h] caches_def entries_def trim.simps)
next
  case (snoc i js)
  show ?case
  proof (cases "ht_bytes h > ht_capacity h")
    case True
    obtain h1 where h1: "evict_tail h = Some h1" "good h1 js" "entries h1 js = entries h js"
      "ht_bytes h1 = ht_bytes h - length (snd (payload h ! i))" "ht_capacity h1 = ht_capacity h"
      "length (ht_nodes h1) = length (ht_nodes h)" by (rule evict_tail_good [OF snoc.prems])
    from snoc.IH [OF h1(2)] obtain h' n where ih: "evict_until_under_capacity h1 = Some h'"
      "caches h' (take n (entries h js))" "ht_capacity h' = ht_capacity h" "length (ht_nodes h') = length (ht_nodes h)"
      "ht_bytes h1 = weight (entries h js) \<longrightarrow>
         take n (entries h js) = trim (ht_capacity h) (entries h js) \<and> ht_bytes h' = weight (trim (ht_capacity h) (entries h js))"
      by (auto simp: h1)
    have "ht_tail h = i" "i < no_node" using snoc.prems by (auto simp: good_def chain_def)
    with True ih(1) h1(1) have run: "evict_until_under_capacity h = Some h'"
      by (simp add: evict_until_under_capacity.simps [of h])
    have all: "entries h (js @ [i]) = entries h js @ [payload h ! i]" by (simp add: entries_def)
    have n: "take (min n (length js)) (entries h (js @ [i])) = take n (entries h js)"
      by (simp add: all) (simp add: entries_def take_map min_def)
    have w: "ht_bytes h = weight (entries h (js @ [i])) \<Longrightarrow> ht_bytes h1 = weight (entries h js)" by (simp add: all h1(4))
    have t: "ht_bytes h = weight (entries h (js @ [i])) \<Longrightarrow> trim (ht_capacity h) (entries h (js @ [i])) = trim (ht_capacity h) (entries h js)"
      using True trim.simps [of "ht_capacity h" "entries h (js @ [i])"] by (simp add: all)
    have "ht_bytes h = weight (entries h (js @ [i])) \<Longrightarrow>
        take n (entries h js) = trim (ht_capacity h) (entries h (js @ [i])) \<and>
        ht_bytes h' = weight (trim (ht_capacity h) (entries h (js @ [i])))"
      using ih(5) t w by simp
    with run ih n show ?thesis by (intro exI [of _ h'] exI [of _ "min n (length js)"]) simp
  next
    case False
    then have "evict_until_under_capacity h = Some h" by (simp add: evict_until_under_capacity.simps [of h])
    moreover have "caches h (entries h (js @ [i]))" using snoc.prems by (auto simp: caches_def)
    ultimately show ?thesis using False
      by (intro exI [of _ h] exI [of _ "length (entries h (js @ [i]))"]) (simp add: trim.simps)
  qed
qed

section \<open>Insertion\<close>

lemma alloc_good:
  assumes "good h js" "length (ht_nodes h) < no_node" "map_of (ht_map h) d = None"
  obtains i h' where "alloc d b h = Some (i, h')" "chain h' js" "i < length (ht_nodes h')" "i \<notin> set js"
    "payload h' ! i = (d, b)" "entries h' js = entries h js" "ht_map h' = ht_map h" "ht_bytes h' = ht_bytes h"
    "ht_capacity h' = ht_capacity h" "length (ht_nodes h') \<le> Suc (length (ht_nodes h))"
    "distinct (i # js @ ht_free h')" "set (i # js @ ht_free h') = {..<length (ht_nodes h')}"
    "\<forall>j \<in> set js. payload h' ! j = payload h ! j"
proof -
  let ?s = "\<lparr>sl_digest = d, sl_bytes = b, sl_prev = no_node, sl_next = no_node\<rparr>"
  let ?a = "\<lambda>s. (sl_digest s, sl_bytes s)"
  have l: "linked (ht_nodes h) no_node js no_node" using assms(1) by (simp add: good_def chain_def)
  show ?thesis
  proof (cases "ht_free h = []")
    case True
    let ?n = "length (ht_nodes h)" and ?h = "h\<lparr>ht_nodes := ht_nodes h @ [?s]\<rparr>"
    have mem: "set js = {..<?n}" using assms(1) True by (simp add: good_def)
    have "linked (ht_nodes ?h) no_node js no_node"
    proof -
      have "linked (ns @ [t]) p js q" if "linked ns p js q" for ns t p q and js :: "nat list"
        using that by (induction js arbitrary: p) (auto simp: nth_append)
      with l show ?thesis by simp
    qed
    moreover have old: "j \<in> set js \<Longrightarrow> payload ?h ! j = payload h ! j" for j
      using mem by (simp add: payload_def nth_append)
    moreover from old have "entries ?h js = entries h js" by (simp add: entries_def)
    moreover have "payload ?h ! ?n = (d, b)" by (simp add: payload_def nth_append)
    moreover have "distinct js" using assms(1) by (simp add: good_def)
    ultimately show ?thesis using that [of ?n ?h] assms True mem
      by (auto simp: alloc_def good_def chain_def lessThan_Suc)
  next
    case False
    let ?i = "last (ht_free h)"
    let ?h = "h\<lparr>ht_free := butlast (ht_free h), ht_nodes := (ht_nodes h)[?i := ?s]\<rparr>"
    from False obtain fs where fs: "ht_free h = fs @ [?i]" by (metis append_butlast_last_id)
    have mem: "distinct (js @ fs @ [?i])" "set (js @ fs @ [?i]) = {..<length (ht_nodes h)}"
      using assms(1) unfolding good_def fs [symmetric] by simp_all
    then have i: "?i < length (ht_nodes h)" "?i \<notin> set js" by auto
    have old: "j \<in> set js \<Longrightarrow> payload ?h ! j = payload h ! j" for j
      using i by (cases "j = ?i") (auto simp: payload_def map_update)
    then have "entries ?h js = entries h js" by (simp add: entries_def)
    moreover have "payload ?h ! ?i = (d, b)" using i by (simp add: payload_def)
    moreover have "alloc d b h = Some (?i, ?h)" using False i by (simp add: alloc_def edit_def Let_def)
    moreover have "chain ?h js" using assms(1) i(2) by (simp add: good_def chain_def)
    moreover have "butlast (ht_free h) = fs" by (metis butlast_snoc fs)
    ultimately show ?thesis using that [of ?i ?h] mem i old by auto
  qed
qed

lemma enter_fresh:
  assumes "good h js" "length (ht_nodes h) < no_node" "map_of (ht_map h) d = None"
  obtains i h1 h2 where "alloc d b h = Some (i, h1)"
    "push_to_head i (h1\<lparr>ht_map := AList.update d i (ht_map h1), ht_bytes := sat_add (ht_bytes h1) (length b)\<rparr>) = Some h2"
    "good h2 (i # js)" "entries h2 (i # js) = (d, b) # entries h js" "ht_bytes h2 = sat_add (ht_bytes h) (length b)"
    "ht_capacity h2 = ht_capacity h" "length (ht_nodes h2) \<le> Suc (length (ht_nodes h))"
proof -
  obtain i h1 where a: "alloc d b h = Some (i, h1)" "chain h1 js" "i < length (ht_nodes h1)" "i \<notin> set js"
    "payload h1 ! i = (d, b)" "entries h1 js = entries h js" "ht_map h1 = ht_map h" "ht_bytes h1 = ht_bytes h"
    "ht_capacity h1 = ht_capacity h" "length (ht_nodes h1) \<le> Suc (length (ht_nodes h))"
    "distinct (i # js @ ht_free h1)" "set (i # js @ ht_free h1) = {..<length (ht_nodes h1)}"
    "\<forall>j \<in> set js. payload h1 ! j = payload h ! j"
    by (rule alloc_good [OF assms, of b])
  let ?h = "h1\<lparr>ht_map := AList.update d i (ht_map h1), ht_bytes := sat_add (ht_bytes h1) (length b)\<rparr>"
  have c: "chain ?h js" using a(2) by (simp add: chain_def)
  obtain h2 where p: "push_to_head i ?h = Some h2" "chain h2 (i # js)" "same_data ?h h2"
    by (rule push_to_head_chain [OF c]) (use a in auto)
  have pay: "payload h2 = payload h1" using p(3) by (simp add: same_data_def payload_def)
  have "map_of (ht_map h2) e = Some j \<longleftrightarrow> j \<in> set (i # js) \<and> fst (payload h2 ! j) = e" for e j
  proof -
    have "map_of (ht_map h) e = Some j \<longleftrightarrow> j \<in> set js \<and> fst (payload h ! j) = e" using assms(1) by (simp add: good_def)
    moreover have "j \<in> set js \<Longrightarrow> fst (payload h ! j) \<noteq> d" using assms(1,3) by (auto simp: good_def)
    ultimately show ?thesis using p(3) a(4,5,7,13) pay by (auto simp: same_data_def update_conv')
  qed
  moreover have "distinct (map fst (ht_map h2))" using assms(1) p(3) a(7) by (simp add: good_def same_data_def distinct_update)
  ultimately have "good h2 (i # js)"
    using p(2,3) a(11,12) same_data_length [OF p(3)] by (simp add: good_def same_data_def)
  moreover have "entries h2 (i # js) = (d, b) # entries h js" using pay a(5,6) by (simp add: entries_def)
  ultimately show ?thesis using that [OF a(1) p(1)] a(8,9,10) p(3) same_data_length [OF p(3)] by (simp add: same_data_def)
qed

lemma enter_refresh:
  assumes "good h js" "map_of (ht_map h) d = Some i"
  obtains h1 h2 where "edit i (\<lambda>s. s\<lparr>sl_bytes := b\<rparr>) (h\<lparr>ht_bytes := w\<rparr>) = Some h1" "move_to_head i h1 = Some h2"
    "good h2 (i # remove1 i js)" "entries h2 (i # remove1 i js) = (d, b) # without d (entries h js)"
    "ht_bytes h2 = w" "ht_capacity h2 = ht_capacity h" "length (ht_nodes h2) = length (ht_nodes h)"
proof -
  note hit = lookup_hit [OF assms]
  have i: "i < length (ht_nodes h)" by (rule good_range [OF assms(1) hit(1)])
  let ?h = "h\<lparr>ht_bytes := w, ht_nodes := (ht_nodes h)[i := (ht_nodes h ! i)\<lparr>sl_bytes := b\<rparr>]\<rparr>"
  have e: "edit i (\<lambda>s. s\<lparr>sl_bytes := b\<rparr>) (h\<lparr>ht_bytes := w\<rparr>) = Some ?h" using i by (simp add: edit_def)
  have d: "distinct js" "chain h js" using assms(1) by (simp_all add: good_def)
  have lk: "linked (ns[i := (ns ! i)\<lparr>sl_bytes := b\<rparr>]) p ks q = linked ns p ks q" if "i < length ns" for ns p q and ks
    using that by (induction ks arbitrary: p) (auto simp: nth_list_update)
  have c: "chain ?h js" using d(2) i by (simp add: chain_def lk)
  obtain h2 where m: "move_to_head i ?h = Some h2" "chain h2 (i # remove1 i js)" "same_data ?h h2"
    by (rule move_to_head_chain [OF c hit(1)])
  have pay: "payload ?h = (payload h)[i := (d, b)]"
    using hit(2) i by (simp add: payload_def map_update)
  have fsts: "fst (payload ?h ! j) = fst (payload h ! j)" for j
    using hit(2) i pay by (cases "j = i") (simp_all add: payload_length)
  then have "good ?h js" using assms(1) c by (simp add: good_def)
  moreover have "set (i # remove1 i js) = set js" using hit(1) d by auto
  ultimately have g: "good h2 (i # remove1 i js)" "entries h2 = entries ?h"
    using good_same_data [OF _ m(3,2)] by blast+
  have "entries ?h (remove1 i js) = entries h (remove1 i js)"
    using d(1) pay by (auto simp: entries_def intro!: nth_list_update_neq)
  moreover have "entries h2 (i # remove1 i js) = payload ?h ! i # entries ?h (remove1 i js)"
    using g(2) by (simp add: entries_def)
  ultimately have "entries h2 (i # remove1 i js) = (d, b) # without d (entries h js)"
    using hit(4) pay i by (simp add: payload_length)
  with that [OF e m(1) g(1)] m(3) same_data_length [OF m(3)] show ?thesis by (simp add: same_data_def)
qed

lemma weight_without: "map_of es d = Some b \<Longrightarrow> distinct (map fst es) \<Longrightarrow> weight (without d es) = weight es - length b \<and> length b \<le> weight es"
proof (induction es)
  case (Cons e es)
  show ?case
  proof (cases "fst e = d")
    case True
    with Cons.prems have "d \<notin> fst ` set es" by simp
    then have "without d es = es" by (auto simp: without_def filter_id_conv image_iff)
    with True Cons.prems show ?thesis by (cases e) (simp add: without_def)
  next
    case False
    with Cons show ?thesis by (cases e) (auto simp: without_def)
  qed
qed simp

lemma caches_distinct: "caches h es \<Longrightarrow> distinct (map fst es)"
  using good_distinct_entries by (auto simp: caches_def)

lemma hot_put_caches:
  assumes "caches h es" "length (ht_nodes h) < no_node"
  shows "\<exists>h' n. hot_put d b h = Some h' \<and> caches h' (take n (lru_enter (ht_capacity h) d b es)) \<and>
    ht_capacity h' = ht_capacity h \<and> length (ht_nodes h') \<le> Suc (length (ht_nodes h)) \<and>
    (ht_bytes h = weight es \<and> weight es \<le> ht_capacity h \<and> ht_capacity h + length b \<le> u64_max \<longrightarrow>
       take n (lru_enter (ht_capacity h) d b es) = trim (ht_capacity h) (lru_enter (ht_capacity h) d b es) \<and>
       ht_bytes h' = weight (trim (ht_capacity h) (lru_enter (ht_capacity h) d b es)))"
    (is "\<exists>h' n. ?P h' n")
proof -
  let ?cap = "ht_capacity h"
  from assms(1) obtain js where js: "good h js" "es = entries h js" by (auto simp: caches_def)
  have skip: "\<exists>h' n. ?P h' n" if "hot_put d b h = Some h" "lru_enter ?cap d b es = es"
    using that assms by (intro exI [of _ h] exI [of _ "length es"]) (auto simp: trim.simps [of ?cap es])
  have settle: "\<exists>h' n. ?P h' n" if "hot_put d b h = evict_until_under_capacity g" "good g ks"
    "entries g ks = lru_enter ?cap d b es" "ht_capacity g = ?cap" "length (ht_nodes g) \<le> Suc (length (ht_nodes h))"
    "ht_bytes h = weight es \<and> weight es \<le> ?cap \<and> ?cap + length b \<le> u64_max \<longrightarrow> ht_bytes g = weight (entries g ks)" for g ks
    using evict_caches [OF that(2)] that by (metis (no_types, lifting))
  consider "?cap = 0" | "?cap \<noteq> 0" "map_of (ht_map h) d = None" "length b > ?cap"
    | "?cap \<noteq> 0" "map_of (ht_map h) d = None" "length b \<le> ?cap" | i where "?cap \<noteq> 0" "map_of (ht_map h) d = Some i"
    by (cases "map_of (ht_map h) d"; cases "?cap = 0"; cases "length b \<le> ?cap") auto
  then show ?thesis
  proof cases
    case 1
    show ?thesis by (rule skip) (simp_all add: 1 hot_put_def lru_enter_def)
  next
    case 2
    with lookup_miss [OF js(1)] js(2) show ?thesis by (intro skip) (simp_all add: hot_put_def lru_enter_def)
  next
    case 3
    with lookup_miss [OF js(1)] js(2) have en: "lru_enter ?cap d b es = (d, b) # es" by (simp add: lru_enter_def)
    obtain i h1 h2 where "alloc d b h = Some (i, h1)"
      "push_to_head i (h1\<lparr>ht_map := AList.update d i (ht_map h1), ht_bytes := sat_add (ht_bytes h1) (length b)\<rparr>) = Some h2"
      "good h2 (i # js)" "entries h2 (i # js) = (d, b) # entries h js" "ht_bytes h2 = sat_add (ht_bytes h) (length b)"
      "ht_capacity h2 = ?cap" "length (ht_nodes h2) \<le> Suc (length (ht_nodes h))"
      by (rule enter_fresh [OF js(1) assms(2) 3(2), of b])
    with 3 en js(2) show ?thesis
      by (intro settle [of h2 "i # js"]) (auto simp: hot_put_def Let_def sat_add_exact)
  next
    case (4 i)
    note hit = lookup_hit [OF js(1) 4(2)]
    let ?w = "sat_add (sat_sub (ht_bytes h) (length (sl_bytes (ht_nodes h ! i)))) (length b)"
    obtain h1 h2 where r: "edit i (\<lambda>s. s\<lparr>sl_bytes := b\<rparr>) (h\<lparr>ht_bytes := ?w\<rparr>) = Some h1" "move_to_head i h1 = Some h2"
      "good h2 (i # remove1 i js)" "entries h2 (i # remove1 i js) = (d, b) # without d (entries h js)"
      "ht_bytes h2 = ?w" "ht_capacity h2 = ?cap" "length (ht_nodes h2) = length (ht_nodes h)"
      by (rule enter_refresh [OF js(1) 4(2), of b ?w])
    have en: "lru_enter ?cap d b es = (d, b) # without d es" using 4(1) hit(3) js(2) by (simp add: lru_enter_def)
    have "weight (without d es) = weight es - length (sl_bytes (ht_nodes h ! i))"
      using weight_without caches_distinct [OF assms(1)] hit(3) js(2) by blast
    with 4 en js(2) r good_range [OF js(1) hit(1)] show ?thesis
      by (intro settle [of h2 "i # remove1 i js"]) (auto simp: hot_put_def node_def Let_def sat_sub_def sat_add_exact)
  qed
qed

section \<open>Runs\<close>

datatype hot_op = Get digest | Put digest bytes

fun hot_run :: "hot_op list \<Rightarrow> hot_tier \<Rightarrow> (bytes option list \<times> hot_tier) option" where
  "hot_run [] h = Some ([], h)"
| "hot_run (Get d # xs) h = do { (r, h) \<leftarrow> hot_get d h; (rs, h) \<leftarrow> hot_run xs h; Some (r # rs, h) }"
| "hot_run (Put d b # xs) h = do { h \<leftarrow> hot_put d b h; hot_run xs h }"

fun lru_run :: "nat \<Rightarrow> hot_op list \<Rightarrow> lru \<Rightarrow> bytes option list \<times> lru" where
  "lru_run cap [] es = ([], es)"
| "lru_run cap (Get d # xs) es = (let (rs, es') = lru_run cap xs (lru_touch d es) in (map_of es d # rs, es'))"
| "lru_run cap (Put d b # xs) es = lru_run cap xs (trim cap (lru_enter cap d b es))"

lemma weight_touch: "distinct (map fst es) \<Longrightarrow> weight (lru_touch d es) = weight es"
  using weight_without [of es d] by (auto simp: lru_touch_def split: option.splits)

fun fits :: "nat \<Rightarrow> hot_op \<Rightarrow> bool" where
  "fits cap (Get d) = True"
| "fits cap (Put d b) \<longleftrightarrow> cap + length b \<le> u64_max"

lemma hot_run_caches:
  assumes "caches h es" "ht_bytes h = weight es" "weight es \<le> ht_capacity h" "length (ht_nodes h) + length xs \<le> no_node"
    and "list_all (fits (ht_capacity h)) xs"
  shows "\<exists>h'. hot_run xs h = Some (fst (lru_run (ht_capacity h) xs es), h') \<and>
    caches h' (snd (lru_run (ht_capacity h) xs es)) \<and> ht_bytes h' = weight (snd (lru_run (ht_capacity h) xs es)) \<and>
    ht_bytes h' \<le> ht_capacity h"
  using assms
proof (induction xs arbitrary: h es)
  case (Cons x xs)
  show ?case
  proof (cases x)
    case (Get d)
    obtain g where g: "hot_get d h = Some (map_of es d, g)" "caches g (lru_touch d es)" "ht_bytes g = ht_bytes h"
      "ht_capacity g = ht_capacity h" "length (ht_nodes g) = length (ht_nodes h)"
      by (rule hot_get_caches [OF Cons.prems(1)])
    from Cons.IH [OF g(2)] g Cons.prems weight_touch [OF caches_distinct [OF Cons.prems(1)], of d] Get show ?thesis
      by (auto simp: case_prod_beta)
  next
    case (Put d b)
    let ?t = "trim (ht_capacity h) (lru_enter (ht_capacity h) d b es)"
    have room: "length (ht_nodes h) < no_node" using Cons.prems(4) by simp
    from hot_put_caches [OF Cons.prems(1) room, of d b] obtain g where g: "hot_put d b h = Some g" "caches g ?t"
      "ht_capacity g = ht_capacity h" "length (ht_nodes g) \<le> Suc (length (ht_nodes h))" "ht_bytes g = weight ?t"
      using Cons.prems Put by auto
    from Cons.IH [OF g(2,5)] g Cons.prems Put trim_weight show ?thesis by auto
  qed
qed auto

lemma caches_len:
  assumes "caches h es"
  shows "hot_len h = length es"
proof -
  from assms obtain js where js: "good h js" "es = entries h js" by (auto simp: caches_def)
  have "distinct (map fst (ht_map h))" "distinct (map fst es)"
    using js(1) caches_distinct [OF assms] by (simp_all add: good_def)
  moreover have "set (map fst (ht_map h)) = set (map fst es)"
  proof -
    have "d \<in> fst ` set (ht_map h) \<longleftrightarrow> d \<in> fst ` set es" for d
      using lookup_miss [OF js(1)] lookup_hit(3) [OF js(1)] js(2) by (metis map_of_eq_None_iff not_None_eq)
    then show ?thesis by auto
  qed
  ultimately show ?thesis by (metis distinct_card hot_len_def length_map)
qed

text \<open>C23. The pool of linked slots is an LRU cache.  Any sequence of lookups and insertions from the
  empty cache runs to the end, without an index out of range and with every eviction loop ending, and
  answers as the list in recency order does: a lookup moves its blob to the front, an insertion puts
  its blob in front and drops blobs from the back until the rest fits the byte budget.  The byte and
  entry counts are those of the list, and the bytes never exceed the budget.  The number of
  operations is below the index that stands for no slot, and the budget plus a blob fits a word.\<close>

theorem hot_tier_refines_lru:
  assumes "length xs \<le> no_node" "list_all (fits cap) xs"
  shows "\<exists>h. hot_run xs (hot_new cap) = Some (fst (lru_run cap xs []), h) \<and>
    hot_len h = length (snd (lru_run cap xs [])) \<and> ht_bytes h = weight (snd (lru_run cap xs [])) \<and> ht_bytes h \<le> cap"
  using hot_run_caches [OF caches_new, of cap xs] assms caches_len by (auto simp: hot_new_def)

definition demo_digest :: "nat \<Rightarrow> digest" where
  "demo_digest n = \<lparr>dg_hash = ''ab'', dg_size = int n\<rparr>"

definition demo_ops :: "hot_op list" where
  "demo_ops = [Put (demo_digest 1) [1], Put (demo_digest 2) [2, 3], Get (demo_digest 1)]"

lemma demo_ops_lru: "lru_run 2 demo_ops [] = ([None], [(demo_digest 2, [2, 3])])"
  by (simp add: demo_ops_def lru_touch_def lru_enter_def trim.simps demo_digest_def)

theorem hot_tier_refines_lru_witness:
  "\<exists>h. hot_run demo_ops (hot_new 2) = Some ([None], h) \<and> hot_len h = 1 \<and> ht_bytes h = 2"
proof -
  have "length demo_ops \<le> no_node" "list_all (fits 2) demo_ops" by (simp_all add: demo_ops_def no_node_def u64_max_def)
  from hot_tier_refines_lru [OF this] show ?thesis by (auto simp: demo_ops_lru)
qed

end
