(* ===== verification/Cas_Tiered.thy ===== *)
theory Cas_Tiered
  imports Cas_Hot_Tier
begin

text \<open>
  The tiered store of \<open>brokkr-cas/src/tiered.rs\<close>: a warm backend with the hot cache in front of it.
  The lemmas show, for any backend that keeps the contract of a blob store, that the cache changes no
  answer; the property instantiates the stack the code allows, the cache over the Bloom filter over
  a store.
\<close>

section \<open>Operations\<close>

type_synonym 'w tiered = "'w \<times> hot_tier"

fun hot_put_all :: "(digest \<times> bytes) list \<Rightarrow> hot_tier \<Rightarrow> hot_tier option" where
  "hot_put_all [] h = Some h"
| "hot_put_all ((d, b) # kvs) h = hot_put d b h \<bind> hot_put_all kvs"

fun hot_serve :: "digest list \<Rightarrow> hot_tier \<Rightarrow> (bytes option list \<times> hot_tier) option" where
  "hot_serve [] h = Some ([], h)"
| "hot_serve (d # ds) h = do { (r, h) \<leftarrow> hot_get d h; (rs, h) \<leftarrow> hot_serve ds h; Some (r # rs, h) }"

definition tiered_find_missing ::
  "'w cas_ops \<Rightarrow> digest list \<Rightarrow> 'w tiered \<Rightarrow> ((cas_error + digest list) \<times> 'w tiered) option" where
  "tiered_find_missing warm ds s = (let (r, w) = op_find_missing warm ds (fst s) in Some (r, (w, snd s)))"

definition tiered_update ::
  "'w cas_ops \<Rightarrow> (digest \<times> bytes) list \<Rightarrow> 'w tiered \<Rightarrow> ((cas_error + update_result list) \<times> 'w tiered) option" where
  "tiered_update warm blobs s =
     (case op_update warm blobs (fst s) of
        (Inl e, w) \<Rightarrow> Some (Inl e, (w, snd s))
      | (Inr results, w) \<Rightarrow> do {
          h \<leftarrow> hot_put_all (map snd (filter (\<lambda>(r, _). is_ok (ur_status r)) (zip results blobs))) (snd s);
          Some (Inr results, (w, h))
        })"

text \<open>The second pass of a read: the warm result of a fetched index goes into the output and, when it is a
  blob, into the hot tier.\<close>

fun fill :: "(nat \<times> 'r) list \<Rightarrow> 'r option list \<Rightarrow> 'r option list" where
  "fill [] out = out"
| "fill ((i, r) # xs) out = fill xs (out[i := Some r])"

definition promoted :: "((nat \<times> digest) \<times> (cas_error + bytes)) list \<Rightarrow> (digest \<times> bytes) list" where
  "promoted xs = List.map_filter (\<lambda>((_, d), r). case r of Inr b \<Rightarrow> Some (d, b) | Inl _ \<Rightarrow> None) xs"

definition tiered_read ::
  "'w cas_ops \<Rightarrow> digest list \<Rightarrow> 'w tiered \<Rightarrow> ((cas_error + (cas_error + bytes) list) \<times> 'w tiered) option" where
  "tiered_read warm ds s = do {
     (served, h) \<leftarrow> hot_serve ds (snd s);
     let out = map (map_option Inr) served;
     let to_fetch = filter (\<lambda>(i, _). out ! i = None) (zip [0..<length ds] ds);
     if to_fetch = [] then Some (Inr (map the (filter (\<lambda>x. x \<noteq> None) out)), (fst s, h))
     else case op_read warm (map snd to_fetch) (fst s) of
       (Inl e, w) \<Rightarrow> Some (Inl e, (w, h))
     | (Inr warm_results, w) \<Rightarrow> do {
         let fetched = zip to_fetch warm_results;
         h \<leftarrow> hot_put_all (promoted fetched) h;
         let out = fill (map (\<lambda>((i, _), r). (i, r)) fetched) out;
         Some (Inr (map the (filter (\<lambda>x. x \<noteq> None) out)), (w, h))
       }
   }"

section \<open>The cache agrees with the store\<close>

definition agrees :: "hot_tier \<Rightarrow> (digest \<rightharpoonup> bytes) \<Rightarrow> bool" where
  "agrees h held \<longleftrightarrow> (\<exists>es. caches h es \<and> (ht_capacity h = 0 \<longrightarrow> es = []) \<and> (\<forall>(d, b) \<in> set es. held d = Some b))"

lemma agrees_new: "agrees (hot_new cap) held"
  using caches_new by (fastforce simp: agrees_def)

lemma touch_set: "distinct (map fst es) \<Longrightarrow> set (lru_touch d es) = set es"
  by (auto simp: lru_touch_def without_def split: option.splits dest: map_of_SomeD eq_key_imp_eq_value)

lemma hot_get_agrees:
  assumes "agrees h held"
  shows "\<exists>r h'. hot_get d h = Some (r, h') \<and> agrees h' held \<and> (\<forall>b. r = Some b \<longrightarrow> held d = Some b) \<and>
    length (ht_nodes h') = length (ht_nodes h)"
proof -
  from assms obtain es where es: "caches h es" "ht_capacity h = 0 \<longrightarrow> es = []" "\<forall>(d, b) \<in> set es. held d = Some b"
    by (auto simp: agrees_def)
  obtain g where g: "hot_get d h = Some (map_of es d, g)" "caches g (lru_touch d es)" "ht_bytes g = ht_bytes h"
    "ht_capacity g = ht_capacity h" "length (ht_nodes g) = length (ht_nodes h)"
    by (rule hot_get_caches [OF es(1)])
  have "agrees g held"
    using g es touch_set [OF caches_distinct [OF es(1)], of d] by (auto simp: agrees_def intro!: exI [of _ "lru_touch d es"])
  moreover have "map_of es d = Some b \<Longrightarrow> held d = Some b" for b using es(3) by (auto dest: map_of_SomeD)
  ultimately show ?thesis using g by blast
qed

lemma hot_serve_agrees:
  "agrees h held \<Longrightarrow> \<exists>rs h'. hot_serve ds h = Some (rs, h') \<and> agrees h' held \<and> length rs = length ds \<and>
     (\<forall>i < length ds. \<forall>b. rs ! i = Some b \<longrightarrow> held (ds ! i) = Some b) \<and> length (ht_nodes h') = length (ht_nodes h)"
proof (induction ds arbitrary: h)
  case (Cons d ds)
  from hot_get_agrees [OF Cons.prems, of d] obtain r g where g: "hot_get d h = Some (r, g)" "agrees g held"
    "\<forall>b. r = Some b \<longrightarrow> held d = Some b" "length (ht_nodes g) = length (ht_nodes h)" by blast
  from Cons.IH [OF g(2)] obtain rs k where k: "hot_serve ds g = Some (rs, k)" "agrees k held" "length rs = length ds"
    "\<forall>i < length ds. \<forall>b. rs ! i = Some b \<longrightarrow> held (ds ! i) = Some b" "length (ht_nodes k) = length (ht_nodes g)" by blast
  have "\<forall>i < length (d # ds). \<forall>b. (r # rs) ! i = Some b \<longrightarrow> held ((d # ds) ! i) = Some b"
    using g(3) k(4) by (auto simp: nth_Cons split: nat.splits)
  with g k show ?case by simp
qed simp

lemma hot_put_agrees:
  assumes "agrees h held" "length (ht_nodes h) < no_node"
  shows "\<exists>h'. hot_put d b h = Some h' \<and> agrees h' (held(d \<mapsto> b)) \<and> length (ht_nodes h') \<le> Suc (length (ht_nodes h))"
proof -
  from assms obtain es where es: "caches h es" "ht_capacity h = 0 \<longrightarrow> es = []" "\<forall>(d, b) \<in> set es. held d = Some b"
    by (auto simp: agrees_def)
  from hot_put_caches [OF es(1) assms(2), of d b] obtain g n where g: "hot_put d b h = Some g"
    "caches g (take n (lru_enter (ht_capacity h) d b es))" "ht_capacity g = ht_capacity h"
    "length (ht_nodes g) \<le> Suc (length (ht_nodes h))" by blast
  have "\<forall>(e, c) \<in> set (lru_enter (ht_capacity h) d b es). (held(d \<mapsto> b)) e = Some c"
    using es(2,3) by (force simp: lru_enter_def without_def map_of_eq_None_iff split: if_splits)
  moreover have "ht_capacity h = 0 \<Longrightarrow> lru_enter (ht_capacity h) d b es = []" using es(2) by (simp add: lru_enter_def)
  ultimately have "agrees g (held(d \<mapsto> b))"
    using g unfolding agrees_def by (intro exI [of _ "take n (lru_enter (ht_capacity h) d b es)"]) (auto dest: in_set_takeD)
  with g show ?thesis by blast
qed

lemma hot_put_all_agrees:
  assumes "agrees h held" "length (ht_nodes h) + length kvs \<le> no_node"
  shows "\<exists>h'. hot_put_all kvs h = Some h' \<and> agrees h' (fold (\<lambda>(d, b) m. m(d \<mapsto> b)) kvs held) \<and>
    length (ht_nodes h') \<le> length (ht_nodes h) + length kvs"
  using assms
proof (induction kvs arbitrary: h held)
  case (Cons kv kvs)
  obtain d b where kv: "kv = (d, b)" by (cases kv)
  have "length (ht_nodes h) < no_node" using Cons.prems by simp
  from hot_put_agrees [OF Cons.prems(1) this, of d b] obtain g where g: "hot_put d b h = Some g"
    "agrees g (held(d \<mapsto> b))" "length (ht_nodes g) \<le> Suc (length (ht_nodes h))" by blast
  have "length (ht_nodes g) + length kvs \<le> no_node" using g(3) Cons.prems(2) by simp
  from Cons.IH [OF g(2) this] g kv show ?case by auto
qed simp

section \<open>A read through both tiers\<close>

lemma fill_length [simp]: "length (fill xs out) = length out"
  by (induction xs out rule: fill.induct) simp_all

lemma fill_nth:
  "distinct (map fst xs) \<Longrightarrow> j < length out \<Longrightarrow>
     fill xs out ! j = (case map_of xs j of Some r \<Rightarrow> Some r | None \<Rightarrow> out ! j)"
proof (induction xs out rule: fill.induct)
  case (2 i r xs out)
  then have "map_of xs i = None" by (simp add: map_of_eq_None_iff)
  with 2 show ?case by (cases "i = j"; cases "map_of xs j") simp_all
qed simp

lemma fill_missing:
  assumes "length rs = length ds" "\<forall>i < length ds. \<forall>b. rs ! i = Some b \<longrightarrow> f (ds ! i) = g b"
  defines "out \<equiv> map (map_option g) rs"
  shows "fill (map (\<lambda>(i, d). (i, f d)) (filter (\<lambda>(i, _). out ! i = None) (zip [0..<length ds] ds))) out = map (Some \<circ> f) ds"
    (is "fill ?xs out = _")
proof (rule nth_equalityI)
  show "length (fill ?xs out) = length (map (Some \<circ> f) ds)" using assms(1) by (simp add: out_def)
  fix j assume "j < length (fill ?xs out)"
  then have j: "j < length ds" "j < length out" using assms(1) by (simp_all add: out_def)
  have keys: "map fst ?xs = map fst (filter (\<lambda>(i, _). out ! i = None) (zip [0..<length ds] ds))" by (induction ds) auto
  have d: "distinct (map fst ?xs)" unfolding keys by (intro distinct_map_filter) simp
  show "fill ?xs out ! j = map (Some \<circ> f) ds ! j"
  proof (cases "rs ! j")
    case None
    then have "(j, f (ds ! j)) \<in> set ?xs" using j assms(1) by (force simp: out_def set_zip)
    then have "map_of ?xs j = Some (f (ds ! j))" using d by simp
    with j d show ?thesis by (simp add: fill_nth)
  next
    case (Some b)
    then have "map_of ?xs j = None" using j assms(1) by (auto simp: map_of_eq_None_iff out_def set_zip)
    with j d Some assms show ?thesis by (simp add: fill_nth out_def)
  qed
qed

lemma fold_known: "\<forall>(d, b) \<in> set kvs. held d = Some b \<Longrightarrow> fold (\<lambda>(d, b) m. m(d \<mapsto> b)) kvs held = held"
  by (induction kvs) (auto simp: fun_upd_idem)

lemma stored_filter: "stored ok blobs h = fold (\<lambda>(d, b) m. m(d \<mapsto> b)) (filter (\<lambda>(d, b). is_ok (ok d b)) blobs) h"
  by (induction blobs arbitrary: h) (auto simp: stored_def)

lemma accepted_pairs:
  "map snd (filter (\<lambda>(r, _). is_ok (ur_status r)) (zip (receipts ok blobs) blobs)) = filter (\<lambda>(d, b). is_ok (ok d b)) blobs"
  by (induction blobs) (auto simp: receipts_def)

lemma map_filter_length: "length (List.map_filter f xs) \<le> length xs"
  by (simp add: List.map_filter_def)

context blob_store
begin

lemma tiered_update_exact:
  assumes "inv w" "agrees h (holds w)" "length (ht_nodes h) + length blobs \<le> no_node"
  shows "\<exists>w' h'. tiered_update ops blobs (w, h) = Some (Inr (receipts ok blobs), (w', h')) \<and> inv w' \<and>
    holds w' = stored ok blobs (holds w) \<and> agrees h' (holds w') \<and> length (ht_nodes h') \<le> length (ht_nodes h) + length blobs"
proof -
  let ?kvs = "filter (\<lambda>(d, b). is_ok (ok d b)) blobs"
  from update [OF assms(1), of blobs] obtain w' where w: "op_update ops blobs w = (Inr (receipts ok blobs), w')"
    "inv w'" "holds w' = stored ok blobs (holds w)" by blast
  have len: "length ?kvs \<le> length blobs" by simp
  with assms(3) have "length (ht_nodes h) + length ?kvs \<le> no_node" by linarith
  from hot_put_all_agrees [OF assms(2) this] obtain h' where h': "hot_put_all ?kvs h = Some h'" "agrees h' (holds w')"
    "length (ht_nodes h') \<le> length (ht_nodes h) + length ?kvs" unfolding w(3) stored_filter by blast
  have "length (ht_nodes h') \<le> length (ht_nodes h) + length blobs" using h'(3) len by linarith
  with w h' show ?thesis by (auto simp: tiered_update_def accepted_pairs)
qed

lemma tiered_read_exact:
  assumes "inv w" "agrees h (holds w)" "length (ht_nodes h) + length ds \<le> no_node"
  shows "\<exists>w' h'. tiered_read ops ds (w, h) = Some (Inr (map (found (holds w)) ds), (w', h')) \<and> inv w' \<and>
    holds w' = holds w \<and> agrees h' (holds w') \<and> length (ht_nodes h') \<le> length (ht_nodes h) + length ds"
proof -
  from hot_serve_agrees [OF assms(2), of ds] obtain rs g where g: "hot_serve ds h = Some (rs, g)" "agrees g (holds w)"
    "length rs = length ds" "\<forall>i < length ds. \<forall>b. rs ! i = Some b \<longrightarrow> holds w (ds ! i) = Some b"
    "length (ht_nodes g) = length (ht_nodes h)" by blast
  let ?out = "map (map_option Inr) rs :: (cas_error + bytes) option list" and ?f = "found (holds w)"
  let ?fetch = "filter (\<lambda>(i, _). ?out ! i = None) (zip [0..<length ds] ds)"
  have "\<forall>i < length ds. \<forall>b. rs ! i = Some b \<longrightarrow> ?f (ds ! i) = Inr b" using g(4) by (simp add: found_def)
  note full = fill_missing [OF g(3) this]
  have flat: "map the (filter (\<lambda>x. x \<noteq> None) (map (Some \<circ> ?f) ds)) = map ?f ds" by (simp add: filter_map comp_def)
  show ?thesis
  proof (cases "?fetch = []")
    case True
    with full have "?out = map (Some \<circ> ?f) ds" by simp
    with True flat g assms(1) show ?thesis by (simp add: tiered_read_def)
  next
    case False
    from read [OF assms(1), of "map snd ?fetch"] obtain w' where w: "op_read ops (map snd ?fetch) w =
      (Inr (map ?f (map snd ?fetch)), w')" "inv w'" "holds w' = holds w" by blast
    let ?fetched = "zip ?fetch (map ?f (map snd ?fetch))"
    have z: "?fetched = map (\<lambda>t. (t, ?f (snd t))) ?fetch" by (simp add: zip_map2 zip_same_conv_map)
    have "length (promoted ?fetched) \<le> length ?fetched" unfolding promoted_def by (rule map_filter_length)
    also have "\<dots> \<le> length ds" using length_filter_le [of "\<lambda>(i, _). ?out ! i = None" "zip [0..<length ds] ds"] by simp
    finally have len: "length (promoted ?fetched) \<le> length ds" .
    have "\<forall>(d, b) \<in> set (promoted ?fetched). holds w d = Some b"
      unfolding z by (auto simp: promoted_def List.map_filter_def found_def split: option.splits sum.splits)
    note known = fold_known [OF this]
    have "length (ht_nodes g) + length (promoted ?fetched) \<le> no_node" using len assms(3) g(5) by linarith
    from hot_put_all_agrees [OF g(2) this] obtain h' where h': "hot_put_all (promoted ?fetched) g = Some h'"
      "agrees h' (holds w)" "length (ht_nodes h') \<le> length (ht_nodes g) + length (promoted ?fetched)" unfolding known by blast
    have "map (\<lambda>((i, _), r). (i, r)) ?fetched = map (\<lambda>(i, d). (i, ?f d)) ?fetch"
      unfolding z by (simp add: comp_def case_prod_beta)
    with full have "map the (filter (\<lambda>x. x \<noteq> None) (fill (map (\<lambda>((i, _), r). (i, r)) ?fetched) ?out)) = map ?f ds"
      using flat by simp
    with False g(1) w h' have "tiered_read ops ds (w, h) = Some (Inr (map ?f ds), (w', h'))"
      by (simp add: tiered_read_def Let_def)
    with w h' len g(5) show ?thesis by auto
  qed
qed

end

section \<open>Runs of the whole stack\<close>

datatype cas_call = Find "digest list" | Upload "(digest \<times> bytes) list" | Fetch "digest list"

datatype cas_answer = Missing "cas_error + digest list" | Uploaded "cas_error + update_result list"
  | Fetched "cas_error + (cas_error + bytes) list"

fun tiered_run :: "'w cas_ops \<Rightarrow> cas_call list \<Rightarrow> 'w tiered \<Rightarrow> (cas_answer list \<times> 'w tiered) option" where
  "tiered_run warm [] s = Some ([], s)"
| "tiered_run warm (Find ds # cs) s =
     do { (r, s) \<leftarrow> tiered_find_missing warm ds s; (rs, s) \<leftarrow> tiered_run warm cs s; Some (Missing r # rs, s) }"
| "tiered_run warm (Upload blobs # cs) s =
     do { (r, s) \<leftarrow> tiered_update warm blobs s; (rs, s) \<leftarrow> tiered_run warm cs s; Some (Uploaded r # rs, s) }"
| "tiered_run warm (Fetch ds # cs) s =
     do { (r, s) \<leftarrow> tiered_read warm ds s; (rs, s) \<leftarrow> tiered_run warm cs s; Some (Fetched r # rs, s) }"

text \<open>The specification: a map from digests to blobs.\<close>

fun map_run :: "(digest \<Rightarrow> bytes \<Rightarrow> string + unit) \<Rightarrow> cas_call list \<Rightarrow> (digest \<rightharpoonup> bytes) \<Rightarrow> cas_answer list" where
  "map_run ok [] m = []"
| "map_run ok (Find ds # cs) m = Missing (Inr (filter (\<lambda>d. m d = None) ds)) # map_run ok cs m"
| "map_run ok (Upload blobs # cs) m = Uploaded (Inr (receipts ok blobs)) # map_run ok cs (stored ok blobs m)"
| "map_run ok (Fetch ds # cs) m = Fetched (Inr (map (found m) ds)) # map_run ok cs m"

text \<open>Answers are compared up to the order in which missing digests are listed.\<close>

fun same_answer :: "cas_answer \<Rightarrow> cas_answer \<Rightarrow> bool" where
  "same_answer (Missing (Inr xs)) (Missing (Inr ys)) \<longleftrightarrow> mset xs = mset ys"
| "same_answer a b \<longleftrightarrow> a = b"

fun load :: "cas_call \<Rightarrow> nat" where
  "load (Find ds) = 0"
| "load (Upload blobs) = length blobs"
| "load (Fetch ds) = length ds"

context blob_store
begin

lemma tiered_run_exact:
  assumes "inv w" "agrees h (holds w)" "length (ht_nodes h) + sum_list (map load cs) \<le> no_node"
  shows "\<exists>as s. tiered_run ops cs (w, h) = Some (as, s) \<and> list_all2 same_answer as (map_run ok cs (holds w))"
  using assms
proof (induction cs arbitrary: w h)
  case (Cons c cs)
  show ?case
  proof (cases c)
    case (Find ds)
    from find_missing [OF Cons.prems(1), of ds] obtain ms w' where w: "op_find_missing ops ds w = (Inr ms, w')"
      "mset ms = mset (filter (\<lambda>d. holds w d = None) ds)" "inv w'" "holds w' = holds w" by blast
    have "length (ht_nodes h) + sum_list (map load cs) \<le> no_node" "agrees h (holds w')" using Cons.prems Find w by simp_all
    from Cons.IH [OF w(3) this(2,1)] w Find show ?thesis by (auto simp: tiered_find_missing_def)
  next
    case (Upload blobs)
    from Cons.prems Upload have "length (ht_nodes h) + length blobs \<le> no_node" by simp
    from tiered_update_exact [OF Cons.prems(1,2) this] obtain w' h' where
      w: "tiered_update ops blobs (w, h) = Some (Inr (receipts ok blobs), (w', h'))" "inv w'"
      "holds w' = stored ok blobs (holds w)" "agrees h' (holds w')" "length (ht_nodes h') \<le> length (ht_nodes h) + length blobs"
      by blast
    have "length (ht_nodes h') + sum_list (map load cs) \<le> no_node" using Cons.prems(3) w(5) Upload by simp
    from Cons.IH [OF w(2,4) this] w Upload show ?thesis by auto
  next
    case (Fetch ds)
    from Cons.prems Fetch have "length (ht_nodes h) + length ds \<le> no_node" by simp
    from tiered_read_exact [OF Cons.prems(1,2) this] obtain w' h' where
      w: "tiered_read ops ds (w, h) = Some (Inr (map (found (holds w)) ds), (w', h'))" "inv w'"
      "holds w' = holds w" "agrees h' (holds w')" "length (ht_nodes h') \<le> length (ht_nodes h) + length ds"
      by blast
    have "length (ht_nodes h') + sum_list (map load cs) \<le> no_node" using Cons.prems(3) w(5) Fetch by simp
    from Cons.IH [OF w(2,4) this] w Fetch show ?thesis by auto
  qed
qed simp

end

text \<open>C24. The stack of decorators is transparent.  Put the hot tier, of any byte budget, over the
  Bloom-filtered store, over any content that the filter was built from.  Every sequence of
  missing-blob queries, batch uploads and batch reads runs to the end and answers as a plain map from
  digests to blobs would: the same receipts, the same blobs and not-found errors in the same order,
  the same missing digests.  The number of digests handled is below the index that stands for no
  slot.\<close>

theorem store_stack_is_a_map:
  assumes "sum_list (map load cs) \<le> no_node"
  shows "\<exists>as s. tiered_run (bloom_ops (mem_ops ok)) cs (rebuild_from (map fst m) (m, bloom_new n k), hot_new cap) = Some (as, s) \<and>
    list_all2 same_answer as (map_run ok cs (map_of m))"
proof -
  let ?w = "rebuild_from (map fst m) (m, bloom_new n k)"
  have "fst ?w = m" by (simp add: rebuild_from_def)
  with bloom_store.tiered_run_exact [of ?w "hot_new cap" cs ok] agrees_new assms rebuild_covers [of m n k] show ?thesis
    by (simp add: hot_new_def)
qed

theorem store_stack_is_a_map_witness:
  "\<exists>as s. tiered_run (bloom_ops (mem_ops (\<lambda>_ _. Inr ()))) [Upload [(demo_digest 1, [7])], Fetch [demo_digest 1, demo_digest 2]]
       (rebuild_from [] ([], bloom_new 100 3), hot_new 5) = Some (as, s) \<and>
     list_all2 same_answer as
       [Uploaded (Inr [\<lparr>ur_digest = demo_digest 1, ur_status = Inr ()\<rparr>]),
        Fetched (Inr [Inr [7], Inl (NotFound (demo_digest 2))])]"
  using store_stack_is_a_map [of "[Upload [(demo_digest 1, [7])], Fetch [demo_digest 1, demo_digest 2]]" "\<lambda>_ _. Inr ()" "[]" 100 3 5]
  by (simp add: no_node_def u64_max_def receipts_def stored_def is_ok_def found_def demo_digest_def del: tiered_run.simps)

end
