(* ===== verification/Cas_Replica.thy ===== *)
theory Cas_Replica
  imports Cas_Store "HOL-Library.Product_Lexorder" "HOL-Library.Sublist"
begin

text \<open>
  Placement and replication of blobs: rendezvous hashing (\<open>brokkr-cas/src/ring.rs\<close>), the router's
  view of the cluster (\<open>router.rs\<close>), the membership that publishes it
  (\<open>brokkr-control/src/membership.rs\<close>) and the replicated store (\<open>replicated.rs\<close>).  The hash function
  is an argument.  A pool is an association list from node identifiers to store states; the parallel
  writes of one blob go to different stores, so they are performed in ring order here.
\<close>

section \<open>Rendezvous hashing\<close>

datatype node_status = Healthy | Suspect | Unreachable

fun is_eligible :: "node_status \<Rightarrow> bool" where
  "is_eligible Healthy = True"
| "is_eligible Suspect = True"
| "is_eligible Unreachable = False"

record ring_node =
  rn_id :: string
  rn_endpoint :: string
  rn_status :: node_status

definition as_bytes :: "string \<Rightarrow> bytes" where
  "as_bytes s = map of_char s"

definition from_be_bytes :: "bytes \<Rightarrow> nat" where
  "from_be_bytes bs = from_le_bytes (rev bs)"

definition score :: "(bytes \<Rightarrow> bytes) \<Rightarrow> string \<Rightarrow> digest \<Rightarrow> nat" where
  "score sha256 node_id d = from_be_bytes (take 16 (sha256 (as_bytes node_id @ [0x1f] @ as_bytes (dg_hash d))))"

text \<open>Score descending, then identifier ascending.\<close>

definition rank :: "(bytes \<Rightarrow> bytes) \<Rightarrow> digest \<Rightarrow> ring_node \<Rightarrow> int \<times> string" where
  "rank sha256 d n = (- int (score sha256 (rn_id n) d), rn_id n)"

definition replicas_for :: "(bytes \<Rightarrow> bytes) \<Rightarrow> digest \<Rightarrow> ring_node list \<Rightarrow> nat \<Rightarrow> ring_node list" where
  "replicas_for sha256 d nodes r =
     (if r = 0 then []
      else take r (sort_key (rank sha256 d) (filter (\<lambda>n. is_eligible (rn_status n)) nodes)))"

section \<open>Topology and router\<close>

record topology =
  tp_generation :: nat
  tp_nodes :: "ring_node list"
  tp_replication :: nat

definition eligible_count :: "topology \<Rightarrow> nat" where
  "eligible_count t = length (filter (\<lambda>n. is_eligible (rn_status n)) (tp_nodes t))"

definition update_topology :: "topology \<Rightarrow> topology \<Rightarrow> nat \<times> topology" where
  "update_topology next_view guard = (tp_generation guard, next_view)"

definition router_replicas_for :: "(bytes \<Rightarrow> bytes) \<Rightarrow> topology \<Rightarrow> digest \<Rightarrow> nat \<Rightarrow> ring_node list" where
  "router_replicas_for sha256 t d r = replicas_for sha256 d (tp_nodes t) r"

definition primary_replicas_for :: "(bytes \<Rightarrow> bytes) \<Rightarrow> topology \<Rightarrow> digest \<Rightarrow> ring_node list" where
  "primary_replicas_for sha256 t d = replicas_for sha256 d (tp_nodes t) (tp_replication t)"

text \<open>The membership of the control plane publishes a view; each setter also says whether subscribers
  are woken.\<close>

record cas_node =
  cn_id :: string
  cn_endpoint :: string
  cn_status :: int
  cn_capacity :: nat
  cn_used :: nat

record topology_view =
  tv_generation :: nat
  tv_nodes :: "cas_node list"
  tv_replication :: nat
  tv_secret :: bytes

definition membership_new :: "nat \<Rightarrow> topology_view" where
  "membership_new r = \<lparr>tv_generation = 1, tv_nodes = [], tv_replication = r, tv_secret = []\<rparr>"

definition set_nodes :: "cas_node list \<Rightarrow> topology_view \<Rightarrow> topology_view \<times> bool" where
  "set_nodes nodes view =
     (if tv_nodes view = nodes then (view, False)
      else (view\<lparr>tv_generation := sat_add (tv_generation view) 1, tv_nodes := nodes\<rparr>, True))"

definition set_replication_factor :: "nat \<Rightarrow> topology_view \<Rightarrow> topology_view \<times> bool" where
  "set_replication_factor r view =
     (if tv_replication view = r then (view, False)
      else (view\<lparr>tv_generation := sat_add (tv_generation view) 1, tv_replication := r\<rparr>, True))"

text \<open>A change is published exactly when the view changes, and below the last generation it raises the
  generation by one.\<close>

lemma membership_generation:
  "snd (set_nodes nodes view) \<longleftrightarrow> fst (set_nodes nodes view) \<noteq> view"
  "snd (set_replication_factor r view) \<longleftrightarrow> fst (set_replication_factor r view) \<noteq> view"
  "tv_generation view < u64_max \<Longrightarrow> snd (set_nodes nodes view) \<Longrightarrow>
     tv_generation (fst (set_nodes nodes view)) = Suc (tv_generation view)"
  by (auto simp: set_nodes_def set_replication_factor_def sat_add_def dest: arg_cong [where f = tv_nodes]
      arg_cong [where f = tv_replication])

section \<open>The replicated store\<close>

type_synonym 's pool = "(string \<times> 's) list"

definition write_quorum :: "topology \<Rightarrow> nat" where
  "write_quorum t = (if tp_replication t = 0 then 0 else tp_replication t div 2 + 1)"

text \<open>Group the digests by their primary; the replica list kept for a group is that of its first digest.\<close>

fun group_by_primary ::
  "(digest \<Rightarrow> ring_node list) \<Rightarrow> digest list \<Rightarrow> (string \<times> digest list \<times> ring_node list) list
     \<Rightarrow> (string \<times> digest list \<times> ring_node list) list option" where
  "group_by_primary reps [] groups = Some groups"
| "group_by_primary reps (d # ds) groups =
     (case reps d of
        [] \<Rightarrow> None
      | primary # _ \<Rightarrow>
          let g = (case map_of groups (rn_id primary) of
                     Some (part, rs) \<Rightarrow> (part @ [d], rs)
                   | None \<Rightarrow> ([d], reps d))
          in group_by_primary reps ds (AList.update (rn_id primary) g groups))"

fun ask_in_order ::
  "'s cas_ops \<Rightarrow> digest list \<Rightarrow> ring_node list \<Rightarrow> 's pool \<Rightarrow> digest list option \<times> 's pool" where
  "ask_in_order ops part [] p = (None, p)"
| "ask_in_order ops part (n # ns) p =
     (case map_of p (rn_id n) of
        None \<Rightarrow> ask_in_order ops part ns p
      | Some s \<Rightarrow>
          (case op_find_missing ops part s of
             (Inr m, s) \<Rightarrow> (Some m, AList.update (rn_id n) s p)
           | (Inl _, s) \<Rightarrow> ask_in_order ops part ns (AList.update (rn_id n) s p)))"

fun ask_groups ::
  "'s cas_ops \<Rightarrow> (string \<times> digest list \<times> ring_node list) list \<Rightarrow> 's pool \<Rightarrow> digest list \<times> 's pool" where
  "ask_groups ops [] p = ([], p)"
| "ask_groups ops ((_, part, rs) # gs) p =
     (let (answer, p) = ask_in_order ops part rs p;
          (missing, p) = ask_groups ops gs p
      in ((case answer of Some m \<Rightarrow> m | None \<Rightarrow> part) @ missing, p))"

definition rep_find_missing ::
  "(bytes \<Rightarrow> bytes) \<Rightarrow> topology \<Rightarrow> 's cas_ops \<Rightarrow> digest list \<Rightarrow> 's pool \<Rightarrow> (cas_error + digest list) \<times> 's pool" where
  "rep_find_missing sha256 t ops ds p =
     (case group_by_primary (primary_replicas_for sha256 t) ds [] of
        None \<Rightarrow> (Inr ds, p)
      | Some gs \<Rightarrow> (let (missing, p) = ask_groups ops gs p in (Inr missing, p)))"

text \<open>One blob to every replica the pool knows: the results in ring order.\<close>

fun write_all ::
  "'s cas_ops \<Rightarrow> digest \<times> bytes \<Rightarrow> ring_node list \<Rightarrow> 's pool \<Rightarrow> (cas_error + update_result list) list \<times> 's pool" where
  "write_all ops blob [] p = ([], p)"
| "write_all ops blob (n # ns) p =
     (case map_of p (rn_id n) of
        None \<Rightarrow> write_all ops blob ns p
      | Some s \<Rightarrow>
          let (r, s) = op_update ops [blob] s;
              (rs, p) = write_all ops blob ns (AList.update (rn_id n) s p)
          in (r # rs, p))"

text \<open>The acknowledgements and the last error.\<close>

fun count_acks :: "(cas_error \<Rightarrow> string) \<Rightarrow> (cas_error + update_result list) list \<Rightarrow> nat \<times> string option \<Rightarrow> nat \<times> string option" where
  "count_acks show_error [] acc = acc"
| "count_acks show_error (r # rs) (acks, last_err) =
     count_acks show_error rs
       (case r of
          Inl e \<Rightarrow> (acks, Some (show_error e))
        | Inr [] \<Rightarrow> (acks, last_err)
        | Inr (x # _) \<Rightarrow> (case ur_status x of Inr _ \<Rightarrow> (acks + 1, last_err) | Inl err \<Rightarrow> (acks, Some err)))"

definition rep_update_one ::
  "(cas_error \<Rightarrow> string) \<Rightarrow> (nat \<Rightarrow> nat \<Rightarrow> string) \<Rightarrow> (bytes \<Rightarrow> bytes) \<Rightarrow> topology \<Rightarrow> 's cas_ops
     \<Rightarrow> digest \<times> bytes \<Rightarrow> 's pool \<Rightarrow> update_result \<times> 's pool" where
  "rep_update_one show_error short sha256 t ops blob p =
     (let replicas = primary_replicas_for sha256 t (fst blob); quorum = write_quorum t
      in if replicas = [] then (\<lparr>ur_digest = fst blob, ur_status = Inl ''no replicas available''\<rparr>, p)
         else (let (results, p) = write_all ops blob replicas p;
                   (acks, last_err) = count_acks show_error results (0, None);
                   status = (if acks \<ge> quorum then Inr ()
                             else Inl (case last_err of Some e \<Rightarrow> e | None \<Rightarrow> short acks quorum))
               in (\<lparr>ur_digest = fst blob, ur_status = status\<rparr>, p)))"

fun rep_update ::
  "(cas_error \<Rightarrow> string) \<Rightarrow> (nat \<Rightarrow> nat \<Rightarrow> string) \<Rightarrow> (bytes \<Rightarrow> bytes) \<Rightarrow> topology \<Rightarrow> 's cas_ops
     \<Rightarrow> (digest \<times> bytes) list \<Rightarrow> 's pool \<Rightarrow> update_result list \<times> 's pool" where
  "rep_update show_error short sha256 t ops [] p = ([], p)"
| "rep_update show_error short sha256 t ops (blob # blobs) p =
     (let (r, p) = rep_update_one show_error short sha256 t ops blob p;
          (rs, p) = rep_update show_error short sha256 t ops blobs p
      in (r # rs, p))"

fun read_first :: "'s cas_ops \<Rightarrow> digest \<Rightarrow> ring_node list \<Rightarrow> 's pool \<Rightarrow> bytes option \<times> 's pool" where
  "read_first ops d [] p = (None, p)"
| "read_first ops d (n # ns) p =
     (case map_of p (rn_id n) of
        None \<Rightarrow> read_first ops d ns p
      | Some s \<Rightarrow>
          let (r, s) = op_read ops [d] s; p = AList.update (rn_id n) s p
          in (case r of
                Inr results \<Rightarrow>
                  (if results \<noteq> [] then (case last results of Inr b \<Rightarrow> (Some b, p) | Inl _ \<Rightarrow> read_first ops d ns p)
                   else read_first ops d ns p)
              | Inl _ \<Rightarrow> read_first ops d ns p))"

fun rep_read ::
  "(bytes \<Rightarrow> bytes) \<Rightarrow> topology \<Rightarrow> 's cas_ops \<Rightarrow> digest list \<Rightarrow> 's pool \<Rightarrow> (cas_error + bytes) list \<times> 's pool" where
  "rep_read sha256 t ops [] p = ([], p)"
| "rep_read sha256 t ops (d # ds) p =
     (let (b, p) = read_first ops d (primary_replicas_for sha256 t d) p;
          (rs, p) = rep_read sha256 t ops ds p
      in ((case b of Some b \<Rightarrow> Inr b | None \<Rightarrow> Inl (NotFound d)) # rs, p))"

section \<open>Rendezvous hashing disturbs little\<close>

lemma filter_take_prefix: "\<exists>new. take r (filter P xs) = filter P (take r xs) @ new \<and> set new \<subseteq> set (drop r xs) \<and>
    length new \<le> length (filter (\<lambda>x. \<not> P x) (take r xs))"
proof -
  let ?k = "length (filter P (take r xs))"
  have s: "filter P xs = filter P (take r xs) @ filter P (drop r xs)" by (metis append_take_drop_id filter_append)
  have "?k \<le> r" by (rule order_trans [OF length_filter_le]) simp
  then have e: "take r (filter P xs) = filter P (take r xs) @ take (r - ?k) (filter P (drop r xs))" by (simp add: s)
  have "length (take (r - ?k) (filter P (drop r xs))) \<le> length (filter (\<lambda>x. \<not> P x) (take r xs))"
  proof (cases "length xs \<le> r")
    case False
    then show ?thesis using sum_length_filter_compl [of P "take r xs"] by simp
  qed simp
  moreover have "set (take (r - ?k) (filter P (drop r xs))) \<subseteq> set (drop r xs)" by (auto dest: in_set_takeD)
  ultimately show ?thesis using e by blast
qed

text \<open>C25. Losing nodes moves only the blobs that were on them.  Take any set of nodes away from the ring.
  The replicas of a digest are then those it had and that remain, still in the same order and still
  first, followed by at most as many replacements as it lost, none of which held it before.  In
  particular a digest none of whose replicas was lost keeps its placement unchanged.\<close>

theorem hrw_minimal_disruption:
  assumes "distinct nodes"
  shows "\<exists>new. replicas_for sha256 d (filter P nodes) r = filter P (replicas_for sha256 d nodes r) @ new \<and>
    set new \<inter> set (replicas_for sha256 d nodes r) = {} \<and>
    length new \<le> length (filter (\<lambda>n. \<not> P n) (replicas_for sha256 d nodes r))"
proof (cases "r = 0")
  case False
  define es where "es = filter (\<lambda>n. is_eligible (rn_status n)) nodes"
  define srt where "srt = sort_key (rank sha256 d) es"
  have "filter (\<lambda>n. is_eligible (rn_status n)) (filter P nodes) = filter P es"
    unfolding es_def filter_filter by (rule filter_cong) auto
  then have r2: "replicas_for sha256 d (filter P nodes) r = take r (filter P srt)"
    using False by (simp add: replicas_for_def srt_def filter_sort)
  have r1: "replicas_for sha256 d nodes r = take r srt" using False by (simp add: replicas_for_def srt_def es_def)
  have "distinct srt" using assms by (simp add: srt_def es_def)
  then have disj: "set (take r srt) \<inter> set (drop r srt) = {}" by (rule set_take_disj_set_drop_if_distinct) simp
  obtain new where new: "take r (filter P srt) = filter P (take r srt) @ new" "set new \<subseteq> set (drop r srt)"
    "length new \<le> length (filter (\<lambda>x. \<not> P x) (take r srt))" using filter_take_prefix [of r P srt] by blast
  have "set new \<inter> set (take r srt) = {}" using new(2) disj by blast
  with new show ?thesis unfolding r1 r2 by blast
qed (simp add: replicas_for_def)

definition demo_sha :: "bytes \<Rightarrow> bytes" where
  "demo_sha bs = replicate 15 0 @ [word_of_nat (length bs)]"

definition demo_node :: "string \<Rightarrow> ring_node" where
  "demo_node i = \<lparr>rn_id = i, rn_endpoint = [], rn_status = Healthy\<rparr>"

theorem hrw_minimal_disruption_witness:
  "distinct [demo_node ''a'', demo_node ''b'', demo_node ''c''] \<and>
   (\<exists>new. replicas_for demo_sha \<lparr>dg_hash = ''00'', dg_size = 0\<rparr>
        (filter (\<lambda>n. rn_id n \<noteq> ''b'') [demo_node ''a'', demo_node ''b'', demo_node ''c'']) 2 =
      filter (\<lambda>n. rn_id n \<noteq> ''b'')
        (replicas_for demo_sha \<lparr>dg_hash = ''00'', dg_size = 0\<rparr> [demo_node ''a'', demo_node ''b'', demo_node ''c''] 2) @ new)"
  using hrw_minimal_disruption [of "[demo_node ''a'', demo_node ''b'', demo_node ''c'']" demo_sha
      "\<lparr>dg_hash = ''00'', dg_size = 0\<rparr>" "\<lambda>n. rn_id n \<noteq> ''b''" 2]
  by (auto simp: demo_node_def)

section \<open>Quorum writes over in-memory replicas\<close>

definition held :: "mem_cas pool \<Rightarrow> string \<Rightarrow> digest \<Rightarrow> bool" where
  "held p i d \<longleftrightarrow> (\<exists>m b. map_of p i = Some m \<and> map_of m d = Some b)"

definition verified :: "(digest \<Rightarrow> bytes \<Rightarrow> string + unit) \<Rightarrow> mem_cas pool \<Rightarrow> bool" where
  "verified ok p \<longleftrightarrow> (\<forall>i m d b. map_of p i = Some m \<longrightarrow> map_of m d = Some b \<longrightarrow> is_ok (ok d b))"

definition known :: "'s pool \<Rightarrow> ring_node \<Rightarrow> bool" where
  "known p n \<longleftrightarrow> map_of p (rn_id n) \<noteq> None"

lemma held_cong: "map_of p = map_of q \<Longrightarrow> held p = held q"
  by (simp add: held_def fun_eq_iff)

lemma verified_cong: "map_of p = map_of q \<Longrightarrow> verified ok p = verified ok q"
  by (simp add: verified_def)

lemma write_one_mem:
  "op_update (mem_ops ok) [(d, b)] m =
     (Inr [\<lparr>ur_digest = d, ur_status = ok d b\<rparr>], if is_ok (ok d b) then AList.update d b m else m)"
  by (auto simp: mem_ops_def mem_update_def is_ok_def split: sum.splits)

lemma update_same: "map_of p i = Some m \<Longrightarrow> map_of (AList.update i m p) = map_of p"
  by (auto simp: update_conv' fun_eq_iff)

lemma store_into:
  assumes "map_of p i = Some m" "is_ok (ok d b)"
  defines "q \<equiv> AList.update i (AList.update d b m) p"
  shows "verified ok p \<Longrightarrow> verified ok q" "held p j e \<Longrightarrow> held q j e" "held q i d" "known q = known p"
  using assms by (auto simp: verified_def held_def known_def fun_eq_iff update_conv' split: if_splits)

lemma write_all_mem:
  assumes "write_all (mem_ops ok) (d, b) ns p = (rs, p')"
  shows "known p' = known p \<and> (verified ok p \<longrightarrow> verified ok p') \<and> (\<forall>i e. held p i e \<longrightarrow> held p' i e) \<and>
    rs = replicate (length (filter (known p) ns)) (Inr [\<lparr>ur_digest = d, ur_status = ok d b\<rparr>]) \<and>
    (is_ok (ok d b) \<longrightarrow> (\<forall>n \<in> set ns. known p n \<longrightarrow> held p' (rn_id n) d))"
  using assms
proof (induction ns arbitrary: p rs)
  case (Cons n ns)
  show ?case
  proof (cases "map_of p (rn_id n)")
    case None
    with Cons.prems have "write_all (mem_ops ok) (d, b) ns p = (rs, p')" by simp
    from Cons.IH [OF this] None show ?thesis by (auto simp: known_def)
  next
    case (Some m)
    define q where "q = AList.update (rn_id n) (if is_ok (ok d b) then AList.update d b m else m) p"
    obtain rs' where rs: "write_all (mem_ops ok) (d, b) ns q = (rs', p')"
      "rs = Inr [\<lparr>ur_digest = d, ur_status = ok d b\<rparr>] # rs'"
      using Cons.prems Some by (auto simp: write_one_mem q_def split: prod.splits)
    note ih = Cons.IH [OF rs(1)]
    have kn: "known p n" using Some by (simp add: known_def)
    have q: "known q = known p" "verified ok p \<longrightarrow> verified ok q" "\<forall>i e. held p i e \<longrightarrow> held q i e"
      "is_ok (ok d b) \<longrightarrow> held q (rn_id n) d"
      using store_into [where p = p and i = "rn_id n" and m = m and ok = ok and d = d and b = b] Some
        update_same [OF Some] held_cong [OF update_same [OF Some]] verified_cong [OF update_same [OF Some], of ok]
      by (cases "is_ok (ok d b)"; auto simp: q_def known_def fun_eq_iff)+
    from ih q kn rs(2) show ?thesis by auto
  qed
qed simp

lemma count_acks_replicate:
  "fst (count_acks se (replicate k (Inr [\<lparr>ur_digest = d, ur_status = st\<rparr>])) (n, l)) = n + (if is_ok st then k else 0)"
proof (induction k arbitrary: n l)
  case (Suc k)
  show ?case using Suc by (cases st) (simp_all add: is_ok_def)
qed simp

definition quorum_holds :: "(bytes \<Rightarrow> bytes) \<Rightarrow> topology \<Rightarrow> mem_cas pool \<Rightarrow> digest \<Rightarrow> bool" where
  "quorum_holds sha256 t p d \<longleftrightarrow> 0 < write_quorum t \<and>
     write_quorum t \<le> length (filter (\<lambda>n. held p (rn_id n) d) (primary_replicas_for sha256 t d))"

lemma length_filter_mono: "(\<And>x. x \<in> set xs \<Longrightarrow> P x \<Longrightarrow> Q x) \<Longrightarrow> length (filter P xs) \<le> length (filter Q xs)"
  by (induction xs) auto

lemma quorum_holds_mono:
  assumes "\<forall>i e. held p i e \<longrightarrow> held q i e" "quorum_holds sha256 t p d"
  shows "quorum_holds sha256 t q d"
  using assms length_filter_mono [of "primary_replicas_for sha256 t d" "\<lambda>n. held p (rn_id n) d" "\<lambda>n. held q (rn_id n) d"]
  by (auto simp: quorum_holds_def)

lemma rep_update_one_mem:
  assumes "rep_update_one se sh sha256 t (mem_ops ok) (d, b) p = (r, p')"
  shows "(verified ok p \<longrightarrow> verified ok p') \<and> (\<forall>i e. held p i e \<longrightarrow> held p' i e) \<and> ur_digest r = d \<and>
    (ur_status r = Inr () \<longrightarrow> quorum_holds sha256 t p' d)"
proof (cases "primary_replicas_for sha256 t d = []")
  case True
  with assms show ?thesis by (auto simp: rep_update_one_def)
next
  case False
  let ?ns = "primary_replicas_for sha256 t d"
  obtain rs q where w: "write_all (mem_ops ok) (d, b) ?ns p = (rs, q)" by fastforce
  note m = write_all_mem [OF w]
  obtain acks err where c: "count_acks se rs (0, None) = (acks, err)" by fastforce
  have acks: "acks = (if is_ok (ok d b) then length (filter (known p) ?ns) else 0)"
    using m c count_acks_replicate [of se "length (filter (known p) ?ns)" d "ok d b" 0 None] by simp
  have r: "p' = q" "ur_digest r = d" "ur_status r = Inr () \<longleftrightarrow> acks \<ge> write_quorum t"
    using assms False w c by (auto simp: rep_update_one_def Let_def split: if_splits)
  have pos: "0 < write_quorum t"
    using False by (auto simp: write_quorum_def primary_replicas_for_def replicas_for_def split: if_splits)
  have "quorum_holds sha256 t q d" if "acks \<ge> write_quorum t"
  proof -
    from that pos acks have ok: "is_ok (ok d b)" by (auto split: if_splits)
    have "length (filter (known p) ?ns) \<le> length (filter (\<lambda>n. held q (rn_id n) d) ?ns)"
      by (rule length_filter_mono) (use m ok in blast)
    with that ok acks pos show ?thesis by (simp add: quorum_holds_def)
  qed
  with m r show ?thesis by simp
qed

lemma rep_update_mem:
  assumes "rep_update se sh sha256 t (mem_ops ok) blobs p = (rs, p')"
  shows "(verified ok p \<longrightarrow> verified ok p') \<and> (\<forall>i e. held p i e \<longrightarrow> held p' i e) \<and>
    (\<forall>r \<in> set rs. ur_status r = Inr () \<longrightarrow> quorum_holds sha256 t p' (ur_digest r))"
  using assms
proof (induction blobs arbitrary: p rs)
  case (Cons blob blobs)
  obtain d b where blob: "blob = (d, b)" by (cases blob)
  obtain r q where o: "rep_update_one se sh sha256 t (mem_ops ok) (d, b) p = (r, q)" by fastforce
  obtain rs' where rest: "rep_update se sh sha256 t (mem_ops ok) blobs q = (rs', p')" "rs = r # rs'"
    using Cons.prems blob o by (auto split: prod.splits)
  have "ur_status r = Inr () \<Longrightarrow> quorum_holds sha256 t p' (ur_digest r)"
    using rep_update_one_mem [OF o] Cons.IH [OF rest(1)] quorum_holds_mono [of q p' sha256 t d] by simp
  then show ?case using rep_update_one_mem [OF o] Cons.IH [OF rest(1)] rest(2) by simp
qed simp

lemma read_first_mem:
  assumes "verified ok p" "n \<in> set ns" "held p (rn_id n) d"
  shows "\<exists>c. fst (read_first (mem_ops ok) d ns p) = Some c \<and> is_ok (ok d c)"
  using assms
proof (induction ns arbitrary: p)
  case (Cons a ns)
  show ?case
  proof (cases "map_of p (rn_id a)")
    case None
    with Cons.prems(3) have "n \<noteq> a" by (auto simp: held_def)
    with Cons None show ?thesis by simp
  next
    case (Some m)
    show ?thesis
    proof (cases "map_of m d")
      case None
      with Some Cons.prems(3) have "n \<noteq> a" by (auto simp: held_def)
      moreover have "map_of (AList.update (rn_id a) m p) = map_of p" by (rule update_same [OF Some])
      ultimately have "\<exists>c. fst (read_first (mem_ops ok) d ns (AList.update (rn_id a) m p)) = Some c \<and> is_ok (ok d c)"
        using Cons.IH [of "AList.update (rn_id a) m p"] Cons.prems held_cong verified_cong by (metis set_ConsD)
      then show ?thesis using Some None by (simp add: mem_ops_def mem_read_def found_def)
    next
      fix c assume c: "map_of m d = Some c"
      then have "is_ok (ok d c)" using Cons.prems(1) Some by (auto simp: verified_def)
      then show ?thesis using Some c by (simp add: mem_ops_def mem_read_def found_def)
    qed
  qed
qed simp

lemma map_of_lost: "map_of (filter (\<lambda>(i, _). i \<notin> L) p) = (\<lambda>i. if i \<in> L then None else map_of p i)"
  by (induction p) auto

lemma replica_survives:
  assumes "quorum_holds sha256 t p d" "distinct (map rn_id (tp_nodes t))" "length lost < write_quorum t"
  shows "\<exists>n \<in> set (primary_replicas_for sha256 t d). held p (rn_id n) d \<and> rn_id n \<notin> set lost"
proof (rule ccontr)
  let ?hs = "filter (\<lambda>n. held p (rn_id n) d) (primary_replicas_for sha256 t d)"
  assume "\<not> ?thesis"
  then have sub: "set (map rn_id ?hs) \<subseteq> set lost" by auto
  have srt: "distinct (map rn_id (sort_key (rank sha256 d) (filter (\<lambda>n. is_eligible (rn_status n)) (tp_nodes t))))"
    using distinct_map_filter [OF assms(2)] by (simp add: distinct_map)
  have "distinct (map rn_id ?hs)"
    using distinct_take [OF srt, of "tp_replication t"]
    by (intro distinct_map_filter) (simp only: primary_replicas_for_def replicas_for_def take_map split: if_split, simp)
  then have "length ?hs = card (set (map rn_id ?hs))" by (metis distinct_card length_map)
  also have "\<dots> \<le> length lost" by (rule order_trans [OF card_mono [OF _ sub] card_length]) simp
  finally show False using assms(1,3) by (simp add: quorum_holds_def)
qed

text \<open>C26. An acknowledged write survives the loss of a minority.  Take a pool whose stores hold only
  blobs that match their digests.  If a batch upload answers a blob with success, then after losing
  any nodes, at most half as many as the replication factor, a read of its digest still returns a
  blob, and that blob matches the digest.  Node identifiers are distinct.\<close>

theorem quorum_write_survives_losses:
  assumes "distinct (map rn_id (tp_nodes t))" "verified ok p"
    and "rep_update se sh sha256 t (mem_ops ok) blobs p = (results, p')" "r \<in> set results" "ur_status r = Inr ()"
    and "2 * length lost \<le> tp_replication t"
  shows "\<exists>c. fst (rep_read sha256 t (mem_ops ok) [ur_digest r] (filter (\<lambda>(i, _). i \<notin> set lost) p')) = [Inr c] \<and>
    is_ok (ok (ur_digest r) c)"
proof -
  let ?q = "filter (\<lambda>(i, _). i \<notin> set lost) p'"
  have v: "verified ok p'" "quorum_holds sha256 t p' (ur_digest r)" using rep_update_mem [OF assms(3)] assms(2,4,5) by simp_all
  have few: "length lost < write_quorum t" using v(2) assms(6) by (auto simp: quorum_holds_def write_quorum_def split: if_splits)
  obtain n where n: "n \<in> set (primary_replicas_for sha256 t (ur_digest r))" "held p' (rn_id n) (ur_digest r)" "rn_id n \<notin> set lost"
    using replica_survives [OF v(2) assms(1) few] by blast
  have "verified ok ?q" using v(1) by (auto simp: verified_def map_of_lost)
  moreover have "held ?q (rn_id n) (ur_digest r)" using n by (auto simp: held_def map_of_lost)
  ultimately show ?thesis using read_first_mem [of ok ?q n _ "ur_digest r"] n(1) by (fastforce simp: case_prod_beta)
qed

definition demo_blob :: digest where
  "demo_blob = \<lparr>dg_hash = ''00'', dg_size = 1\<rparr>"

definition demo_topology :: topology where
  "demo_topology = \<lparr>tp_generation = 1, tp_nodes = [demo_node ''a'', demo_node ''bb'', demo_node ''ccc''], tp_replication = 3\<rparr>"

definition demo_pool :: "mem_cas pool" where
  "demo_pool = [(''a'', []), (''ccc'', [])]"

lemma demo_quorum: "write_quorum demo_topology = 2"
  by (simp add: write_quorum_def demo_topology_def)

lemma demo_scores:
  "score demo_sha ''a'' demo_blob = 4" "score demo_sha ''bb'' demo_blob = 5" "score demo_sha ''ccc'' demo_blob = 6"
  by code_simp+

lemma demo_replicas:
  "primary_replicas_for demo_sha demo_topology demo_blob = [demo_node ''ccc'', demo_node ''bb'', demo_node ''a'']"
  by (simp add: primary_replicas_for_def replicas_for_def demo_topology_def demo_node_def rank_def demo_scores less_eq_prod_def)

theorem quorum_write_survives_losses_witness:
  "\<exists>c. fst (rep_read demo_sha demo_topology (mem_ops (\<lambda>_ _. Inr ())) [demo_blob]
       (filter (\<lambda>(i, _). i \<notin> set [''a''])
         (snd (rep_update (\<lambda>_. []) (\<lambda>_ _. []) demo_sha demo_topology (mem_ops (\<lambda>_ _. Inr ()))
            [(demo_blob, [7])] demo_pool)))) = [Inr c]"
proof -
  let ?ok = "\<lambda>_ _. Inr () :: string + unit"
  have run: "rep_update (\<lambda>_. []) (\<lambda>_ _. []) demo_sha demo_topology (mem_ops ?ok) [(demo_blob, [7])] demo_pool =
      ([\<lparr>ur_digest = demo_blob, ur_status = Inr ()\<rparr>], [(''a'', [(demo_blob, [7])]), (''ccc'', [(demo_blob, [7])])])"
    by (simp add: rep_update_one_def demo_replicas write_one_mem demo_pool_def demo_node_def is_ok_def demo_quorum Let_def)
  have "distinct (map rn_id (tp_nodes demo_topology))" "verified ?ok demo_pool" "2 * length [''a''] \<le> tp_replication demo_topology"
    by (simp_all add: demo_topology_def demo_node_def verified_def is_ok_def)
  from quorum_write_survives_losses [OF this(1,2) run _ _ this(3)] show ?thesis
    unfolding run snd_conv by (auto simp del: rep_read.simps)
qed

section \<open>Asking for missing blobs\<close>

lemma group_by_primary_covers:
  "group_by_primary reps ds gs = Some gs' \<Longrightarrow>
     d \<in> set ds \<or> (\<exists>k part rs. map_of gs k = Some (part, rs) \<and> d \<in> set part) \<Longrightarrow>
     \<exists>k part rs. map_of gs' k = Some (part, rs) \<and> d \<in> set part"
proof (induction reps ds gs rule: group_by_primary.induct)
  case (2 reps e ds gs)
  then obtain n ns where n: "reps e = n # ns" by (auto split: list.splits)
  let ?g = "case map_of gs (rn_id n) of Some (part, rs) \<Rightarrow> (part @ [e], rs) | None \<Rightarrow> ([e], reps e)"
  let ?gs = "AList.update (rn_id n) ?g gs"
  have rest: "group_by_primary reps ds ?gs = Some gs'" using 2(2) n by (simp add: Let_def)
  obtain part rs where g: "?g = (part, rs)" by (cases ?g)
  have e: "e \<in> set part" "\<And>part0 rs0. map_of gs (rn_id n) = Some (part0, rs0) \<Longrightarrow> set part0 \<subseteq> set part"
    using g by (auto split: option.splits)
  have "d \<in> set ds \<or> (\<exists>k part rs. map_of ?gs k = Some (part, rs) \<and> d \<in> set part)"
  proof (cases "d \<in> set ds \<or> d = e")
    case True
    have "map_of ?gs (rn_id n) = Some (part, rs)" by (simp add: update_conv' g)
    with True e(1) show ?thesis by blast
  next
    case False
    with 2(3) obtain k part0 rs0 where k: "map_of gs k = Some (part0, rs0)" "d \<in> set part0" by auto
    have "map_of ?gs (rn_id n) = Some (part, rs)" "k \<noteq> rn_id n \<Longrightarrow> map_of ?gs k = Some (part0, rs0)"
      using k by (simp_all add: update_conv' g)
    with e(2) k show ?thesis by (cases "k = rn_id n") blast+
  qed
  with 2(1) [OF n refl] rest show ?case by simp
qed auto

lemma ask_in_order_mem:
  assumes "ask_in_order (mem_ops ok) part ns p = (answer, p')"
  shows "map_of p' = map_of p \<and> (\<forall>m. answer = Some m \<longrightarrow> (\<forall>d \<in> set part. d \<notin> set m \<longrightarrow> (\<exists>i. held p i d)))"
  using assms
proof (induction ns arbitrary: p)
  case (Cons n ns)
  show ?case
  proof (cases "map_of p (rn_id n)")
    case (Some m)
    with Cons.prems have "answer = Some (filter (\<lambda>d. map_of m d = None) part)" "p' = AList.update (rn_id n) m p"
      by (auto simp: mem_find_missing_def)
    with Some update_same [OF Some] show ?thesis by (auto simp: held_def)
  qed (use Cons in auto)
qed simp

lemma ask_groups_mem:
  assumes "ask_groups (mem_ops ok) gs p = (missing, p')" "(k, part, rs) \<in> set gs" "d \<in> set part" "d \<notin> set missing"
  shows "\<exists>i. held p i d"
  using assms
proof (induction gs arbitrary: p missing)
  case (Cons g gs)
  obtain k' part' rs' where g: "g = (k', part', rs')" by (cases g)
  obtain answer q where a: "ask_in_order (mem_ops ok) part' rs' p = (answer, q)" by fastforce
  obtain ms where ms: "ask_groups (mem_ops ok) gs q = (ms, p')"
    "missing = (case answer of Some m \<Rightarrow> m | None \<Rightarrow> part') @ ms"
    using Cons.prems(1) g a by (auto split: prod.splits)
  show ?case
  proof (cases "(k, part, rs) \<in> set gs")
    case True
    have "d \<notin> set ms" using Cons.prems(4) ms(2) by simp
    from Cons.IH [OF ms(1) True Cons.prems(3) this] ask_in_order_mem [OF a] held_cong [of q p] show ?thesis by simp
  next
    case False
    with Cons.prems g have "part' = part" by simp
    moreover have "d \<notin> set (case answer of Some m \<Rightarrow> m | None \<Rightarrow> part')" using Cons.prems(4) ms(2) by simp
    ultimately show ?thesis using ask_in_order_mem [OF a] Cons.prems(3) by (cases answer) auto
  qed
qed simp

text \<open>C27. A blob reported present is somewhere.  Whatever the topology, the pool and the grouping of
  digests by primary, including unreachable nodes and replicas asked in place of a primary, a digest
  that the replicated store was asked about and did not report missing is held by a store of the
  pool; so a client that skips an upload on this answer skips nothing that does not exist.\<close>

theorem reported_present_is_held:
  assumes "rep_find_missing sha256 t (mem_ops ok) ds p = (Inr missing, p')" "d \<in> set ds" "d \<notin> set missing"
  shows "\<exists>i. held p i d"
proof (cases "group_by_primary (primary_replicas_for sha256 t) ds []")
  case None
  with assms show ?thesis by (simp add: rep_find_missing_def)
next
  case (Some gs)
  with assms(1) have a: "ask_groups (mem_ops ok) gs p = (missing, p')"
    by (auto simp: rep_find_missing_def split: prod.splits)
  obtain k part rs where "map_of gs k = Some (part, rs)" "d \<in> set part"
    using group_by_primary_covers [OF Some, of d] assms(2) by blast
  from ask_groups_mem [OF a map_of_SomeD [OF this(1)] this(2) assms(3)] show ?thesis .
qed

theorem reported_present_is_held_witness:
  "\<exists>i. held [(''ccc'', [(demo_blob, [7])])] i demo_blob"
proof -
  have "rep_find_missing demo_sha demo_topology (mem_ops (\<lambda>_ _. Inr ())) [demo_blob] [(''ccc'', [(demo_blob, [7])])] =
      (Inr [], [(''ccc'', [(demo_blob, [7])])])"
    by (simp add: rep_find_missing_def demo_replicas demo_node_def mem_find_missing_def)
  from reported_present_is_held [OF this] show ?thesis by simp
qed

end
