(* ===== verification/Cas_Gc.thy ===== *)
theory Cas_Gc
  imports Cas_Store
begin

text \<open>
  Garbage collection of the store, \<open>brokkr-cas/src/gc.rs\<close>: the digests an action result names, the
  plan, and the sweep under the coordination barrier.  The action cache's listing and the barrier's
  acquisition are arguments, as results that may be errors.
\<close>

section \<open>Action results\<close>

text \<open>The message fields the collector reads; a digest on the wire is a hash and a size, not yet validated.\<close>

type_synonym wire_digest = "string \<times> int"

record output_directory =
  od_tree :: "wire_digest option"
  od_root :: "wire_digest option"

record action_result =
  ar_files :: "wire_digest option list"
  ar_directories :: "output_directory list"
  ar_stdout :: "wire_digest option"
  ar_stderr :: "wire_digest option"

definition parsed :: "wire_digest option \<Rightarrow> digest list" where
  "parsed w =
     (case w of None \<Rightarrow> []
      | Some (hash, sz) \<Rightarrow> (case digest_new hash sz of Inr d \<Rightarrow> [d] | Inl _ \<Rightarrow> []))"

definition direct_digests :: "action_result \<Rightarrow> digest list" where
  "direct_digests ar =
     concat (map parsed (ar_files ar)) @
     concat (map (\<lambda>dir. parsed (od_tree dir) @ parsed (od_root dir)) (ar_directories ar)) @
     parsed (ar_stdout ar) @ parsed (ar_stderr ar)"

section \<open>Plan and sweep\<close>

record gc_plan =
  gp_reachable :: "digest set"
  gp_unreachable :: "digest list"
  gp_local_count :: nat

definition plan :: "'s cas_ops \<Rightarrow> cas_error + (digest \<times> action_result) list \<Rightarrow> 's \<Rightarrow> cas_error + gc_plan" where
  "plan ops entries s =
     (case entries of
        Inl e \<Rightarrow> Inl e
      | Inr es \<Rightarrow>
          let reachable = set (concat (map (\<lambda>(_, ar). direct_digests ar) es))
          in (case op_list ops s of
                Inl e \<Rightarrow> Inl e
              | Inr local \<Rightarrow>
                  Inr \<lparr>gp_reachable = reachable, gp_unreachable = filter (\<lambda>d. d \<notin> reachable) local,
                       gp_local_count = length local\<rparr>))"

fun delete_all :: "'s cas_ops \<Rightarrow> digest list \<Rightarrow> nat \<Rightarrow> 's \<Rightarrow> (cas_error + nat) \<times> 's" where
  "delete_all ops [] deleted s = (Inr deleted, s)"
| "delete_all ops (d # ds) deleted s =
     (case op_delete ops d s of
        (Inl e, s) \<Rightarrow> (Inl e, s)
      | (Inr _, s) \<Rightarrow> delete_all ops ds (deleted + 1) s)"

definition sweep_with_plan :: "'s cas_ops \<Rightarrow> gc_plan \<Rightarrow> 's \<Rightarrow> (cas_error + nat) \<times> 's" where
  "sweep_with_plan ops pl s = delete_all ops (gp_unreachable pl) 0 s"

text \<open>\<open>sweep\<close>: acquire the barrier, plan, delete.\<close>

definition sweep ::
  "'s cas_ops \<Rightarrow> cas_error + unit \<Rightarrow> cas_error + (digest \<times> action_result) list \<Rightarrow> 's \<Rightarrow> (cas_error + nat) \<times> 's" where
  "sweep ops guard entries s =
     (case guard of
        Inl e \<Rightarrow> (Inl e, s)
      | Inr _ \<Rightarrow> (case plan ops entries s of Inl e \<Rightarrow> (Inl e, s) | Inr pl \<Rightarrow> sweep_with_plan ops pl s))"

section \<open>What a sweep keeps\<close>

definition live :: "(digest \<times> action_result) list \<Rightarrow> digest \<Rightarrow> bool" where
  "live es d \<longleftrightarrow> list_ex (\<lambda>(_, ar). d \<in> set (direct_digests ar)) es"

lemma mem_listing: "op_list (mem_ops ok) m = Inr (map fst m)"
  by (simp add: mem_ops_def mem_list_def)

lemma delete_all_mem:
  "delete_all (mem_ops ok) ds n m = (Inr (n + length ds), fold AList.delete ds m)"
  by (induction ds arbitrary: n m) (simp_all add: mem_ops_def mem_delete_def)

lemma map_of_fold_delete: "map_of (fold AList.delete ds m) = (\<lambda>d. if d \<in> set ds then None else map_of m d)"
  by (induction ds arbitrary: m) (auto simp: fun_eq_iff delete_conv')

lemma keys_fold_delete: "map fst (fold AList.delete ds m) = filter (\<lambda>d. d \<notin> set ds) (map fst m)"
proof (induction ds arbitrary: m)
  case (Cons d ds)
  have "map fst (AList.delete d m) = filter (\<lambda>e. e \<noteq> d) (map fst m)" by (simp add: delete_keys removeAll_filter_not_eq eq_commute)
  with Cons show ?case by (simp add: conj_commute)
qed simp

lemma sweep_mem:
  "sweep (mem_ops ok) (Inr ()) (Inr es) m =
     (let dead = filter (\<lambda>d. \<not> live es d) (map fst m) in (Inr (length dead), fold AList.delete dead m))"
proof -
  have "d \<notin> set (concat (map (\<lambda>(_, ar). direct_digests ar) es)) \<longleftrightarrow> \<not> live es d" for d
    by (auto simp: live_def list_ex_iff)
  then show ?thesis
    by (simp add: sweep_def plan_def sweep_with_plan_def delete_all_mem mem_listing Let_def)
qed


text \<open>A failed barrier, listing or deletion stops the sweep; nothing is deleted before the plan exists.\<close>

lemma sweep_errors:
  "sweep ops (Inl e) entries s = (Inl e, s)" "sweep ops (Inr ()) (Inl e) s = (Inl e, s)"
  by (simp_all add: sweep_def plan_def)

text \<open>The Bloom decorator inherits the default listing, so a sweep through it deletes nothing.\<close>

lemma sweep_through_bloom: "sweep (bloom_ops ops) (Inr ()) (Inr es) s = (Inr 0, s)"
  by (simp add: sweep_def plan_def sweep_with_plan_def bloom_ops_def default_list_def)

end
