(* ===== verification/Cas_Tree.thy ===== *)
theory Cas_Tree
  imports Cas_Store
begin

text \<open>
  Materialization of an input tree, \<open>brokkr-cas/src/tree.rs\<close>.  The store is a function from digests to
  read results and the decoder of directory messages is an argument: both are in a client's hands.
  The operating system is an argument too, and may answer each call depending on all calls before it;
  a run records the calls it made, in order.  The recursion runs with fuel, since nothing in the code
  bounds the depth of the tree; the properties hold for every amount of it.
\<close>

section \<open>Messages, calls and statistics\<close>

record file_node =
  fn_name :: string
  fn_digest :: "(string \<times> int) option"
  fn_executable :: bool

record symlink_node =
  sn_name :: string
  sn_target :: string

record directory_node =
  dn_name :: string
  dn_digest :: "(string \<times> int) option"

record directory =
  d_files :: "file_node list"
  d_symlinks :: "symlink_node list"
  d_directories :: "directory_node list"

type_synonym path = "string list"

datatype fs_call =
    WriteFile path bytes
  | SetExecutable path
  | RemoveFile path
  | MakeSymlink string path
  | CreateDirAll path

fun call_path :: "fs_call \<Rightarrow> path" where
  "call_path (WriteFile p _) = p"
| "call_path (SetExecutable p) = p"
| "call_path (RemoveFile p) = p"
| "call_path (MakeSymlink _ p) = p"
| "call_path (CreateDirAll p) = p"

record os =
  os_call :: "fs_call list \<Rightarrow> fs_call \<Rightarrow> string + unit"
  os_exists :: "fs_call list \<Rightarrow> path \<Rightarrow> bool"

record mat_state =
  ms_files :: nat
  ms_dirs :: nat
  ms_symlinks :: nat
  ms_bytes :: nat
  ms_calls :: "fs_call list"

definition mat_start :: mat_state where
  "mat_start = \<lparr>ms_files = 0, ms_dirs = 0, ms_symlinks = 0, ms_bytes = 0, ms_calls = []\<rparr>"

type_synonym 'a mat = "mat_state \<Rightarrow> (cas_error + 'a) \<times> mat_state"

definition mat_then :: "'a mat \<Rightarrow> ('a \<Rightarrow> 'b mat) \<Rightarrow> 'b mat" where
  "mat_then f g st = (case f st of (Inl e, st) \<Rightarrow> (Inl e, st) | (Inr x, st) \<Rightarrow> g x st)"

definition fail :: "cas_error \<Rightarrow> 'a mat" where
  "fail e st = (Inl e, st)"

definition lift :: "cas_error + 'a \<Rightarrow> 'a mat" where
  "lift r st = (r, st)"

definition perform :: "os \<Rightarrow> fs_call \<Rightarrow> unit mat" where
  "perform os c st =
     ((case os_call os (ms_calls st) c of Inr _ \<Rightarrow> Inr () | Inl e \<Rightarrow> Inl (Io e)), st\<lparr>ms_calls := ms_calls st @ [c]\<rparr>)"

definition tally :: "(mat_state \<Rightarrow> mat_state) \<Rightarrow> unit mat" where
  "tally f st = (Inr (), f st)"

section \<open>The walk\<close>

definition validate_node_name :: "string \<Rightarrow> string option" where
  "validate_node_name name =
     (if name = [] then Some ''empty''
      else if name = ''.'' \<or> name = ''..'' then Some ''dot or dotdot''
      else if CHR ''/'' \<in> set name then Some ''contains /''
      else if CHR 0x00 \<in> set name then Some ''contains NUL''
      else None)"

text \<open>The texts of the errors, beyond the reason for a bad name, are left to \<open>msg\<close>.\<close>

definition checked_name :: "(string \<Rightarrow> string \<Rightarrow> string) \<Rightarrow> string \<Rightarrow> unit mat" where
  "checked_name msg name =
     (case validate_node_name name of Some reason \<Rightarrow> fail (CasOther (msg name reason)) | None \<Rightarrow> lift (Inr ()))"

definition checked_digest :: "(string \<Rightarrow> string \<Rightarrow> string) \<Rightarrow> string \<Rightarrow> (string \<times> int) option \<Rightarrow> digest mat" where
  "checked_digest msg name w =
     (case w of
        None \<Rightarrow> fail (CasOther (msg name ''missing digest''))
      | Some (hash, sz) \<Rightarrow>
          (case digest_new hash sz of Inr d \<Rightarrow> lift (Inr d) | Inl _ \<Rightarrow> fail (CasOther (msg name ''invalid digest''))))"

definition fetch_directory ::
  "(digest \<Rightarrow> cas_error + bytes) \<Rightarrow> (bytes \<Rightarrow> string + directory) \<Rightarrow> digest \<Rightarrow> directory mat" where
  "fetch_directory blobs decode d =
     (case blobs d of
        Inl e \<Rightarrow> fail e
      | Inr bs \<Rightarrow> (case decode bs of Inl e \<Rightarrow> fail (CasOther e) | Inr dir \<Rightarrow> lift (Inr dir)))"

definition write_file :: "(digest \<Rightarrow> cas_error + bytes) \<Rightarrow> os \<Rightarrow> digest \<Rightarrow> path \<Rightarrow> bool \<Rightarrow> unit mat" where
  "write_file blobs os d p is_executable =
     mat_then (lift (blobs d)) (\<lambda>bs.
     mat_then (perform os (WriteFile p bs)) (\<lambda>_.
     if is_executable then perform os (SetExecutable p) else lift (Inr ())))"

fun put_files ::
  "(string \<Rightarrow> string \<Rightarrow> string) \<Rightarrow> (digest \<Rightarrow> cas_error + bytes) \<Rightarrow> os \<Rightarrow> path \<Rightarrow> file_node list \<Rightarrow> unit mat" where
  "put_files msg blobs os dir [] = lift (Inr ())"
| "put_files msg blobs os dir (f # fs) =
     mat_then (checked_name msg (fn_name f)) (\<lambda>_.
     mat_then (checked_digest msg (fn_name f) (fn_digest f)) (\<lambda>d.
     mat_then (write_file blobs os d (dir @ [fn_name f]) (fn_executable f)) (\<lambda>_.
     mat_then (tally (\<lambda>st. st\<lparr>ms_files := ms_files st + 1, ms_bytes := sat_add (ms_bytes st) (nat (dg_size d))\<rparr>)) (\<lambda>_.
     put_files msg blobs os dir fs))))"

fun put_symlinks :: "(string \<Rightarrow> string \<Rightarrow> string) \<Rightarrow> os \<Rightarrow> path \<Rightarrow> symlink_node list \<Rightarrow> unit mat" where
  "put_symlinks msg os dir [] = lift (Inr ())"
| "put_symlinks msg os dir (l # ls) =
     mat_then (checked_name msg (sn_name l)) (\<lambda>_.
     mat_then (\<lambda>st. if os_exists os (ms_calls st) (dir @ [sn_name l])
                     then perform os (RemoveFile (dir @ [sn_name l])) st else (Inr (), st)) (\<lambda>_.
     mat_then (perform os (MakeSymlink (sn_target l) (dir @ [sn_name l]))) (\<lambda>_.
     mat_then (tally (\<lambda>st. st\<lparr>ms_symlinks := ms_symlinks st + 1\<rparr>)) (\<lambda>_.
     put_symlinks msg os dir ls))))"

text \<open>The walk answers \<open>True\<close> when it is finished and \<open>False\<close> when it ran out of fuel.\<close>

fun materialize_directory ::
  "(string \<Rightarrow> string \<Rightarrow> string) \<Rightarrow> (digest \<Rightarrow> cas_error + bytes) \<Rightarrow> (bytes \<Rightarrow> string + directory) \<Rightarrow> os
     \<Rightarrow> nat \<Rightarrow> digest \<Rightarrow> path \<Rightarrow> bool mat"
and put_directories ::
  "(string \<Rightarrow> string \<Rightarrow> string) \<Rightarrow> (digest \<Rightarrow> cas_error + bytes) \<Rightarrow> (bytes \<Rightarrow> string + directory) \<Rightarrow> os
     \<Rightarrow> nat \<Rightarrow> path \<Rightarrow> directory_node list \<Rightarrow> bool mat" where
  "materialize_directory msg blobs decode os 0 d dir = lift (Inr False)"
| "materialize_directory msg blobs decode os (Suc fuel) d dir =
     mat_then (fetch_directory blobs decode d) (\<lambda>directory.
     mat_then (put_files msg blobs os dir (d_files directory)) (\<lambda>_.
     mat_then (put_symlinks msg os dir (d_symlinks directory)) (\<lambda>_.
     put_directories msg blobs decode os fuel dir (d_directories directory))))"
| "put_directories msg blobs decode os fuel dir [] = lift (Inr True)"
| "put_directories msg blobs decode os fuel dir (c # cs) =
     mat_then (checked_name msg (dn_name c)) (\<lambda>_.
     mat_then (perform os (CreateDirAll (dir @ [dn_name c]))) (\<lambda>_.
     mat_then (tally (\<lambda>st. st\<lparr>ms_dirs := ms_dirs st + 1\<rparr>)) (\<lambda>_.
     mat_then (checked_digest msg (dn_name c) (dn_digest c)) (\<lambda>d.
     mat_then (materialize_directory msg blobs decode os fuel d (dir @ [dn_name c])) (\<lambda>finished.
     if finished then put_directories msg blobs decode os fuel dir cs else lift (Inr False))))))"

definition materialize_tree ::
  "(string \<Rightarrow> string \<Rightarrow> string) \<Rightarrow> (digest \<Rightarrow> cas_error + bytes) \<Rightarrow> (bytes \<Rightarrow> string + directory) \<Rightarrow> os
     \<Rightarrow> nat \<Rightarrow> digest \<Rightarrow> path \<Rightarrow> (cas_error + bool) \<times> mat_state" where
  "materialize_tree msg blobs decode os fuel root target_dir =
     materialize_directory msg blobs decode os fuel root target_dir mat_start"

section \<open>Paths stay below the target\<close>

text \<open>An action is confined when each call it makes names a path below the directory by valid segments
  only.\<close>

definition inside :: "path \<Rightarrow> fs_call \<Rightarrow> bool" where
  "inside dir c \<longleftrightarrow> (\<exists>segs. call_path c = dir @ segs \<and> segs \<noteq> [] \<and> list_all (\<lambda>s. validate_node_name s = None) segs)"

definition confined :: "path \<Rightarrow> 'a mat \<Rightarrow> bool" where
  "confined dir f \<longleftrightarrow> (\<forall>st. \<exists>new. ms_calls (snd (f st)) = ms_calls st @ new \<and> (\<forall>c \<in> set new. inside dir c))"

lemma confined_then:
  assumes "confined dir f" "\<And>x. confined dir (g x)"
  shows "confined dir (mat_then f g)"
  unfolding confined_def
proof
  fix st
  obtain r s where f: "f st = (r, s)" by fastforce
  with assms(1) obtain new where new: "ms_calls s = ms_calls st @ new" "\<forall>c \<in> set new. inside dir c"
    unfolding confined_def by (metis snd_conv)
  show "\<exists>new. ms_calls (snd (mat_then f g st)) = ms_calls st @ new \<and> (\<forall>c \<in> set new. inside dir c)"
  proof (cases r)
    case (Inl e)
    with f new show ?thesis by (auto simp: mat_then_def)
  next
    case (Inr x)
    from assms(2) [of x] obtain more where "ms_calls (snd (g x s)) = ms_calls s @ more" "\<forall>c \<in> set more. inside dir c"
      unfolding confined_def by blast
    with f Inr new show ?thesis by (intro exI [of _ "new @ more"]) (auto simp: mat_then_def)
  qed
qed

lemma confined_pure [simp]:
  "confined dir (lift r)" "confined dir (fail e)" "(\<And>st. ms_calls (h st) = ms_calls st) \<Longrightarrow> confined dir (tally h)"
  by (simp_all add: confined_def lift_def fail_def tally_def)

lemma confined_perform: "inside dir c \<Longrightarrow> confined dir (perform os c)"
  by (simp add: confined_def perform_def)

lemma confined_if_exists:
  "inside dir c \<Longrightarrow> confined dir (\<lambda>st. if P st then perform os c st else (Inr (), st))"
  by (simp add: confined_def perform_def)

text \<open>Past the name check the rest may assume a valid name.\<close>

lemma confined_checked:
  assumes "validate_node_name name = None \<Longrightarrow> confined dir f"
  shows "confined dir (mat_then (checked_name msg name) (\<lambda>_. f))"
proof (cases "validate_node_name name")
  case None
  with assms show ?thesis by (intro confined_then) (simp_all add: checked_name_def)
next
  case (Some r)
  then show ?thesis by (simp add: confined_def checked_name_def mat_then_def fail_def)
qed

lemma confined_digest [simp]: "confined dir (checked_digest msg name w)"
  by (simp add: checked_digest_def split: option.split prod.split sum.split)

lemma confined_fetch [simp]: "confined dir (fetch_directory blobs decode d)"
  by (simp add: fetch_directory_def split: sum.split)

lemma inside_here: "validate_node_name name = None \<Longrightarrow> call_path c = dir @ [name] \<Longrightarrow> inside dir c"
  by (auto simp: inside_def)

lemma confined_write_file:
  "validate_node_name name = None \<Longrightarrow> confined dir (write_file blobs os d (dir @ [name]) x)"
  unfolding write_file_def by (intro confined_then) (auto intro!: confined_perform inside_here)

lemma confined_put_files: "confined dir (put_files msg blobs os dir fs)"
  by (induction fs) (auto intro!: confined_checked confined_then confined_write_file)

lemma confined_put_symlinks: "confined dir (put_symlinks msg os dir ls)"
  by (induction ls) (auto intro!: confined_checked confined_then confined_perform confined_if_exists inside_here)

lemma confined_deeper:
  assumes "confined (dir @ [name]) f" "validate_node_name name = None"
  shows "confined dir f"
proof -
  have "inside dir c" if c: "inside (dir @ [name]) c" for c
  proof -
    from c obtain segs where "call_path c = dir @ name # segs" "list_all (\<lambda>s. validate_node_name s = None) segs"
      by (auto simp: inside_def)
    with assms(2) show ?thesis unfolding inside_def by (intro exI [of _ "name # segs"]) simp
  qed
  with assms(1) show ?thesis unfolding confined_def by blast
qed

lemma confined_walk:
  "confined dir (materialize_directory msg blobs decode os fuel d dir)"
  "confined dir (put_directories msg blobs decode os fuel dir cs)"
proof (induction msg blobs decode os fuel d dir and msg blobs decode os fuel dir cs
    rule: materialize_directory_put_directories.induct)
  case (2 msg blobs decode os fuel d dir)
  then show ?case by (auto intro!: confined_then confined_put_files confined_put_symlinks)
next
  case (4 msg blobs decode os fuel dir c cs)
  then show ?case
    by (auto intro!: confined_checked confined_then confined_perform inside_here intro: confined_deeper)
qed simp_all

section \<open>Enough fuel\<close>

definition child_digest :: "directory_node \<Rightarrow> digest option" where
  "child_digest c =
     (case dn_digest c of None \<Rightarrow> None
      | Some (hash, sz) \<Rightarrow> (case digest_new hash sz of Inr d \<Rightarrow> Some d | Inl _ \<Rightarrow> None))"

text \<open>The tree below a digest has at most \<open>n\<close> levels.\<close>

fun shallow :: "(digest \<Rightarrow> cas_error + bytes) \<Rightarrow> (bytes \<Rightarrow> string + directory) \<Rightarrow> nat \<Rightarrow> digest \<Rightarrow> bool" where
  "shallow blobs decode 0 d = False"
| "shallow blobs decode (Suc n) d =
     (case blobs d of
        Inl _ \<Rightarrow> True
      | Inr bs \<Rightarrow>
          (case decode bs of
             Inl _ \<Rightarrow> True
           | Inr dir \<Rightarrow> list_all (\<lambda>c. case child_digest c of None \<Rightarrow> True | Some e \<Rightarrow> shallow blobs decode n e) (d_directories dir)))"

lemma mat_then_finished:
  assumes "\<And>x s. fst (f st) = Inr x \<Longrightarrow> fst (g x s) \<noteq> Inr y"
  shows "fst (mat_then f g st) \<noteq> Inr y"
  using assms by (auto simp: mat_then_def split: prod.split sum.split)

lemma walk_finishes:
  "shallow blobs decode fuel d \<Longrightarrow> fst (materialize_directory msg blobs decode os fuel d dir st) \<noteq> Inr False"
  "list_all (\<lambda>c. case child_digest c of None \<Rightarrow> True | Some e \<Rightarrow> shallow blobs decode fuel e) cs \<Longrightarrow>
     fst (put_directories msg blobs decode os fuel dir cs st) \<noteq> Inr False"
proof (induction msg blobs decode os fuel d dir and msg blobs decode os fuel dir cs arbitrary: st and st
    rule: materialize_directory_put_directories.induct)
  case (2 msg blobs decode os fuel d dir)
  show ?case unfolding materialize_directory.simps
  proof (rule mat_then_finished)
    fix x s assume "fst (fetch_directory blobs decode d st) = Inr x"
    then obtain bs where "blobs d = Inr bs" "decode bs = Inr x"
      by (auto simp: fetch_directory_def fail_def lift_def split: sum.splits)
    with 2 show "fst (mat_then (put_files msg blobs os dir (d_files x)) (\<lambda>_.
        mat_then (put_symlinks msg os dir (d_symlinks x)) (\<lambda>_.
        put_directories msg blobs decode os fuel dir (d_directories x))) s) \<noteq> Inr False"
      by (intro mat_then_finished) auto
  qed
next
  case (4 msg blobs decode os fuel dir c cs)
  have child: "shallow blobs decode fuel d" if "fst (checked_digest msg (dn_name c) (dn_digest c) s) = Inr d" for d s
    using that 4(3) by (auto simp: checked_digest_def child_digest_def fail_def lift_def split: option.splits sum.splits)
  have rest: "list_all (\<lambda>c. case child_digest c of None \<Rightarrow> True | Some e \<Rightarrow> shallow blobs decode fuel e) cs" using 4(3) by simp
  show ?case unfolding put_directories.simps
  proof (intro mat_then_finished)
    fix d s t finished r
    assume "fst (checked_digest msg (dn_name c) (dn_digest c) s) = Inr d"
      and "fst (materialize_directory msg blobs decode os fuel d (dir @ [dn_name c]) t) = Inr finished"
    then show "fst ((if finished then put_directories msg blobs decode os fuel dir cs else lift (Inr False)) r) \<noteq> Inr False"
      using 4(1) [OF child] 4(2) [OF _ rest] by (cases finished) auto
  qed
qed (simp_all add: lift_def)

text \<open>C29. A materialized tree is named below its target.  Whatever the store returns, whatever the
  decoder makes of it and however the operating system answers, every path that the walk writes,
  links, creates, removes or marks executable is the target directory followed by at least one
  segment, and no segment is empty, a dot, two dots, or contains a slash or a NUL.  A tree of at most
  as many levels as the fuel is walked to the end or to an error.\<close>

theorem materialize_names_below_target:
  "list_all (\<lambda>c. \<exists>segs. call_path c = target_dir @ segs \<and> segs \<noteq> [] \<and>
      list_all (\<lambda>s. s \<noteq> [] \<and> s \<noteq> ''.'' \<and> s \<noteq> ''..'' \<and> CHR ''/'' \<notin> set s \<and> CHR 0x00 \<notin> set s) segs)
    (ms_calls (snd (materialize_tree msg blobs decode os fuel root target_dir))) \<and>
   (shallow blobs decode fuel root \<longrightarrow> fst (materialize_tree msg blobs decode os fuel root target_dir) \<noteq> Inr False)"
proof -
  have valid: "validate_node_name s = None \<longleftrightarrow> s \<noteq> [] \<and> s \<noteq> ''.'' \<and> s \<noteq> ''..'' \<and> CHR ''/'' \<notin> set s \<and> CHR 0x00 \<notin> set s" for s
    by (auto simp: validate_node_name_def)
  have empty: "ms_calls mat_start = []" by (simp add: mat_start_def)
  have "\<exists>new. ms_calls (snd (materialize_directory msg blobs decode os fuel root target_dir mat_start)) =
      ms_calls mat_start @ new \<and> (\<forall>c \<in> set new. inside target_dir c)"
    using confined_walk(1) [of target_dir msg blobs decode os fuel root] unfolding confined_def by (rule spec)
  then have "list_all (inside target_dir) (ms_calls (snd (materialize_tree msg blobs decode os fuel root target_dir)))"
    by (auto simp: list_all_iff materialize_tree_def empty)
  then show ?thesis
    using walk_finishes(1) [of blobs decode fuel root msg os target_dir mat_start]
    unfolding inside_def valid by (simp add: materialize_tree_def)
qed

section \<open>A symbolic link below the target\<close>

text \<open>The paths are below the target by name only.  A directory message may hold a symbolic link and a
  subdirectory of one name: the link is made first, creating the directory then finds it in place,
  and the files of the subdirectory are written through it.\<close>

definition demo_hash :: "char \<Rightarrow> string" where
  "demo_hash c = replicate 64 c"

definition demo_blobs :: "digest \<Rightarrow> cas_error + bytes" where
  "demo_blobs d = Inr (if hd (dg_hash d) = CHR ''a'' then [0] else if hd (dg_hash d) = CHR ''b'' then [1] else [7])"

definition demo_decode :: "bytes \<Rightarrow> string + directory" where
  "demo_decode bs =
     (if bs = [0]
      then Inr \<lparr>d_files = [], d_symlinks = [\<lparr>sn_name = ''x'', sn_target = ''/etc''\<rparr>],
                d_directories = [\<lparr>dn_name = ''x'', dn_digest = Some (demo_hash CHR ''b'', 1)\<rparr>]\<rparr>
      else Inr \<lparr>d_files = [\<lparr>fn_name = ''passwd'', fn_digest = Some (demo_hash CHR ''c'', 1), fn_executable = False\<rparr>],
                d_symlinks = [], d_directories = []\<rparr>)"

definition demo_os :: os where
  "demo_os = \<lparr>os_call = \<lambda>_ _. Inr (), os_exists = \<lambda>calls p. p \<in> set (map call_path calls)\<rparr>"

definition demo_tree :: "(cas_error + bool) \<times> mat_state" where
  "demo_tree = materialize_tree (\<lambda>_ _. []) demo_blobs demo_decode demo_os 2 \<lparr>dg_hash = demo_hash CHR ''a'', dg_size = 1\<rparr> [''work'']"

lemma writes_through_symlink:
  "fst demo_tree = Inr True \<and> ms_calls (snd demo_tree) =
     [MakeSymlink ''/etc'' [''work'', ''x''], CreateDirAll [''work'', ''x''], WriteFile [''work'', ''x'', ''passwd''] [7]]"
  by code_simp

theorem materialize_names_below_target_witness:
  "shallow demo_blobs demo_decode 2 \<lparr>dg_hash = demo_hash CHR ''a'', dg_size = 1\<rparr> \<and> fst demo_tree \<noteq> Inr False"
proof -
  have "shallow demo_blobs demo_decode 2 \<lparr>dg_hash = demo_hash CHR ''a'', dg_size = 1\<rparr>" by code_simp
  with materialize_names_below_target [where blobs = demo_blobs and decode = demo_decode and fuel = 2
      and root = "\<lparr>dg_hash = demo_hash CHR ''a'', dg_size = 1\<rparr>"] show ?thesis
    unfolding demo_tree_def by blast
qed

end
