(* ===== verification/Worker_Inode.thy ===== *)
theory Worker_Inode
  imports Cas_Tree
begin

text \<open>
  The inode table of the worker's FUSE mount, \<open>brokkr-worker/src/fuse/inode.rs\<close>: built once from the
  directory messages of an input tree, then read.  The store and the decoder are arguments, as in the
  materialization; the recursion runs with fuel, and the error \<open>None\<close> stands for running out of it.
  The lemmas give the meaning of a table, the messages it represents, and what adding entries does
  to it.
\<close>

section \<open>The table\<close>

definition ROOT_INO :: nat where
  "ROOT_INO = 1"

datatype inode_kind =
    Dir "(string \<times> nat) list"
  | File digest nat bool
  | Link string

record inode =
  nd_ino :: nat
  nd_kind :: inode_kind

type_synonym inode_table = "inode list"

definition inode_get :: "inode_table \<Rightarrow> nat \<Rightarrow> inode option" where
  "inode_get t ino = (if ino = 0 then None else if ino - 1 < length t then Some (t ! (ino - 1)) else None)"

definition inode_lookup :: "inode_table \<Rightarrow> nat \<Rightarrow> string \<Rightarrow> nat option" where
  "inode_lookup t parent name =
     (case inode_get t parent of
        None \<Rightarrow> None
      | Some i \<Rightarrow> (case nd_kind i of Dir es \<Rightarrow> map_of es name | _ \<Rightarrow> None))"

definition inode_children :: "inode_table \<Rightarrow> nat \<Rightarrow> (string \<times> nat) list option" where
  "inode_children t ino =
     (case inode_get t ino of
        None \<Rightarrow> None
      | Some i \<Rightarrow> (case nd_kind i of Dir es \<Rightarrow> Some es | _ \<Rightarrow> None))"

datatype component = RootDir | CurDir | Normal string | ParentDir | Prefix

fun resolve_from :: "inode_table \<Rightarrow> nat \<Rightarrow> component list \<Rightarrow> nat option" where
  "resolve_from t ino [] = Some ino"
| "resolve_from t ino (RootDir # cs) = resolve_from t ino cs"
| "resolve_from t ino (CurDir # cs) = resolve_from t ino cs"
| "resolve_from t ino (Normal name # cs) =
     (case inode_lookup t ino name of None \<Rightarrow> None | Some child \<Rightarrow> resolve_from t child cs)"
| "resolve_from t ino (ParentDir # cs) = None"
| "resolve_from t ino (Prefix # cs) = None"

definition inode_resolve :: "inode_table \<Rightarrow> component list \<Rightarrow> nat option" where
  "inode_resolve t cs = resolve_from t ROOT_INO cs"

section \<open>Building it\<close>

type_synonym 'a build = "cas_error option + 'a"

definition build_then :: "'a build \<Rightarrow> ('a \<Rightarrow> 'b build) \<Rightarrow> 'b build" where
  "build_then r f = (case r of Inl e \<Rightarrow> Inl e | Inr x \<Rightarrow> f x)"

definition inode_push :: "inode_table \<Rightarrow> inode_kind \<Rightarrow> nat \<times> inode_table" where
  "inode_push t k = (length t + 1, t @ [\<lparr>nd_ino = length t + 1, nd_kind = k\<rparr>])"

definition link_child :: "(string \<Rightarrow> string \<Rightarrow> string) \<Rightarrow> inode_table \<Rightarrow> nat \<Rightarrow> string \<Rightarrow> nat \<Rightarrow> inode_table build" where
  "link_child msg t parent name child =
     (if \<not> parent - 1 < length t then Inl (Some (CasOther (msg name ''parent not allocated'')))
      else case nd_kind (t ! (parent - 1)) of
        Dir es \<Rightarrow>
          (if map_of es name \<noteq> None then Inl (Some (CasOther (msg name ''duplicate entry'')))
           else Inr (t[parent - 1 := (t ! (parent - 1))\<lparr>nd_kind := Dir (es @ [(name, child)])\<rparr>]))
      | _ \<Rightarrow> Inl (Some (CasOther (msg name ''parent is not a directory''))))"

definition valid_name :: "(string \<Rightarrow> string \<Rightarrow> string) \<Rightarrow> string \<Rightarrow> unit build" where
  "valid_name msg name =
     (case validate_node_name name of Some reason \<Rightarrow> Inl (Some (CasOther (msg name reason))) | None \<Rightarrow> Inr ())"

definition decode_digest :: "(string \<Rightarrow> string \<Rightarrow> string) \<Rightarrow> (string \<times> int) option \<Rightarrow> string \<Rightarrow> digest build" where
  "decode_digest msg w name =
     (case w of
        None \<Rightarrow> Inl (Some (CasOther (msg name ''missing digest'')))
      | Some (hash, sz) \<Rightarrow>
          (case digest_new hash sz of Inr d \<Rightarrow> Inr d | Inl _ \<Rightarrow> Inl (Some (CasOther (msg name ''invalid digest'')))))"

definition get_directory :: "(digest \<Rightarrow> cas_error + bytes) \<Rightarrow> (bytes \<Rightarrow> string + directory) \<Rightarrow> digest \<Rightarrow> directory build" where
  "get_directory blobs decode d =
     (case blobs d of
        Inl e \<Rightarrow> Inl (Some e)
      | Inr bs \<Rightarrow> (case decode bs of Inl e \<Rightarrow> Inl (Some (CasOther e)) | Inr dir \<Rightarrow> Inr dir))"

text \<open>\<open>push\<close>, then \<open>link_child\<close>: the new inode and the table.\<close>

definition add_child ::
  "(string \<Rightarrow> string \<Rightarrow> string) \<Rightarrow> inode_table \<Rightarrow> nat \<Rightarrow> string \<Rightarrow> inode_kind \<Rightarrow> (nat \<times> inode_table) build" where
  "add_child msg t parent name k =
     (let (child, t) = inode_push t k in build_then (link_child msg t parent name child) (\<lambda>t. Inr (child, t)))"

fun add_files ::
  "(string \<Rightarrow> string \<Rightarrow> string) \<Rightarrow> nat \<Rightarrow> file_node list \<Rightarrow> inode_table \<Rightarrow> inode_table build" where
  "add_files msg parent [] t = Inr t"
| "add_files msg parent (f # fs) t =
     build_then (valid_name msg (fn_name f)) (\<lambda>_.
     build_then (decode_digest msg (fn_digest f) (fn_name f)) (\<lambda>d.
     if dg_size d < 0 then Inl (Some (CasOther (msg (fn_name f) ''negative or oversize digest size'')))
     else build_then (add_child msg t parent (fn_name f) (File d (nat (dg_size d)) (fn_executable f))) (\<lambda>(_, t).
     add_files msg parent fs t)))"

fun add_symlinks ::
  "(string \<Rightarrow> string \<Rightarrow> string) \<Rightarrow> nat \<Rightarrow> symlink_node list \<Rightarrow> inode_table \<Rightarrow> inode_table build" where
  "add_symlinks msg parent [] t = Inr t"
| "add_symlinks msg parent (l # ls) t =
     build_then (valid_name msg (sn_name l)) (\<lambda>_.
     build_then (add_child msg t parent (sn_name l) (Link (sn_target l))) (\<lambda>(_, t).
     add_symlinks msg parent ls t))"

fun build_dir ::
  "(string \<Rightarrow> string \<Rightarrow> string) \<Rightarrow> (digest \<Rightarrow> cas_error + bytes) \<Rightarrow> (bytes \<Rightarrow> string + directory)
     \<Rightarrow> nat \<Rightarrow> digest \<Rightarrow> nat \<Rightarrow> inode_table \<Rightarrow> inode_table build"
and add_directories ::
  "(string \<Rightarrow> string \<Rightarrow> string) \<Rightarrow> (digest \<Rightarrow> cas_error + bytes) \<Rightarrow> (bytes \<Rightarrow> string + directory)
     \<Rightarrow> nat \<Rightarrow> nat \<Rightarrow> directory_node list \<Rightarrow> inode_table \<Rightarrow> inode_table build" where
  "build_dir msg blobs decode 0 d parent t = Inl None"
| "build_dir msg blobs decode (Suc fuel) d parent t =
     build_then (get_directory blobs decode d) (\<lambda>dir.
     build_then (add_files msg parent (d_files dir) t) (\<lambda>t.
     build_then (add_symlinks msg parent (d_symlinks dir) t) (\<lambda>t.
     add_directories msg blobs decode fuel parent (d_directories dir) t)))"
| "add_directories msg blobs decode fuel parent [] t = Inr t"
| "add_directories msg blobs decode fuel parent (c # cs) t =
     build_then (valid_name msg (dn_name c)) (\<lambda>_.
     build_then (decode_digest msg (dn_digest c) (dn_name c)) (\<lambda>d.
     build_then (add_child msg t parent (dn_name c) (Dir [])) (\<lambda>(child, t).
     build_then (build_dir msg blobs decode fuel d child t) (\<lambda>t.
     add_directories msg blobs decode fuel parent cs t))))"

definition inode_build ::
  "(string \<Rightarrow> string \<Rightarrow> string) \<Rightarrow> (digest \<Rightarrow> cas_error + bytes) \<Rightarrow> (bytes \<Rightarrow> string + directory)
     \<Rightarrow> nat \<Rightarrow> digest \<Rightarrow> inode_table build" where
  "inode_build msg blobs decode fuel root =
     build_dir msg blobs decode fuel root ROOT_INO [\<lparr>nd_ino = ROOT_INO, nd_kind = Dir []\<rparr>]"

section \<open>What a table represents\<close>

definition parse_wire :: "(string \<times> int) option \<Rightarrow> digest option" where
  "parse_wire w =
     (case w of None \<Rightarrow> None
      | Some (hash, sz) \<Rightarrow> (case digest_new hash sz of Inr d \<Rightarrow> Some d | Inl _ \<Rightarrow> None))"

definition file_at :: "inode_table \<Rightarrow> nat \<Rightarrow> file_node \<Rightarrow> string \<times> nat \<Rightarrow> bool" where
  "file_at t lo f e \<longleftrightarrow> fn_name f = fst e \<and> lo \<le> snd e \<and> (\<exists>d. parse_wire (fn_digest f) = Some d \<and>
     inode_get t (snd e) = Some \<lparr>nd_ino = snd e, nd_kind = File d (nat (dg_size d)) (fn_executable f)\<rparr>)"

definition link_at :: "inode_table \<Rightarrow> nat \<Rightarrow> symlink_node \<Rightarrow> string \<times> nat \<Rightarrow> bool" where
  "link_at t lo l e \<longleftrightarrow> sn_name l = fst e \<and> lo \<le> snd e \<and>
     inode_get t (snd e) = Some \<lparr>nd_ino = snd e, nd_kind = Link (sn_target l)\<rparr>"

text \<open>\<open>rep\<close>: the inode is a directory whose entries are, in order, those of the message, all with numbers
  from \<open>lo\<close> on.\<close>

inductive rep :: "(digest \<Rightarrow> cas_error + bytes) \<Rightarrow> (bytes \<Rightarrow> string + directory) \<Rightarrow> inode_table \<Rightarrow> nat \<Rightarrow> digest \<Rightarrow> nat \<Rightarrow> bool"
  for blobs decode t lo where
  "rep blobs decode t lo d ino"
  if "get_directory blobs decode d = Inr dir"
    and "inode_get t ino = Some \<lparr>nd_ino = ino, nd_kind = Dir (fs @ ls @ ds)\<rparr>"
    and "distinct (map fst (fs @ ls @ ds))"
    and "list_all2 (file_at t lo) (d_files dir) fs" "list_all2 (link_at t lo) (d_symlinks dir) ls"
    and "list_all2 (\<lambda>c e. dn_name c = fst e \<and> lo \<le> snd e \<and>
           (\<exists>d. parse_wire (dn_digest c) = Some d \<and> rep blobs decode t lo d (snd e))) (d_directories dir) ds"

definition dir_at ::
  "(digest \<Rightarrow> cas_error + bytes) \<Rightarrow> (bytes \<Rightarrow> string + directory) \<Rightarrow> inode_table \<Rightarrow> nat \<Rightarrow> directory_node \<Rightarrow> string \<times> nat \<Rightarrow> bool" where
  "dir_at blobs decode t lo c e \<longleftrightarrow> dn_name c = fst e \<and> lo \<le> snd e \<and>
     (\<exists>d. parse_wire (dn_digest c) = Some d \<and> rep blobs decode t lo d (snd e))"

definition kept :: "nat \<Rightarrow> inode_table \<Rightarrow> inode_table \<Rightarrow> bool" where
  "kept p t t' \<longleftrightarrow> length t \<le> length t' \<and> (\<forall>i x. i \<noteq> p \<longrightarrow> inode_get t i = Some x \<longrightarrow> inode_get t' i = Some x)"

lemma kept_refl [simp]: "kept p t t"
  by (simp add: kept_def)

lemma kept_trans: "kept p t u \<Longrightarrow> kept p u v \<Longrightarrow> kept p t v"
  by (auto simp: kept_def)

lemma kept_get: "kept p t t' \<Longrightarrow> i \<noteq> p \<Longrightarrow> inode_get t i = Some x \<Longrightarrow> inode_get t' i = Some x"
  by (simp add: kept_def)

lemma file_at_kept: "file_at t lo f e \<Longrightarrow> kept p t t' \<Longrightarrow> p < lo \<Longrightarrow> file_at t' lo f e"
  by (auto simp: file_at_def kept_def)

lemma link_at_kept: "link_at t lo l e \<Longrightarrow> kept p t t' \<Longrightarrow> p < lo \<Longrightarrow> link_at t' lo l e"
  by (auto simp: link_at_def kept_def)

lemma rep_mono:
  assumes "rep blobs decode t lo d ino" "lo' \<le> lo"
    and "\<And>i x. lo \<le> i \<or> i = ino \<Longrightarrow> inode_get t i = Some x \<Longrightarrow> inode_get t' i = Some x"
  shows "rep blobs decode t' lo' d ino"
  using assms
proof (induction rule: rep.induct)
  case (1 d dir ino fs ls ds)
  have get: "inode_get t i = Some x \<Longrightarrow> inode_get t' i = Some x" if "lo \<le> i \<or> i = ino" for i x using 1(8) that by blast
  have "list_all2 (file_at t' lo') (d_files dir) fs"
    using 1(4) by (rule list.rel_mono_strong) (use 1(7) get in \<open>auto simp: file_at_def\<close>)
  moreover have "list_all2 (link_at t' lo') (d_symlinks dir) ls"
    using 1(5) by (rule list.rel_mono_strong) (use 1(7) get in \<open>auto simp: link_at_def\<close>)
  moreover have "list_all2 (\<lambda>c e. dn_name c = fst e \<and> lo' \<le> snd e \<and>
      (\<exists>d. parse_wire (dn_digest c) = Some d \<and> rep blobs decode t' lo' d (snd e))) (d_directories dir) ds"
    using 1(6) by (rule list.rel_mono_strong) (use 1(7) get in \<open>auto 4 4\<close>)
  ultimately show ?case using 1(1-3) get by (intro rep.intros) auto
qed

lemma dir_at_kept:
  assumes "dir_at blobs decode t lo c e" "kept p t t'" "p < lo"
  shows "dir_at blobs decode t' lo c e"
proof -
  from assms(1) obtain d where d: "parse_wire (dn_digest c) = Some d" "rep blobs decode t lo d (snd e)" "lo \<le> snd e" "dn_name c = fst e"
    by (auto simp: dir_at_def)
  have "rep blobs decode t' lo d (snd e)"
    by (rule rep_mono [OF d(2) order_refl]) (use assms(2,3) d(3) kept_get in auto)
  with d show ?thesis by (auto simp: dir_at_def)
qed

section \<open>Building represents\<close>

lemma build_then_Inr: "build_then r f = Inr y \<longleftrightarrow> (\<exists>x. r = Inr x \<and> f x = Inr y)"
  by (cases r) (simp_all add: build_then_def)

lemma decode_digest_Inr: "decode_digest msg w name = Inr d \<longleftrightarrow> parse_wire w = Some d"
  by (auto simp: decode_digest_def parse_wire_def split: option.splits sum.splits)

lemma inode_get_range: "inode_get t i = Some x \<Longrightarrow> 0 < i \<and> i \<le> length t"
  by (auto simp: inode_get_def split: if_splits)

lemma add_child_Inr:
  assumes "add_child msg t p name k = Inr (c, t')" "inode_get t p = Some \<lparr>nd_ino = p, nd_kind = Dir es\<rparr>"
  shows "c = length t + 1" "length t' = length t + 1" "name \<notin> fst ` set es" "kept p t t'"
    "inode_get t' p = Some \<lparr>nd_ino = p, nd_kind = Dir (es @ [(name, c)])\<rparr>" "inode_get t' c = Some \<lparr>nd_ino = c, nd_kind = k\<rparr>"
proof -
  let ?u = "t @ [\<lparr>nd_ino = length t + 1, nd_kind = k\<rparr>]"
  note r = inode_get_range [OF assms(2)]
  have node: "?u ! (p - 1) = \<lparr>nd_ino = p, nd_kind = Dir es\<rparr>" using assms(2) r by (auto simp: inode_get_def nth_append split: if_splits)
  have n: "map_of es name = None" and c: "c = length t + 1"
    and t': "t' = ?u[p - 1 := \<lparr>nd_ino = p, nd_kind = Dir (es @ [(name, c)])\<rparr>]"
    using assms(1) node r
    by (auto simp: add_child_def inode_push_def build_then_Inr link_child_def split: if_splits)
  show "c = length t + 1" by (rule c)
  show "length t' = length t + 1" by (simp add: t')
  show "name \<notin> fst ` set es" using n by (simp add: map_of_eq_None_iff)
  show "kept p t t'" using r by (auto simp: kept_def t' inode_get_def nth_append nth_list_update split: if_splits)
  show "inode_get t' p = Some \<lparr>nd_ino = p, nd_kind = Dir (es @ [(name, c)])\<rparr>" using r by (auto simp: t' inode_get_def)
  show "inode_get t' c = Some \<lparr>nd_ino = c, nd_kind = k\<rparr>" using r by (auto simp: t' c inode_get_def nth_append nth_list_update)
qed

lemma add_files_Inr:
  assumes "add_files msg p fs t = Inr t'" "inode_get t p = Some \<lparr>nd_ino = p, nd_kind = Dir es\<rparr>" "distinct (map fst es)"
    and "lo \<le> length t + 1" "p < lo"
  shows "\<exists>new. kept p t t' \<and> inode_get t' p = Some \<lparr>nd_ino = p, nd_kind = Dir (es @ new)\<rparr> \<and>
    distinct (map fst (es @ new)) \<and> list_all2 (file_at t' lo) fs new"
  using assms
proof (induction fs arbitrary: t es)
  case (Cons f fs)
  from Cons.prems(1) obtain d c u where u: "parse_wire (fn_digest f) = Some d"
    "add_child msg t p (fn_name f) (File d (nat (dg_size d)) (fn_executable f)) = Inr (c, u)" "add_files msg p fs u = Inr t'"
    by (auto simp: build_then_Inr decode_digest_Inr split: if_splits)
  note a = add_child_Inr [OF u(2) Cons.prems(2)]
  have "distinct (map fst (es @ [(fn_name f, c)]))" "lo \<le> length u + 1" using Cons.prems(3,4) a by auto
  from Cons.IH [OF u(3) a(5) this Cons.prems(5)] obtain new where new: "kept p u t'"
    "inode_get t' p = Some \<lparr>nd_ino = p, nd_kind = Dir ((es @ [(fn_name f, c)]) @ new)\<rparr>"
    "distinct (map fst ((es @ [(fn_name f, c)]) @ new))" "list_all2 (file_at t' lo) fs new" by blast
  have "file_at u lo f (fn_name f, c)" using a u(1) Cons.prems(4) by (auto simp: file_at_def)
  then have "file_at t' lo f (fn_name f, c)" by (rule file_at_kept [OF _ new(1) Cons.prems(5)])
  then have "list_all2 (file_at t' lo) (f # fs) ((fn_name f, c) # new)" using new(4) by simp
  with new kept_trans [OF a(4) new(1)] show ?case by (intro exI [of _ "(fn_name f, c) # new"]) simp
qed auto

lemma add_symlinks_Inr:
  assumes "add_symlinks msg p ls t = Inr t'" "inode_get t p = Some \<lparr>nd_ino = p, nd_kind = Dir es\<rparr>" "distinct (map fst es)"
    and "lo \<le> length t + 1" "p < lo"
  shows "\<exists>new. kept p t t' \<and> inode_get t' p = Some \<lparr>nd_ino = p, nd_kind = Dir (es @ new)\<rparr> \<and>
    distinct (map fst (es @ new)) \<and> list_all2 (link_at t' lo) ls new"
  using assms
proof (induction ls arbitrary: t es)
  case (Cons l ls)
  from Cons.prems(1) obtain c u where u: "add_child msg t p (sn_name l) (Link (sn_target l)) = Inr (c, u)"
    "add_symlinks msg p ls u = Inr t'" by (auto simp: build_then_Inr)
  note a = add_child_Inr [OF u(1) Cons.prems(2)]
  have "distinct (map fst (es @ [(sn_name l, c)]))" "lo \<le> length u + 1" using Cons.prems(3,4) a by auto
  from Cons.IH [OF u(2) a(5) this Cons.prems(5)] obtain new where new: "kept p u t'"
    "inode_get t' p = Some \<lparr>nd_ino = p, nd_kind = Dir ((es @ [(sn_name l, c)]) @ new)\<rparr>"
    "distinct (map fst ((es @ [(sn_name l, c)]) @ new))" "list_all2 (link_at t' lo) ls new" by blast
  have "link_at u lo l (sn_name l, c)" using a Cons.prems(4) by (auto simp: link_at_def)
  then have "link_at t' lo l (sn_name l, c)" by (rule link_at_kept [OF _ new(1) Cons.prems(5)])
  then have "list_all2 (link_at t' lo) (l # ls) ((sn_name l, c) # new)" using new(4) by simp
  with new kept_trans [OF a(4) new(1)] show ?case by (intro exI [of _ "(sn_name l, c) # new"]) simp
qed auto

end
