(* ===== verification/Worker_Inode_Tree.thy ===== *)
theory Worker_Inode_Tree
  imports Worker_Inode
begin

text \<open>
  The inode table of \<open>brokkr-worker/src/fuse/inode.rs\<close> represents the tree it was built from: the walk
  establishes the representation, and a look-up by path in a represented table agrees with following
  the path through the directory messages.
\<close>

section \<open>The walk represents\<close>

lemma build_represents:
  "build_dir msg blobs decode fuel d p t = Inr t' \<Longrightarrow> inode_get t p = Some \<lparr>nd_ino = p, nd_kind = Dir []\<rparr> \<Longrightarrow>
     kept p t t' \<and> rep blobs decode t' (length t + 1) d p"
  "add_directories msg blobs decode fuel p cs t = Inr t' \<Longrightarrow> inode_get t p = Some \<lparr>nd_ino = p, nd_kind = Dir es\<rparr> \<Longrightarrow>
     distinct (map fst es) \<Longrightarrow> lo \<le> length t + 1 \<Longrightarrow> p < lo \<Longrightarrow>
     \<exists>new. kept p t t' \<and> inode_get t' p = Some \<lparr>nd_ino = p, nd_kind = Dir (es @ new)\<rparr> \<and>
       distinct (map fst (es @ new)) \<and> list_all2 (dir_at blobs decode t' lo) cs new"
proof (induction msg blobs decode fuel d p t and msg blobs decode fuel p cs t arbitrary: t' and t' es lo
    rule: build_dir_add_directories.induct)
  case (2 msg blobs decode fuel d p t)
  from 2(2) obtain dir u v where dir: "get_directory blobs decode d = Inr dir" "add_files msg p (d_files dir) t = Inr u"
    "add_symlinks msg p (d_symlinks dir) u = Inr v" "add_directories msg blobs decode fuel p (d_directories dir) v = Inr t'"
    by (auto simp: build_then_Inr)
  let ?lo = "length t + 1"
  have p: "p < ?lo" using inode_get_range [OF 2(3)] by simp
  obtain fs where fs: "kept p t u" "inode_get u p = Some \<lparr>nd_ino = p, nd_kind = Dir fs\<rparr>" "distinct (map fst fs)"
    "list_all2 (file_at u ?lo) (d_files dir) fs"
    using add_files_Inr [OF dir(2) 2(3) _ order_refl p] by auto
  have lu: "?lo \<le> length u + 1" using fs(1) by (simp add: kept_def)
  obtain ls where ls: "kept p u v" "inode_get v p = Some \<lparr>nd_ino = p, nd_kind = Dir (fs @ ls)\<rparr>" "distinct (map fst (fs @ ls))"
    "list_all2 (link_at v ?lo) (d_symlinks dir) ls"
    using add_symlinks_Inr [OF dir(3) fs(2,3) lu p] by blast
  have lv: "?lo \<le> length v + 1" using lu ls(1) by (simp add: kept_def)
  obtain ds where ds: "kept p v t'" "inode_get t' p = Some \<lparr>nd_ino = p, nd_kind = Dir ((fs @ ls) @ ds)\<rparr>"
    "distinct (map fst ((fs @ ls) @ ds))" "list_all2 (dir_at blobs decode t' ?lo) (d_directories dir) ds"
    using 2(1) [OF dir(4) ls(2,3) lv p] by blast
  have "list_all2 (file_at t' ?lo) (d_files dir) fs"
    using fs(4) file_at_kept [OF _ kept_trans [OF ls(1) ds(1)] p] by (rule list_all2_mono)
  moreover have "list_all2 (link_at t' ?lo) (d_symlinks dir) ls"
    using ls(4) link_at_kept [OF _ ds(1) p] by (rule list_all2_mono)
  moreover have "kept p t t'" using kept_trans fs(1) ls(1) ds(1) by blast
  ultimately show ?case using dir(1) ds(2-4) by (auto simp: dir_at_def [abs_def] intro: rep.intros)
next
  case (4 msg blobs decode fuel p c cs t)
  from 4(3) obtain d i u v where u: "parse_wire (dn_digest c) = Some d" "add_child msg t p (dn_name c) (Dir []) = Inr (i, u)"
    "build_dir msg blobs decode fuel d i u = Inr v" "add_directories msg blobs decode fuel p cs v = Inr t'"
    by (auto simp: build_then_Inr decode_digest_Inr)
  note a = add_child_Inr [OF u(2) 4(4)]
  have pi: "p \<noteq> i" using a(1) inode_get_range [OF 4(4)] by simp
  have b: "kept i u v" "rep blobs decode v (length u + 1) d i" using 4(1) [OF u(3) a(6)] by simp_all
  have kv: "kept p t v" using a(1,4) b(1) inode_get_range by (fastforce simp: kept_def)
  have vp: "inode_get v p = Some \<lparr>nd_ino = p, nd_kind = Dir (es @ [(dn_name c, i)])\<rparr>" by (rule kept_get [OF b(1) pi a(5)])
  have d1: "distinct (map fst (es @ [(dn_name c, i)]))" using 4(5) a(3) by simp
  have lv: "lo \<le> length v + 1" using 4(6) kv by (simp add: kept_def)
  obtain new where new: "kept p v t'" "inode_get t' p = Some \<lparr>nd_ino = p, nd_kind = Dir ((es @ [(dn_name c, i)]) @ new)\<rparr>"
    "distinct (map fst ((es @ [(dn_name c, i)]) @ new))" "list_all2 (dir_at blobs decode t' lo) cs new"
    using 4(2) [OF u(4) vp d1 lv 4(7)] by blast
  have "rep blobs decode t' lo d i"
  proof (rule rep_mono [OF b(2)])
    show "lo \<le> length u + 1" using 4(6) a(2) by simp
    show "inode_get t' j = Some x" if "length u + 1 \<le> j \<or> j = i" "inode_get v j = Some x" for j x
      using that 4(6,7) a(2) pi kept_get [OF new(1), of j x] by force
  qed
  then have "dir_at blobs decode t' lo c (dn_name c, i)" using u(1) a(1) 4(6) by (auto simp: dir_at_def)
  then have "list_all2 (dir_at blobs decode t' lo) (c # cs) ((dn_name c, i) # new)" using new(4) by simp
  with new kept_trans [OF kv new(1)] show ?case by (intro exI [of _ "(dn_name c, i) # new"]) simp
qed auto

section \<open>Looking a path up\<close>

datatype entry = EDir | EFile digest nat bool | ELink string

fun entry_of :: "inode_kind \<Rightarrow> entry" where
  "entry_of (Dir _) = EDir"
| "entry_of (File d n x) = EFile d n x"
| "entry_of (Link s) = ELink s"

definition entry_at :: "inode_table \<Rightarrow> nat \<Rightarrow> entry option" where
  "entry_at t ino = map_option (\<lambda>i. entry_of (nd_kind i)) (inode_get t ino)"

text \<open>The specification: follow the path through the directory messages themselves.\<close>

fun follow :: "(digest \<Rightarrow> cas_error + bytes) \<Rightarrow> (bytes \<Rightarrow> string + directory) \<Rightarrow> digest \<Rightarrow> string list \<Rightarrow> entry option" where
  "follow blobs decode d [] = Some EDir"
| "follow blobs decode d (n # ns) =
     (case get_directory blobs decode d of
        Inl _ \<Rightarrow> None
      | Inr dir \<Rightarrow>
          (case List.find (\<lambda>f. fn_name f = n) (d_files dir) of
             Some f \<Rightarrow>
               (if ns = [] then map_option (\<lambda>d. EFile d (nat (dg_size d)) (fn_executable f)) (parse_wire (fn_digest f)) else None)
           | None \<Rightarrow>
               (case List.find (\<lambda>l. sn_name l = n) (d_symlinks dir) of
                  Some l \<Rightarrow> (if ns = [] then Some (ELink (sn_target l)) else None)
                | None \<Rightarrow>
                    (case List.find (\<lambda>c. dn_name c = n) (d_directories dir) of
                       Some c \<Rightarrow> (case parse_wire (dn_digest c) of Some e \<Rightarrow> follow blobs decode e ns | None \<Rightarrow> None)
                     | None \<Rightarrow> None))))"

lemma find_entry:
  assumes "list_all2 R xs es" "\<And>x e. R x e \<Longrightarrow> name x = fst e"
  shows "(List.find (\<lambda>x. name x = n) xs = None \<and> map_of es n = None) \<or>
    (\<exists>x i. List.find (\<lambda>x. name x = n) xs = Some x \<and> map_of es n = Some i \<and> R x (n, i))"
  using assms(1)
proof (induction rule: list_all2_induct)
  case (Cons x xs e es)
  then show ?case using assms(2) [OF Cons(1)] by (cases e) auto
qed simp

lemma resolve_leaf:
  assumes "inode_get t i = Some \<lparr>nd_ino = i, nd_kind = k\<rparr>" "\<And>es. k \<noteq> Dir es"
  shows "Option.bind (resolve_from t i (map Normal ns)) (entry_at t) = (if ns = [] then Some (entry_of k) else None)"
  using assms by (cases ns) (auto simp: entry_at_def inode_lookup_def split: inode_kind.split)

lemma resolve_represented:
  "rep blobs decode t lo d ino \<Longrightarrow>
     Option.bind (resolve_from t ino (map Normal ns)) (entry_at t) = follow blobs decode d ns"
proof (induction ns arbitrary: d ino)
  case Nil
  then show ?case by (auto elim!: rep.cases simp: entry_at_def)
next
  case (Cons n ns)
  from Cons.prems obtain dir fs ls ds where r: "get_directory blobs decode d = Inr dir"
    "inode_get t ino = Some \<lparr>nd_ino = ino, nd_kind = Dir (fs @ ls @ ds)\<rparr>" "list_all2 (file_at t lo) (d_files dir) fs"
    "list_all2 (link_at t lo) (d_symlinks dir) ls" "list_all2 (dir_at blobs decode t lo) (d_directories dir) ds"
    by (auto elim!: rep.cases simp: dir_at_def [abs_def])
  have look: "inode_lookup t ino n = (case map_of fs n of Some i \<Rightarrow> Some i
      | None \<Rightarrow> (case map_of ls n of Some i \<Rightarrow> Some i | None \<Rightarrow> map_of ds n))"
    using r(2) by (auto simp: inode_lookup_def map_add_def split: option.split)
  have f: "(List.find (\<lambda>x. fn_name x = n) (d_files dir) = None \<and> map_of fs n = None) \<or>
      (\<exists>x i. List.find (\<lambda>x. fn_name x = n) (d_files dir) = Some x \<and> map_of fs n = Some i \<and> file_at t lo x (n, i))"
    by (rule find_entry [OF r(3)]) (simp add: file_at_def)
  have l: "(List.find (\<lambda>x. sn_name x = n) (d_symlinks dir) = None \<and> map_of ls n = None) \<or>
      (\<exists>x i. List.find (\<lambda>x. sn_name x = n) (d_symlinks dir) = Some x \<and> map_of ls n = Some i \<and> link_at t lo x (n, i))"
    by (rule find_entry [OF r(4)]) (simp add: link_at_def)
  have c: "(List.find (\<lambda>x. dn_name x = n) (d_directories dir) = None \<and> map_of ds n = None) \<or>
      (\<exists>x i. List.find (\<lambda>x. dn_name x = n) (d_directories dir) = Some x \<and> map_of ds n = Some i \<and> dir_at blobs decode t lo x (n, i))"
    by (rule find_entry [OF r(5)]) (simp add: dir_at_def)
  consider (a_file) f i where "List.find (\<lambda>x. fn_name x = n) (d_files dir) = Some f" "map_of fs n = Some i" "file_at t lo f (n, i)"
    | (a_link) l i where "List.find (\<lambda>x. fn_name x = n) (d_files dir) = None" "map_of fs n = None"
        "List.find (\<lambda>x. sn_name x = n) (d_symlinks dir) = Some l" "map_of ls n = Some i" "link_at t lo l (n, i)"
    | (a_dir) c i where "List.find (\<lambda>x. fn_name x = n) (d_files dir) = None" "map_of fs n = None"
        "List.find (\<lambda>x. sn_name x = n) (d_symlinks dir) = None" "map_of ls n = None"
        "List.find (\<lambda>x. dn_name x = n) (d_directories dir) = Some c" "map_of ds n = Some i" "dir_at blobs decode t lo c (n, i)"
    | (nothing) "List.find (\<lambda>x. fn_name x = n) (d_files dir) = None" "map_of fs n = None"
        "List.find (\<lambda>x. sn_name x = n) (d_symlinks dir) = None" "map_of ls n = None"
        "List.find (\<lambda>x. dn_name x = n) (d_directories dir) = None" "map_of ds n = None"
    using f l c by (elim disjE exE conjE) (simp_all, (blast+)?)
  then show ?case
  proof cases
    case a_file
    then obtain e where "parse_wire (fn_digest f) = Some e"
      "inode_get t i = Some \<lparr>nd_ino = i, nd_kind = File e (nat (dg_size e)) (fn_executable f)\<rparr>" by (auto simp: file_at_def)
    with a_file r(1) look show ?thesis by (simp add: resolve_leaf)
  next
    case a_link
    then have "inode_get t i = Some \<lparr>nd_ino = i, nd_kind = Link (sn_target l)\<rparr>" by (simp add: link_at_def)
    with a_link r(1) look show ?thesis by (simp add: resolve_leaf)
  next
    case a_dir
    then obtain e where "parse_wire (dn_digest c) = Some e" "rep blobs decode t lo e i" by (auto simp: dir_at_def)
    with a_dir r(1) look Cons.IH show ?thesis by simp
  next
    case nothing
    with r(1) look show ?thesis by simp
  qed
qed

text \<open>C30. The mounted tree is the uploaded tree.  If the inode table of an input root was built, then
  looking any path up in it, component by component from the root inode, finds a directory, a file
  with its digest, size and executable bit, or a symbolic link with its target, exactly when
  following the same path through the directory messages in the store does, and finds nothing
  otherwise.\<close>

theorem mounted_tree_is_uploaded_tree:
  assumes "inode_build msg blobs decode fuel root = Inr t"
  shows "Option.bind (inode_resolve t (map Normal ns)) (entry_at t) = follow blobs decode root ns"
proof -
  have "inode_get [\<lparr>nd_ino = ROOT_INO, nd_kind = Dir []\<rparr>] ROOT_INO = Some \<lparr>nd_ino = ROOT_INO, nd_kind = Dir []\<rparr>"
    by (simp add: inode_get_def ROOT_INO_def)
  from build_represents(1) [OF assms [unfolded inode_build_def] this] show ?thesis
    unfolding inode_resolve_def by (blast intro: resolve_represented)
qed

definition plain_decode :: "bytes \<Rightarrow> string + directory" where
  "plain_decode bs =
     (if bs = [0]
      then Inr \<lparr>d_files = [], d_symlinks = [\<lparr>sn_name = ''y'', sn_target = ''/etc''\<rparr>],
                d_directories = [\<lparr>dn_name = ''x'', dn_digest = Some (demo_hash CHR ''b'', 1)\<rparr>]\<rparr>
      else Inr \<lparr>d_files = [\<lparr>fn_name = ''f'', fn_digest = Some (demo_hash CHR ''c'', 1), fn_executable = True\<rparr>],
                d_symlinks = [], d_directories = []\<rparr>)"

definition plain_table :: inode_table where
  "plain_table =
     [\<lparr>nd_ino = 1, nd_kind = Dir [(''y'', 2), (''x'', 3)]\<rparr>, \<lparr>nd_ino = 2, nd_kind = Link ''/etc''\<rparr>,
      \<lparr>nd_ino = 3, nd_kind = Dir [(''f'', 4)]\<rparr>,
      \<lparr>nd_ino = 4, nd_kind = File \<lparr>dg_hash = demo_hash CHR ''c'', dg_size = 1\<rparr> 1 True\<rparr>]"

lemma plain_build:
  "inode_build (\<lambda>_ _. []) demo_blobs plain_decode 2 \<lparr>dg_hash = demo_hash CHR ''a'', dg_size = 1\<rparr> = Inr plain_table"
  by code_simp

theorem mounted_tree_is_uploaded_tree_witness:
  "Option.bind (inode_resolve plain_table [Normal ''x'', Normal ''f'']) (entry_at plain_table) =
     follow demo_blobs plain_decode \<lparr>dg_hash = demo_hash CHR ''a'', dg_size = 1\<rparr> [''x'', ''f'']"
  using mounted_tree_is_uploaded_tree [OF plain_build, of "[''x'', ''f'']"] by simp

text \<open>Unlike the materialization, the table refuses two entries of one name.\<close>

lemma duplicate_names_refused:
  "inode_build (\<lambda>_ _. []) demo_blobs demo_decode 2 \<lparr>dg_hash = demo_hash CHR ''a'', dg_size = 1\<rparr> = Inl (Some (CasOther []))"
  by code_simp

end
