(* ===== verification/Ctl_Policy.thy ===== *)
theory Ctl_Policy
  imports Ctl_Scheduling
begin

text \<open>
  Scheduling policies supplied as WebAssembly modules: the engine (\<open>brokkr-policy/src/engine.rs\<close>,
  \<open>error.rs\<close>, \<open>lib.rs\<close>), the snapshot a guest reads (\<open>brokkr-control/src/policy_abi.rs\<close>), the strategy
  around the engine (\<open>wasm_strategy.rs\<close>) and the reload loop (\<open>policy_reload.rs\<close>).  The WebAssembly
  runtime and the guest in it are a parameter: a record of what each call on them answers, which may
  depend on the moment of the call, since a deadline interrupts it.
\<close>

section \<open>Failures and decisions\<close>

datatype policy_failure =
    Trap string
  | FuelExhausted
  | Deadline
  | BadIndex int nat
  | Instantiate string
  | Memory string
  | NotLoaded
  | Quarantined nat

definition reason :: "policy_failure \<Rightarrow> string" where
  "reason f = (case f of
     Trap _ \<Rightarrow> ''trap'' | FuelExhausted \<Rightarrow> ''fuel_exhausted'' | Deadline \<Rightarrow> ''deadline'' | BadIndex _ _ \<Rightarrow> ''bad_index''
   | Instantiate _ \<Rightarrow> ''instantiate'' | Memory _ \<Rightarrow> ''memory'' | NotLoaded \<Rightarrow> ''not_loaded'' | Quarantined _ \<Rightarrow> ''quarantined'')"

fun counts_toward_quarantine :: "policy_failure \<Rightarrow> bool" where
  "counts_toward_quarantine NotLoaded = False"
| "counts_toward_quarantine (Quarantined _) = False"
| "counts_toward_quarantine _ = True"

datatype policy_error =
    Compile string
  | MissingExport string string
  | AbiMismatch nat nat
  | SmokeTest policy_failure
  | EngineError string
  | FeatureDisabled

datatype decision = Chose nat | Declined

record policy_limits =
  pl_fuel :: nat
  pl_deadline_ms :: nat
  pl_quarantine_threshold :: nat

definition DEFAULT_FUEL :: nat where "DEFAULT_FUEL = 1000000"

definition DEFAULT_DEADLINE_MS :: nat where "DEFAULT_DEADLINE_MS = 5"

definition QUARANTINE_THRESHOLD :: nat where "QUARANTINE_THRESHOLD = 16"

definition policy_limits_default :: policy_limits where
  "policy_limits_default =
     \<lparr>pl_fuel = DEFAULT_FUEL, pl_deadline_ms = DEFAULT_DEADLINE_MS, pl_quarantine_threshold = QUARANTINE_THRESHOLD\<rparr>"

definition DECLINE :: int where "DECLINE = - 1"

definition POLICY_ABI_VERSION :: nat where "POLICY_ABI_VERSION = 1"

definition interpret_raw :: "int \<Rightarrow> nat \<Rightarrow> policy_failure + decision" where
  "interpret_raw raw candidates =
     (if raw = DECLINE then Inr Declined
      else if raw < 0 then Inl (BadIndex raw candidates)
      else if nat raw < candidates then Inr (Chose (nat raw))
      else Inl (BadIndex raw candidates))"

section \<open>The runtime\<close>

text \<open>The store of one call: its fuel, its deadline in epoch ticks, its memory ceiling and its instances.\<close>

record store =
  st_fuel :: nat
  st_epoch_deadline :: nat
  st_memory_size :: nat
  st_instances :: nat

definition MAX_GUEST_MEMORY :: nat where "MAX_GUEST_MEMORY = 16 * 1024 * 1024"

text \<open>How a call into the guest can fail: a typed trap, or another error with the fuel left, when it can
  be read, and its text.\<close>

datatype guest_error = OutOfFuel | Interrupt | OtherTrap string | Untyped "nat option" string

text \<open>The answers of the runtime: engine and ticker thread, compilation, import resolution, the fuel
  setting, then per store and moment the instantiation, the exports and the calls.  \<open>rt_choose\<close> also
  depends on the snapshot, which is in the memory of the guest by then.\<close>

record 'm runtime =
  rt_engine_new :: "string + unit"
  rt_spawn_ticker :: "string + unit"
  rt_compile :: "bytes \<Rightarrow> string + 'm"
  rt_instantiate_pre :: "'m \<Rightarrow> string + unit"
  rt_set_fuel :: "nat \<Rightarrow> string + unit"
  rt_instantiate :: "nat \<Rightarrow> store \<Rightarrow> 'm \<Rightarrow> string + unit"
  rt_memory :: "'m \<Rightarrow> string \<Rightarrow> bool"
  rt_export :: "'m \<Rightarrow> string \<Rightarrow> string + unit"
  rt_abi_version :: "nat \<Rightarrow> store \<Rightarrow> 'm \<Rightarrow> string + int"
  rt_alloc :: "nat \<Rightarrow> store \<Rightarrow> 'm \<Rightarrow> int \<Rightarrow> guest_error + int"
  rt_write :: "nat \<Rightarrow> store \<Rightarrow> 'm \<Rightarrow> nat \<Rightarrow> bytes \<Rightarrow> string + unit"
  rt_choose :: "nat \<Rightarrow> store \<Rightarrow> 'm \<Rightarrow> bytes \<Rightarrow> int \<Rightarrow> int \<Rightarrow> guest_error + int"

definition contains_text :: "string \<Rightarrow> string \<Rightarrow> bool" where
  "contains_text pat s \<longleftrightarrow> list_ex (\<lambda>i. take (length pat) (drop i s) = pat) [0..<length s + 1]"

definition classify :: "guest_error \<Rightarrow> policy_failure" where
  "classify err = (case err of
     OutOfFuel \<Rightarrow> FuelExhausted
   | Interrupt \<Rightarrow> Deadline
   | OtherTrap t \<Rightarrow> Trap t
   | Untyped fuel msg \<Rightarrow>
       if fuel = Some 0 then FuelExhausted
       else if contains_text ''epoch deadline'' msg \<or> contains_text ''interrupt'' msg then Deadline
       else if contains_text ''fuel'' msg then FuelExhausted
       else Trap msg)"

text \<open>The \<open>map_err(f)?\<close> of the code.\<close>

definition or_fail :: "('e \<Rightarrow> 'f) \<Rightarrow> 'e + 'a \<Rightarrow> ('a \<Rightarrow> 'f + 'b) \<Rightarrow> 'f + 'b" where
  "or_fail f r k = (case r of Inl e \<Rightarrow> Inl (f e) | Inr x \<Rightarrow> k x)"

definition EXPORT_ALLOC :: string where "EXPORT_ALLOC = ''brokkr_alloc''"

definition EXPORT_CHOOSE :: string where "EXPORT_CHOOSE = ''brokkr_choose''"

definition EXPORT_ABI_VERSION :: string where "EXPORT_ABI_VERSION = ''brokkr_abi_version''"

definition EXPORT_MEMORY :: string where "EXPORT_MEMORY = ''memory''"

definition new_store :: "'m runtime \<Rightarrow> policy_limits \<Rightarrow> policy_failure + store" where
  "new_store rt limits =
     or_fail (\<lambda>e. Instantiate (''setting fuel: '' @ e)) (rt_set_fuel rt (pl_fuel limits)) (\<lambda>_.
     Inr \<lparr>st_fuel = pl_fuel limits, st_epoch_deadline = max (pl_deadline_ms limits) 1,
          st_memory_size = MAX_GUEST_MEMORY, st_instances = 1\<rparr>)"

definition guest_call :: "'m runtime \<Rightarrow> policy_limits \<Rightarrow> nat \<Rightarrow> 'm \<Rightarrow> bytes \<Rightarrow> nat \<Rightarrow> policy_failure + decision" where
  "guest_call rt limits now m snapshot candidates =
     or_fail id (new_store rt limits) (\<lambda>st.
     or_fail Instantiate (rt_instantiate rt now st m) (\<lambda>_.
     let len = int (length snapshot)
     in if len > 2 ^ 31 - 1 then Inl (Memory ''snapshot exceeds i32::MAX bytes'')
     else
     or_fail (\<lambda>e. Memory (EXPORT_ALLOC @ '': '' @ e)) (rt_export rt m EXPORT_ALLOC) (\<lambda>_.
     or_fail classify (rt_alloc rt now st m len) (\<lambda>ptr.
     if \<not> rt_memory rt m EXPORT_MEMORY then Inl (Memory (''no `'' @ EXPORT_MEMORY @ ''` export''))
     else if ptr < 0 then Inl (Memory (EXPORT_ALLOC @ '' returned '' @ show_int ptr))
     else
     or_fail (\<lambda>e. Memory (''writing the snapshot: '' @ e)) (rt_write rt now st m (nat ptr) snapshot) (\<lambda>_.
     or_fail (\<lambda>e. Memory (EXPORT_CHOOSE @ '': '' @ e)) (rt_export rt m EXPORT_CHOOSE) (\<lambda>_.
     or_fail classify (rt_choose rt now st m snapshot ptr len) (\<lambda>raw.
     interpret_raw raw candidates)))))))"

section \<open>The snapshot\<close>

record policy_candidate =
  pc_worker_id :: string
  pc_inflight :: nat
  pc_labels :: "(string \<times> string) list"
  pc_input_root_hits :: nat
  pc_action_hits :: nat

record policy_job_facts =
  pj_tenant :: string
  pj_action_digest :: string
  pj_input_root_digest :: string
  pj_platform :: "(string \<times> string) list"

record decision_snapshot =
  ds_abi_version :: nat
  ds_job :: "policy_job_facts option"
  ds_candidates :: "policy_candidate list"

definition build_snapshot :: "worker_id list \<Rightarrow> decision_context \<Rightarrow> worker_registry option \<Rightarrow> decision_snapshot" where
  "build_snapshot candidates ctx registry =
     \<lparr>ds_abi_version = POLICY_ABI_VERSION,
      ds_job = Some
        \<lparr>pj_tenant = jf_tenant (dc_job ctx),
         pj_action_digest = dg_hash (jf_action_digest (dc_job ctx)),
         pj_input_root_digest = (case jf_input_root_digest (dc_job ctx) of Some d \<Rightarrow> dg_hash d | None \<Rightarrow> []),
         pj_platform = jf_platform (dc_job ctx)\<rparr>,
      ds_candidates = map (\<lambda>w.
        \<lparr>pc_worker_id = w,
         pc_inflight = min (inflight (dc_loads ctx) w) (2 ^ 32 - 1),
         pc_labels = (case registry of None \<Rightarrow> []
                      | Some r \<Rightarrow> (case tbl_get (rg_workers r) w of
                                    Some rec \<Rightarrow> wc_labels (wr_capabilities rec) | None \<Rightarrow> [])),
         pc_input_root_hits = (case jf_input_root_digest (dc_job ctx) of
                                 Some root \<Rightarrow> input_root_hits (dc_locality ctx) w root | None \<Rightarrow> 0),
         pc_action_hits = action_hits (dc_locality ctx) w (jf_action_digest (dc_job ctx))\<rparr>) candidates\<rparr>"

definition smoke_candidate :: "string \<Rightarrow> policy_candidate" where
  "smoke_candidate w =
     \<lparr>pc_worker_id = w, pc_inflight = 0, pc_labels = [], pc_input_root_hits = 0, pc_action_hits = 0\<rparr>"

definition smoke_snapshot :: decision_snapshot where
  "smoke_snapshot =
     \<lparr>ds_abi_version = POLICY_ABI_VERSION,
      ds_job = Some \<lparr>pj_tenant = [], pj_action_digest = replicate 64 (CHR ''0''),
                     pj_input_root_digest = replicate 64 (CHR ''1''), pj_platform = []\<rparr>,
      ds_candidates = [smoke_candidate ''brokkr-smoke-a'', smoke_candidate ''brokkr-smoke-b'']\<rparr>"

section \<open>The engine\<close>

record 'm policy_engine =
  pe_limits :: policy_limits
  pe_module :: "'m option"
  pe_failures :: nat

definition engine_new :: "'m runtime \<Rightarrow> policy_limits \<Rightarrow> policy_error + 'm policy_engine" where
  "engine_new rt limits =
     or_fail EngineError (rt_engine_new rt) (\<lambda>_.
     or_fail (\<lambda>e. EngineError (''spawning the epoch ticker: '' @ e)) (rt_spawn_ticker rt) (\<lambda>_.
     Inr \<lparr>pe_limits = limits, pe_module = None, pe_failures = 0\<rparr>))"

definition is_quarantined :: "'m policy_engine \<Rightarrow> bool" where
  "is_quarantined e \<longleftrightarrow> pe_failures e \<ge> pl_quarantine_threshold (pe_limits e)"

text \<open>The text of a failure to set the fuel, the only one \<open>new_store\<close> has.\<close>

definition store_failure_text :: "policy_failure \<Rightarrow> string" where
  "store_failure_text f =
     (case f of Instantiate d \<Rightarrow> ''instantiating the policy for this decision: '' @ d | _ \<Rightarrow> [])"

definition check_exports_and_abi :: "'m runtime \<Rightarrow> policy_limits \<Rightarrow> nat \<Rightarrow> 'm \<Rightarrow> policy_error + unit" where
  "check_exports_and_abi rt limits now m =
     or_fail (\<lambda>f. EngineError (store_failure_text f)) (new_store rt limits) (\<lambda>st.
     or_fail (\<lambda>e. Compile (''instantiating for validation: '' @ e)) (rt_instantiate rt now st m) (\<lambda>_.
     if \<not> rt_memory rt m EXPORT_MEMORY
     then Inl (MissingExport EXPORT_MEMORY ''the guest must export its linear memory'')
     else
     or_fail (\<lambda>e. MissingExport EXPORT_ALLOC (''expected (i32) -> i32: '' @ e)) (rt_export rt m EXPORT_ALLOC) (\<lambda>_.
     or_fail (\<lambda>e. MissingExport EXPORT_CHOOSE (''expected (i32, i32) -> i32: '' @ e)) (rt_export rt m EXPORT_CHOOSE) (\<lambda>_.
     or_fail (\<lambda>e. MissingExport EXPORT_ABI_VERSION (''expected () -> i32: '' @ e)) (rt_export rt m EXPORT_ABI_VERSION) (\<lambda>_.
     or_fail (\<lambda>e. Compile (''calling '' @ EXPORT_ABI_VERSION @ '': '' @ e)) (rt_abi_version rt now st m) (\<lambda>v.
     let found = (if v < 0 then 2 ^ 32 - 1 else nat v)
     in if found \<noteq> POLICY_ABI_VERSION then Inl (AbiMismatch found POLICY_ABI_VERSION) else Inr ()))))))"

definition smoke_test ::
  "'m runtime \<Rightarrow> (decision_snapshot \<Rightarrow> bytes) \<Rightarrow> policy_limits \<Rightarrow> nat \<Rightarrow> 'm \<Rightarrow> policy_error + unit" where
  "smoke_test rt encode limits now m =
     (case guest_call rt limits now m (encode smoke_snapshot) 2 of Inr _ \<Rightarrow> Inr () | Inl f \<Rightarrow> Inl (SmokeTest f))"

text \<open>Compile, resolve imports, validate, run a synthetic decision; only then replace the live module.
  The encoder of a snapshot is generated code and a parameter.\<close>

definition engine_load ::
  "'m runtime \<Rightarrow> (decision_snapshot \<Rightarrow> bytes) \<Rightarrow> nat \<Rightarrow> bytes \<Rightarrow> 'm policy_engine
     \<Rightarrow> (policy_error + unit) \<times> 'm policy_engine" where
  "engine_load rt encode now wasm e =
     (case
        or_fail Compile (rt_compile rt wasm) (\<lambda>m.
        or_fail (\<lambda>d. Compile (''resolving imports: '' @ d)) (rt_instantiate_pre rt m) (\<lambda>_.
        or_fail id (check_exports_and_abi rt (pe_limits e) now m) (\<lambda>_.
        or_fail id (smoke_test rt encode (pe_limits e) now m) (\<lambda>_. Inr m))))
      of
        Inl err \<Rightarrow> (Inl err, e)
      | Inr m \<Rightarrow> (Inr (), e\<lparr>pe_module := Some m, pe_failures := 0\<rparr>))"

definition decide ::
  "'m runtime \<Rightarrow> nat \<Rightarrow> bytes \<Rightarrow> nat \<Rightarrow> 'm policy_engine \<Rightarrow> (policy_failure + decision) \<times> 'm policy_engine" where
  "decide rt now snapshot candidates e =
     (case pe_module e of
        None \<Rightarrow> (Inl NotLoaded, e)
      | Some m \<Rightarrow>
          if is_quarantined e then (Inl (Quarantined (pe_failures e)), e)
          else
            let result = guest_call rt (pe_limits e) now m snapshot candidates
            in (result,
                case result of
                  Inr _ \<Rightarrow> e\<lparr>pe_failures := 0\<rparr>
                | Inl f \<Rightarrow> if counts_toward_quarantine f then e\<lparr>pe_failures := (pe_failures e + 1) mod 2 ^ 32\<rparr> else e))"

section \<open>The strategy\<close>

record failure_counts =
  fc_trap :: nat
  fc_fuel_exhausted :: nat
  fc_deadline :: nat
  fc_bad_index :: nat
  fc_instantiate :: nat
  fc_memory :: nat
  fc_not_loaded :: nat
  fc_quarantined :: nat

definition counts_record :: "policy_failure \<Rightarrow> failure_counts \<Rightarrow> failure_counts" where
  "counts_record f c = (case f of
     Trap _ \<Rightarrow> c\<lparr>fc_trap := wrap_add (fc_trap c) 1\<rparr>
   | FuelExhausted \<Rightarrow> c\<lparr>fc_fuel_exhausted := wrap_add (fc_fuel_exhausted c) 1\<rparr>
   | Deadline \<Rightarrow> c\<lparr>fc_deadline := wrap_add (fc_deadline c) 1\<rparr>
   | BadIndex _ _ \<Rightarrow> c\<lparr>fc_bad_index := wrap_add (fc_bad_index c) 1\<rparr>
   | Instantiate _ \<Rightarrow> c\<lparr>fc_instantiate := wrap_add (fc_instantiate c) 1\<rparr>
   | Memory _ \<Rightarrow> c\<lparr>fc_memory := wrap_add (fc_memory c) 1\<rparr>
   | NotLoaded \<Rightarrow> c\<lparr>fc_not_loaded := wrap_add (fc_not_loaded c) 1\<rparr>
   | Quarantined _ \<Rightarrow> c\<lparr>fc_quarantined := wrap_add (fc_quarantined c) 1\<rparr>)"

definition counts_total :: "failure_counts \<Rightarrow> nat" where
  "counts_total c =
     foldl wrap_add 0 [fc_trap c, fc_fuel_exhausted c, fc_deadline c, fc_bad_index c, fc_instantiate c, fc_memory c,
                       fc_not_loaded c, fc_quarantined c]"

definition for_reason :: "string \<Rightarrow> failure_counts \<Rightarrow> nat" where
  "for_reason r c =
     (if r = ''trap'' then fc_trap c else if r = ''fuel_exhausted'' then fc_fuel_exhausted c
      else if r = ''deadline'' then fc_deadline c else if r = ''bad_index'' then fc_bad_index c
      else if r = ''instantiate'' then fc_instantiate c else if r = ''memory'' then fc_memory c
      else if r = ''not_loaded'' then fc_not_loaded c else if r = ''quarantined'' then fc_quarantined c
      else 0)"

record 'm wasm_strategy =
  ws_engine :: "'m policy_engine"
  ws_counts :: failure_counts
  ws_decided :: nat
  ws_declined :: nat

definition wasm_new :: "'m policy_engine \<Rightarrow> 'm wasm_strategy" where
  "wasm_new e =
     \<lparr>ws_engine = e,
      ws_counts = \<lparr>fc_trap = 0, fc_fuel_exhausted = 0, fc_deadline = 0, fc_bad_index = 0, fc_instantiate = 0,
                   fc_memory = 0, fc_not_loaded = 0, fc_quarantined = 0\<rparr>,
      ws_decided = 0, ws_declined = 0\<rparr>"

definition wasm_load ::
  "'m runtime \<Rightarrow> (decision_snapshot \<Rightarrow> bytes) \<Rightarrow> nat \<Rightarrow> bytes \<Rightarrow> 'm wasm_strategy
     \<Rightarrow> (policy_error + unit) \<times> 'm wasm_strategy" where
  "wasm_load rt encode now wasm s =
     (let (r, e) = engine_load rt encode now wasm (ws_engine s) in (r, s\<lparr>ws_engine := e\<rparr>))"

definition built_in_choice :: "worker_id list \<Rightarrow> decision_context \<Rightarrow> worker_id option" where
  "built_in_choice candidates ctx = simple_fifo_choose candidates (inflight (dc_loads ctx))"

definition fall_back ::
  "policy_failure \<Rightarrow> worker_id list \<Rightarrow> decision_context \<Rightarrow> 'm wasm_strategy \<Rightarrow> worker_id option \<times> 'm wasm_strategy" where
  "fall_back f candidates ctx s = (built_in_choice candidates ctx, s\<lparr>ws_counts := counts_record f (ws_counts s)\<rparr>)"

text \<open>The registry is absent when there is none or its lock is taken.\<close>

definition wasm_choose_with ::
  "'m runtime \<Rightarrow> (decision_snapshot \<Rightarrow> bytes) \<Rightarrow> nat \<Rightarrow> worker_registry option \<Rightarrow> worker_id list \<Rightarrow> decision_context
     \<Rightarrow> 'm wasm_strategy \<Rightarrow> worker_id option \<times> 'm wasm_strategy" where
  "wasm_choose_with rt encode now registry candidates ctx s =
     (if candidates = [] then (None, s)
      else
        let (r, e) = decide rt now (encode (build_snapshot candidates ctx registry)) (length candidates) (ws_engine s);
            s = s\<lparr>ws_engine := e\<rparr>
        in case r of
             Inr (Chose idx) \<Rightarrow>
               let s = s\<lparr>ws_decided := wrap_add (ws_decided s) 1\<rparr>
               in if idx < length candidates then (Some (candidates ! idx), s)
                  else fall_back (BadIndex (sint (word_of_nat idx :: 32 word)) (length candidates)) candidates ctx s
           | Inr Declined \<Rightarrow> (built_in_choice candidates ctx, s\<lparr>ws_declined := wrap_add (ws_declined s) 1\<rparr>)
           | Inl f \<Rightarrow> fall_back f candidates ctx s)"

section \<open>Reloading\<close>

definition should_reload :: "digest option \<Rightarrow> digest option \<Rightarrow> bool" where
  "should_reload last_seen current = (case (last_seen, current) of
     (None, Some _) \<Rightarrow> True | (Some prev, Some now) \<Rightarrow> prev \<noteq> now | (_, None) \<Rightarrow> False)"

record reloader =
  rl_last :: "digest option"
  rl_missing_logged :: bool

text \<open>The seed reads the file again when the loop is spawned.  A zero interval ends the task at once;
  otherwise each tick acts on the content of the file, \<open>None\<close> when it cannot be read.\<close>

definition reloader_seed :: "(bytes \<Rightarrow> bytes) \<Rightarrow> bytes option \<Rightarrow> reloader" where
  "reloader_seed sha256 content = \<lparr>rl_last = map_option (digest_of sha256) content, rl_missing_logged = False\<rparr>"

definition reload_tick ::
  "(bytes \<Rightarrow> bytes) \<Rightarrow> 'm runtime \<Rightarrow> (decision_snapshot \<Rightarrow> bytes) \<Rightarrow> nat \<Rightarrow> bytes option
     \<Rightarrow> reloader \<times> 'm wasm_strategy \<Rightarrow> reloader \<times> 'm wasm_strategy" where
  "reload_tick sha256 rt encode now content st =
     (case content of
        None \<Rightarrow> ((fst st)\<lparr>rl_missing_logged := True\<rparr>, snd st)
      | Some bs \<Rightarrow>
          let r = (fst st)\<lparr>rl_missing_logged := False\<rparr>; d = digest_of sha256 bs
          in if \<not> should_reload (rl_last r) (Some d) then (r, snd st)
             else (r\<lparr>rl_last := Some d\<rparr>, snd (wasm_load rt encode now bs (snd st))))"

definition policy_reloader ::
  "(bytes \<Rightarrow> bytes) \<Rightarrow> 'm runtime \<Rightarrow> (decision_snapshot \<Rightarrow> bytes) \<Rightarrow> nat \<Rightarrow> bytes option
     \<Rightarrow> (nat \<times> bytes option) list \<Rightarrow> 'm wasm_strategy \<Rightarrow> reloader \<times> 'm wasm_strategy" where
  "policy_reloader sha256 rt encode interval content ticks s =
     (let seed = reloader_seed sha256 content
      in if interval = 0 then (seed, s)
         else fold (\<lambda>(now, file_now). reload_tick sha256 rt encode now file_now) ticks (seed, s))"

text \<open>\<open>build_policy_strategy\<close>: no file named means the built-in strategy; every failure is an error of
  the start.\<close>

datatype policy_start_error = ReadPolicy | StartEngine policy_error | LoadPolicy policy_error

definition build_policy_strategy ::
  "'m runtime \<Rightarrow> (decision_snapshot \<Rightarrow> bytes) \<Rightarrow> nat \<Rightarrow> policy_limits \<Rightarrow> bytes option option
     \<Rightarrow> policy_start_error + 'm wasm_strategy option" where
  "build_policy_strategy rt encode now limits policy_wasm =
     (case policy_wasm of
        None \<Rightarrow> Inr None
      | Some None \<Rightarrow> Inl ReadPolicy
      | Some (Some wasm) \<Rightarrow>
          or_fail StartEngine (engine_new rt limits) (\<lambda>e.
          case wasm_load rt encode now wasm (wasm_new e) of
            (Inl err, _) \<Rightarrow> Inl (LoadPolicy err)
          | (Inr _, s) \<Rightarrow> Inr (Some s)))"

section \<open>Histories\<close>

text \<open>A placement carries the moment of the call, the registry as its lock lets it be seen, the candidates
  and the context.  A history interleaves placements with ticks of the reload loop.\<close>

type_synonym placement = "nat \<times> worker_registry option \<times> worker_id list \<times> decision_context"

definition candidates_of :: "placement \<Rightarrow> worker_id list" where
  "candidates_of p = fst (snd (snd p))"

definition place ::
  "'m runtime \<Rightarrow> (decision_snapshot \<Rightarrow> bytes) \<Rightarrow> placement \<Rightarrow> 'm wasm_strategy \<Rightarrow> worker_id option \<times> 'm wasm_strategy" where
  "place rt encode p s = (case p of (now, registry, ws, ctx) \<Rightarrow> wasm_choose_with rt encode now registry ws ctx s)"

fun place_all ::
  "'m runtime \<Rightarrow> (decision_snapshot \<Rightarrow> bytes) \<Rightarrow> placement list \<Rightarrow> 'm wasm_strategy \<Rightarrow> worker_id option list \<times> 'm wasm_strategy" where
  "place_all rt encode [] s = ([], s)"
| "place_all rt encode (p # ps) s =
     (let (a, s) = place rt encode p s; (as, s) = place_all rt encode ps s in (a # as, s))"

definition built_in_place :: "placement \<Rightarrow> worker_id option" where
  "built_in_place p = (case p of (now, registry, ws, ctx) \<Rightarrow> built_in_choice ws ctx)"

datatype policy_op = Place placement | ReloadTick nat "bytes option"

fun policy_step ::
  "(bytes \<Rightarrow> bytes) \<Rightarrow> 'm runtime \<Rightarrow> (decision_snapshot \<Rightarrow> bytes) \<Rightarrow> policy_op
     \<Rightarrow> reloader \<times> 'm wasm_strategy \<Rightarrow> reloader \<times> 'm wasm_strategy" where
  "policy_step sha256 rt encode (Place p) (r, s) = (r, snd (place rt encode p s))"
| "policy_step sha256 rt encode (ReloadTick now content) st = reload_tick sha256 rt encode now content st"

section \<open>Lemmas\<close>

lemma or_fail_InrE:
  assumes "or_fail f r k = Inr y"
  obtains x where "r = Inr x" "k x = Inr y"
  using assms by (auto simp: or_fail_def split: sum.splits)

lemma interpret_raw_Chose: "interpret_raw raw n = Inr (Chose i) \<Longrightarrow> i < n"
  by (auto simp: interpret_raw_def split: if_splits)

lemma guest_call_Chose: "guest_call rt limits now m snapshot n = Inr (Chose i) \<Longrightarrow> i < n"
  by (auto simp: guest_call_def Let_def elim!: or_fail_InrE dest!: interpret_raw_Chose split: if_splits)

lemma classify_counts: "counts_toward_quarantine (classify err)"
  by (auto simp: classify_def split: guest_error.splits)

lemma guest_call_counts: "guest_call rt limits now m snapshot n = Inl f \<Longrightarrow> counts_toward_quarantine f"
  by (auto simp: guest_call_def new_store_def or_fail_def Let_def interpret_raw_def classify_counts
      split: sum.splits if_splits)

lemma decide_Chose: "fst (decide rt now snapshot n e) = Inr (Chose i) \<Longrightarrow> i < n"
  by (auto simp: decide_def Let_def dest: guest_call_Chose split: option.splits if_splits)

lemma built_in_choice_None: "built_in_choice ws ctx = None \<longleftrightarrow> ws = []"
  using fifo.none_iff [of ws ctx] by (simp add: built_in_choice_def choose_with_def)

lemma built_in_choice_mem: "built_in_choice ws ctx = Some w \<Longrightarrow> w \<in> set ws"
  using fifo.chosen_mem [of ws ctx w] by (simp add: built_in_choice_def choose_with_def)

lemma built_in_choice_Nil [simp]: "built_in_choice [] ctx = None"
  by (simp add: built_in_choice_None)

lemma built_in_choice_Some: "ws \<noteq> [] \<Longrightarrow> \<exists>w. built_in_choice ws ctx = Some w"
  using built_in_choice_None [of ws ctx] by auto

lemma choose_answer:
  "fst (wasm_choose_with rt encode now registry ws ctx s) = None \<longleftrightarrow> ws = []"
  "fst (wasm_choose_with rt encode now registry ws ctx s) = Some w \<Longrightarrow> w \<in> set ws"
  by (auto simp: wasm_choose_with_def fall_back_def Let_def built_in_choice_Some
      split: prod.splits sum.splits decision.splits if_splits dest: built_in_choice_mem)

text \<open>Whatever the guest and the state of the engine, the strategy keeps the contract.\<close>

interpretation wasm: strategy "\<lambda>ws ctx. fst (wasm_choose_with rt encode now registry ws ctx s)"
  for rt encode now registry s
  by unfold_locales (fact choose_answer)+

lemma choose_engine:
  "ws_engine (snd (wasm_choose_with rt encode now registry ws ctx s)) =
     (if ws = [] then ws_engine s
      else snd (decide rt now (encode (build_snapshot ws ctx registry)) (length ws) (ws_engine s)))"
  by (auto simp: wasm_choose_with_def fall_back_def Let_def split: prod.splits sum.splits decision.splits)

lemma decide_keeps:
  "pe_limits (snd (decide rt now snapshot n e)) = pe_limits e"
  "pe_module (snd (decide rt now snapshot n e)) = pe_module e"
  by (auto simp: decide_def Let_def split: option.splits sum.splits)

lemma decide_quarantined: "is_quarantined e \<Longrightarrow> snd (decide rt now snapshot n e) = e \<and> (\<exists>f. fst (decide rt now snapshot n e) = Inl f)"
  by (auto simp: decide_def split: option.splits)

lemma place_quarantined:
  assumes "is_quarantined (ws_engine s)"
  shows "fst (place rt encode p s) = built_in_place p \<and> ws_engine (snd (place rt encode p s)) = ws_engine s"
proof (cases p)
  case (fields now registry ws ctx)
  obtain f where "decide rt now (encode (build_snapshot ws ctx registry)) (length ws) (ws_engine s) = (Inl f, ws_engine s)"
    using decide_quarantined [OF assms, of rt now "encode (build_snapshot ws ctx registry)" "length ws"]
    by (metis prod.collapse)
  then show ?thesis
    by (simp add: fields place_def built_in_place_def wasm_choose_with_def fall_back_def)
qed

lemma place_all_quarantined:
  assumes "is_quarantined (ws_engine s)"
  shows "fst (place_all rt encode ps s) = map built_in_place ps \<and> ws_engine (snd (place_all rt encode ps s)) = ws_engine s"
  using assms
proof (induction ps arbitrary: s)
  case (Cons p ps)
  have "is_quarantined (ws_engine (snd (place rt encode p s)))"
    using place_quarantined [OF Cons.prems, of rt encode p] Cons.prems by simp
  from Cons.IH [OF this] place_quarantined [OF Cons.prems, of rt encode p] show ?case
    by (simp add: case_prod_beta Let_def)
qed simp

lemma place_answer:
  "fst (place rt encode p s) = None \<longleftrightarrow> candidates_of p = []"
  "fst (place rt encode p s) = Some w \<Longrightarrow> w \<in> set (candidates_of p)"
  by (cases p; auto simp: place_def candidates_of_def choose_answer(1) dest: choose_answer(2))+

lemma place_all_answers:
  "list_all2 (\<lambda>p a. (a = None \<longleftrightarrow> candidates_of p = []) \<and> set_option a \<subseteq> set (candidates_of p))
     ps (fst (place_all rt encode ps s))"
proof (induction ps arbitrary: s)
  case (Cons p ps)
  have "set_option (fst (place rt encode p s)) \<subseteq> set (candidates_of p)"
    by (auto dest: place_answer(2))
  with Cons.IH [of "snd (place rt encode p s)"] show ?case
    by (simp add: case_prod_beta Let_def place_answer(1))
qed simp

lemma choose_failing:
  assumes "pe_module (ws_engine s) = Some m" "\<not> is_quarantined (ws_engine s)" "ws \<noteq> []"
    and "\<exists>f. guest_call rt (pe_limits (ws_engine s)) now m (encode (build_snapshot ws ctx registry)) (length ws) = Inl f"
    and "pl_quarantine_threshold (pe_limits (ws_engine s)) < 2 ^ 32"
  shows "ws_engine (snd (wasm_choose_with rt encode now registry ws ctx s)) =
    (ws_engine s)\<lparr>pe_failures := pe_failures (ws_engine s) + 1\<rparr>"
proof -
  obtain f where f: "guest_call rt (pe_limits (ws_engine s)) now m (encode (build_snapshot ws ctx registry)) (length ws) = Inl f"
    using assms(4) by blast
  have "(pe_failures (ws_engine s) + 1) mod 2 ^ 32 = pe_failures (ws_engine s) + 1"
    using assms(2,5) by (intro mod_less) (simp add: is_quarantined_def)
  then show ?thesis
    using assms(1,2,3) f guest_call_counts [OF f] by (simp add: choose_engine decide_def Let_def)
qed

text \<open>What validation establishes of a module, at the moment it was loaded.\<close>

definition validated ::
  "'m runtime \<Rightarrow> (decision_snapshot \<Rightarrow> bytes) \<Rightarrow> policy_limits \<Rightarrow> 'm \<Rightarrow> bool" where
  "validated rt encode limits m \<longleftrightarrow>
     (\<exists>wasm. rt_compile rt wasm = Inr m) \<and> rt_instantiate_pre rt m = Inr () \<and> rt_memory rt m EXPORT_MEMORY \<and>
     (\<forall>name \<in> {EXPORT_ALLOC, EXPORT_CHOOSE, EXPORT_ABI_VERSION}. rt_export rt m name = Inr ()) \<and>
     (\<exists>now st. rt_abi_version rt now st m = Inr (int POLICY_ABI_VERSION)) \<and>
     (\<exists>now d. guest_call rt limits now m (encode smoke_snapshot) 2 = Inr d)"

definition live_validated :: "'m runtime \<Rightarrow> (decision_snapshot \<Rightarrow> bytes) \<Rightarrow> 'm policy_engine \<Rightarrow> bool" where
  "live_validated rt encode e \<longleftrightarrow> (\<forall>m. pe_module e = Some m \<longrightarrow> validated rt encode (pe_limits e) m)"

lemma nat_eq_Suc_0: "nat i = Suc 0 \<longleftrightarrow> i = 1"
  by arith

lemma check_exports_InrD:
  assumes "check_exports_and_abi rt limits now m = Inr ()"
  shows "rt_memory rt m EXPORT_MEMORY \<and>
    (\<forall>name \<in> {EXPORT_ALLOC, EXPORT_CHOOSE, EXPORT_ABI_VERSION}. rt_export rt m name = Inr ()) \<and>
    (\<exists>st. rt_abi_version rt now st m = Inr (int POLICY_ABI_VERSION))"
  using assms
  by (auto simp: check_exports_and_abi_def Let_def POLICY_ABI_VERSION_def nat_eq_Suc_0 elim!: or_fail_InrE split: if_splits) blast?

lemma engine_load_cases:
  obtains (failed) err where "engine_load rt encode now wasm e = (Inl err, e)"
  | (loaded) m where "engine_load rt encode now wasm e = (Inr (), e\<lparr>pe_module := Some m, pe_failures := 0\<rparr>)"
      "validated rt encode (pe_limits e) m"
proof (cases "or_fail Compile (rt_compile rt wasm) (\<lambda>m.
        or_fail (\<lambda>d. Compile (''resolving imports: '' @ d)) (rt_instantiate_pre rt m) (\<lambda>_.
        or_fail id (check_exports_and_abi rt (pe_limits e) now m) (\<lambda>_.
        or_fail id (smoke_test rt encode (pe_limits e) now m) (\<lambda>_. Inr m))))")
  case (Inl err)
  then show thesis by (intro failed) (simp add: engine_load_def)
next
  case (Inr m)
  then have "rt_compile rt wasm = Inr m" "rt_instantiate_pre rt m = Inr ()"
    "check_exports_and_abi rt (pe_limits e) now m = Inr ()" "smoke_test rt encode (pe_limits e) now m = Inr ()"
    by (auto elim!: or_fail_InrE)
  moreover from this(4) have "\<exists>d. guest_call rt (pe_limits e) now m (encode smoke_snapshot) 2 = Inr d"
    by (auto simp: smoke_test_def split: sum.splits)
  ultimately have "validated rt encode (pe_limits e) m"
    using check_exports_InrD [of rt "pe_limits e" now m] unfolding validated_def by blast
  then show thesis using Inr by (intro loaded) (simp_all add: engine_load_def)
qed

lemma engine_load_keeps:
  "pe_limits (snd (engine_load rt encode now wasm e)) = pe_limits e"
  "live_validated rt encode e \<Longrightarrow> live_validated rt encode (snd (engine_load rt encode now wasm e))"
  by (cases rule: engine_load_cases [of rt encode now wasm e]; simp add: live_validated_def)+

lemma place_keeps_validated:
  "live_validated rt encode (ws_engine s) \<Longrightarrow> live_validated rt encode (ws_engine (snd (place rt encode p s)))"
  by (cases p) (simp add: place_def choose_engine live_validated_def decide_keeps)

lemma policy_step_validated:
  "live_validated rt encode (ws_engine (snd st)) \<Longrightarrow>
   live_validated rt encode (ws_engine (snd (policy_step sha256 rt encode op st)))"
  by (cases st; cases op)
    (auto simp: place_keeps_validated reload_tick_def wasm_load_def Let_def case_prod_beta engine_load_keeps(2)
      split: option.splits)

lemma policy_run_validated:
  "live_validated rt encode (ws_engine (snd st)) \<Longrightarrow>
   live_validated rt encode (ws_engine (snd (fold (policy_step sha256 rt encode) ops st)))"
  by (induction ops arbitrary: st) (simp_all add: policy_step_validated)

lemma policy_step_loaded:
  "pe_module (ws_engine (snd st)) \<noteq> None \<Longrightarrow> pe_module (ws_engine (snd (policy_step sha256 rt encode op st))) \<noteq> None"
proof (cases op)
  case (ReloadTick now content)
  moreover assume "pe_module (ws_engine (snd st)) \<noteq> None"
  moreover have "pe_module e \<noteq> None \<Longrightarrow> pe_module (snd (engine_load rt encode now wasm e)) \<noteq> None" for wasm and e :: "'a policy_engine"
    by (cases rule: engine_load_cases [of rt encode now wasm e]) simp_all
  ultimately show ?thesis
    by (auto simp: reload_tick_def wasm_load_def Let_def case_prod_beta split: option.splits)
qed (cases st; auto simp: place_def choose_engine decide_keeps split: prod.splits)

lemma policy_run_loaded:
  "pe_module (ws_engine (snd st)) \<noteq> None \<Longrightarrow>
   pe_module (ws_engine (snd (fold (policy_step sha256 rt encode) ops st))) \<noteq> None"
  by (induction ops arbitrary: st) (simp_all add: policy_step_loaded del: not_None_eq)

lemma build_policy_strategy_live:
  assumes "build_policy_strategy rt encode now limits policy_wasm = Inr (Some s)"
  shows "pe_module (ws_engine s) \<noteq> None" "live_validated rt encode (ws_engine s)"
proof -
  obtain wasm e s' where e: "engine_new rt limits = Inr e" and s: "wasm_load rt encode now wasm (wasm_new e) = (Inr (), s)"
    using assms by (auto simp: build_policy_strategy_def elim!: or_fail_InrE split: option.splits sum.splits prod.splits)
  show "pe_module (ws_engine s) \<noteq> None" "live_validated rt encode (ws_engine s)"
    using s by (cases rule: engine_load_cases [of rt encode now wasm e];
        auto simp: wasm_load_def wasm_new_def live_validated_def)+
qed

text \<open>A file edited after the start read it and before the loop took its seed is never loaded: the seed
  is already the digest of the edit.\<close>

lemma edit_before_seed_is_lost:
  assumes "\<forall>(now, content) \<in> set ticks. content = None \<or> content = Some edited"
  shows "snd (policy_reloader sha256 rt encode interval (Some edited) ticks s) = s"
proof -
  have "rl_last r = Some (digest_of sha256 edited) \<Longrightarrow>
    snd (fold (\<lambda>(now, file_now). reload_tick sha256 rt encode now file_now) ticks (r, s)) = s" for r
    using assms
    by (induction ticks arbitrary: r) (auto simp: reload_tick_def should_reload_def Let_def)
  then show ?thesis by (simp add: policy_reloader_def reloader_seed_def Let_def)
qed

lemma place_failing:
  assumes "pe_module (ws_engine s) = Some m" "pl_quarantine_threshold (pe_limits (ws_engine s)) < 2 ^ 32"
    and "\<And>now snapshot n. \<exists>f. guest_call rt (pe_limits (ws_engine s)) now m snapshot n = Inl f"
  shows "fst (place rt encode p s) = built_in_place p"
    "ws_engine (snd (place rt encode p s)) =
       (if candidates_of p = [] \<or> is_quarantined (ws_engine s) then ws_engine s
        else (ws_engine s)\<lparr>pe_failures := pe_failures (ws_engine s) + 1\<rparr>)"
proof -
  obtain now registry ws ctx where p: "p = (now, registry, ws, ctx)" by (cases p)
  obtain f where "guest_call rt (pe_limits (ws_engine s)) now m (encode (build_snapshot ws ctx registry)) (length ws) = Inl f"
    using assms(3) by blast
  then show "fst (place rt encode p s) = built_in_place p"
    using assms(1) by (simp add: p place_def built_in_place_def wasm_choose_with_def decide_def fall_back_def Let_def)
  show "ws_engine (snd (place rt encode p s)) =
       (if candidates_of p = [] \<or> is_quarantined (ws_engine s) then ws_engine s
        else (ws_engine s)\<lparr>pe_failures := pe_failures (ws_engine s) + 1\<rparr>)"
  proof (cases "ws = [] \<or> is_quarantined (ws_engine s)")
    case True
    then show ?thesis using place_quarantined [of s rt encode p] by (auto simp: p place_def candidates_of_def choose_engine)
  next
    case False
    then have "ws_engine (snd (wasm_choose_with rt encode now registry ws ctx s)) =
        (ws_engine s)\<lparr>pe_failures := pe_failures (ws_engine s) + 1\<rparr>"
      by (intro choose_failing [OF assms(1) _ _ assms(3) assms(2)]) simp_all
    with False show ?thesis by (simp add: p place_def candidates_of_def)
  qed
qed

lemma place_all_failing:
  assumes "pe_module (ws_engine s) = Some m" "pl_quarantine_threshold (pe_limits (ws_engine s)) < 2 ^ 32"
    and "\<And>now snapshot n. \<exists>f. guest_call rt (pe_limits (ws_engine s)) now m snapshot n = Inl f"
  shows "fst (place_all rt encode ps s) = map built_in_place ps \<and>
    min (pl_quarantine_threshold (pe_limits (ws_engine s)))
        (pe_failures (ws_engine s) + length (filter (\<lambda>p. candidates_of p \<noteq> []) ps))
      \<le> pe_failures (ws_engine (snd (place_all rt encode ps s))) \<and>
    pe_limits (ws_engine (snd (place_all rt encode ps s))) = pe_limits (ws_engine s)"
  using assms
proof (induction ps arbitrary: s)
  case (Cons p ps)
  let ?s = "snd (place rt encode p s)"
  note step = place_failing [OF Cons.prems, of encode p]
  have keeps: "pe_module (ws_engine ?s) = Some m" "pe_limits (ws_engine ?s) = pe_limits (ws_engine s)"
    using step(2) Cons.prems(1) by simp_all
  have "fst (place_all rt encode ps ?s) = map built_in_place ps \<and>
    min (pl_quarantine_threshold (pe_limits (ws_engine s)))
        (pe_failures (ws_engine ?s) + length (filter (\<lambda>p. candidates_of p \<noteq> []) ps))
      \<le> pe_failures (ws_engine (snd (place_all rt encode ps ?s))) \<and>
    pe_limits (ws_engine (snd (place_all rt encode ps ?s))) = pe_limits (ws_engine s)"
    using Cons.IH [of ?s] keeps Cons.prems(2,3) by simp
  moreover have "min (pl_quarantine_threshold (pe_limits (ws_engine s)))
        (pe_failures (ws_engine s) + length (filter (\<lambda>p. candidates_of p \<noteq> []) (p # ps)))
    \<le> min (pl_quarantine_threshold (pe_limits (ws_engine s)))
        (pe_failures (ws_engine ?s) + length (filter (\<lambda>p. candidates_of p \<noteq> []) ps))"
    unfolding step(2) by (simp add: is_quarantined_def)
  ultimately show ?case using step(1) by (auto simp: case_prod_beta Let_def simp del: filter.simps intro: order_trans)
qed simp

section \<open>Properties\<close>

text \<open>A guest that traps on every call, one that answers its first candidate, and a placement between
  two workers.\<close>

definition demo_runtime :: "(guest_error + int) \<Rightarrow> unit runtime" where
  "demo_runtime answer =
     \<lparr>rt_engine_new = Inr (), rt_spawn_ticker = Inr (), rt_compile = (\<lambda>_. Inr ()), rt_instantiate_pre = (\<lambda>_. Inr ()),
      rt_set_fuel = (\<lambda>_. Inr ()), rt_instantiate = (\<lambda>_ _ _. Inr ()), rt_memory = (\<lambda>_ _. True),
      rt_export = (\<lambda>_ _. Inr ()), rt_abi_version = (\<lambda>_ _ _. Inr 1), rt_alloc = (\<lambda>_ _ _ _. Inr 1024),
      rt_write = (\<lambda>_ _ _ _ _. Inr ()), rt_choose = (\<lambda>_ _ _ _ _ _. answer)\<rparr>"

definition demo_context :: decision_context where
  "demo_context =
     \<lparr>dc_loads = [], dc_locality = \<lparr>lx_window = 4, lx_max_workers = 4, lx_workers = [], lx_tick = 0\<rparr>,
      dc_job = \<lparr>jf_tenant = ''t'', jf_action_digest = \<lparr>dg_hash = ''a'', dg_size = 1\<rparr>, jf_input_root_digest = None, jf_platform = []\<rparr>\<rparr>"

definition demo_placement :: placement where
  "demo_placement = (0, None, [''w2'', ''w1''], demo_context)"

definition demo_strategy :: "nat \<Rightarrow> unit wasm_strategy" where
  "demo_strategy failures =
     wasm_new \<lparr>pe_limits = \<lparr>pl_fuel = 10, pl_deadline_ms = 0, pl_quarantine_threshold = 2\<rparr>, pe_module = Some (), pe_failures = failures\<rparr>"

lemma demo_guest_call:
  "guest_call (demo_runtime answer) limits now m snapshot n =
     (if int (length snapshot) > 2 ^ 31 - 1 then Inl (Memory ''snapshot exceeds i32::MAX bytes'')
      else or_fail classify answer (\<lambda>raw. interpret_raw raw n))"
  by (simp add: guest_call_def new_store_def or_fail_def demo_runtime_def)

text \<open>
  C31. A broken policy does not break placement.  For every guest, every state of the engine and every
  sequence of placements, each placement is answered, with no worker exactly when there are no candidates
  and otherwise with one of its candidates.  While the engine is quarantined the guest has no influence:
  every answer is the built-in strategy's and the engine does not change.
\<close>

theorem broken_policy_is_contained:
  "list_all2 (\<lambda>p a. (a = None \<longleftrightarrow> candidates_of p = []) \<and> set_option a \<subseteq> set (candidates_of p))
     ps (fst (place_all rt encode ps s)) \<and>
   (is_quarantined (ws_engine s) \<longrightarrow>
      fst (place_all rt encode ps s) = map built_in_place ps \<and> ws_engine (snd (place_all rt encode ps s)) = ws_engine s)"
  using place_all_answers place_all_quarantined by blast

theorem broken_policy_is_contained_witness:
  "is_quarantined (ws_engine (demo_strategy 2)) \<and>
   fst (place_all (demo_runtime (Inr 0)) (\<lambda>_. []) [demo_placement] (demo_strategy 2)) = [built_in_place demo_placement]"
  using broken_policy_is_contained [of "[demo_placement]" "demo_runtime (Inr 0)" "\<lambda>_. []" "demo_strategy 2"]
  by (simp add: demo_strategy_def wasm_new_def is_quarantined_def)



text \<open>
  C33. Validate before swap.  After a start with a policy file, whatever placements and ticks of the
  reload loop follow, a module is live, and it compiled, resolved its imports, exported its memory and the
  three functions, reported the ABI version of the host and answered the synthetic decision.
\<close>

theorem live_policy_is_validated:
  assumes "build_policy_strategy rt encode now limits policy_wasm = Inr (Some s)"
  shows "\<exists>m. pe_module (ws_engine (snd (fold (policy_step sha256 rt encode) ops (r, s)))) = Some m \<and>
    validated rt encode (pe_limits (ws_engine (snd (fold (policy_step sha256 rt encode) ops (r, s))))) m"
  using policy_run_loaded [of "(r, s)" sha256 rt encode ops] policy_run_validated [of rt encode "(r, s)" sha256 ops]
    build_policy_strategy_live [OF assms] by (auto simp: live_validated_def)

theorem live_policy_is_validated_witness:
  "\<exists>s. build_policy_strategy (demo_runtime (Inr 1)) (\<lambda>_. []) 0 policy_limits_default (Some (Some [])) = Inr (Some s) \<and>
     (\<exists>m. pe_module (ws_engine (snd (fold (policy_step id (demo_runtime (Inr 1)) (\<lambda>_. []))
        [ReloadTick 1 (Some [7]), Place demo_placement] (reloader_seed id None, s)))) = Some m)"
proof -
  obtain s where "build_policy_strategy (demo_runtime (Inr 1)) (\<lambda>_. []) 0 policy_limits_default (Some (Some [])) = Inr (Some s)"
    by (simp add: build_policy_strategy_def engine_new_def wasm_load_def engine_load_def check_exports_and_abi_def smoke_test_def
        guest_call_def interpret_raw_def DECLINE_def new_store_def or_fail_def POLICY_ABI_VERSION_def demo_runtime_def)
  then show ?thesis using live_policy_is_validated by blast
qed

end
