(* ===== verification/Ctl_Cluster.thy ===== *)
theory Ctl_Cluster
  imports Ctl_Policy Raft_Driver Cas_Store "HOL-Library.Product_Lexorder"
begin

text \<open>
  The cluster view of \<open>brokkr-control/src\<close>: the projections of \<open>views/\<close>, the merge of a node's state with
  its peers' (\<open>cluster/aggregate.rs\<close>), the events between two snapshots (\<open>cluster/events.rs\<close>), the probing
  of peers (\<open>cluster/probe.rs\<close>) and the poll loop (\<open>cluster/mod.rs\<close>).  The local state source, the peer
  directory and the answers of the peers are arguments.
\<close>

section \<open>Views\<close>

datatype raft_role = Leader | Follower | Unknown | Standalone

definition raft_role_str :: "raft_role \<Rightarrow> string" where
  "raft_role_str r = (case r of
     Leader \<Rightarrow> ''leader'' | Follower \<Rightarrow> ''follower'' | Unknown \<Rightarrow> ''unknown'' | Standalone \<Rightarrow> ''standalone'')"

record node_view =
  nv_node_id :: string
  nv_advertise_addr :: string
  nv_role :: raft_role
  nv_term :: nat
  nv_commit_index :: nat
  nv_last_applied :: nat
  nv_reachable :: bool
  nv_last_seen_secs :: nat

definition node_view_from_status :: "string \<Rightarrow> string \<Rightarrow> driver_status \<Rightarrow> node_view" where
  "node_view_from_status node_id advertise_addr st =
     \<lparr>nv_node_id = node_id, nv_advertise_addr = advertise_addr,
      nv_role = (if st_is_leader st then Leader else if st_leader st \<noteq> None then Follower else Unknown),
      nv_term = st_term st, nv_commit_index = st_commit_index st, nv_last_applied = st_last_applied st,
      nv_reachable = True, nv_last_seen_secs = 0\<rparr>"

definition standalone_node_view :: "string \<Rightarrow> string \<Rightarrow> node_view" where
  "standalone_node_view node_id advertise_addr =
     \<lparr>nv_node_id = node_id, nv_advertise_addr = advertise_addr, nv_role = Standalone, nv_term = 0,
      nv_commit_index = 0, nv_last_applied = 0, nv_reachable = True, nv_last_seen_secs = 0\<rparr>"

definition unreachable_node_view :: "string \<Rightarrow> string \<Rightarrow> node_view" where
  "unreachable_node_view node_id advertise_addr =
     \<lparr>nv_node_id = node_id, nv_advertise_addr = advertise_addr, nv_role = Unknown, nv_term = 0,
      nv_commit_index = 0, nv_last_applied = 0, nv_reachable = False, nv_last_seen_secs = 0\<rparr>"

record worker_view =
  wv_worker_id :: string
  wv_hostname :: string
  wv_labels :: "(string, string) table"
  wv_inflight :: nat
  wv_last_seen_secs :: nat
  wv_stale :: bool
  wv_owning_node :: string

text \<open>Instants are nanoseconds.\<close>

definition worker_views :: "worker_registry \<Rightarrow> instant \<Rightarrow> string \<Rightarrow> (worker_id \<Rightarrow> nat) \<Rightarrow> worker_view list" where
  "worker_views registry now owning_node load =
     sort_key wv_worker_id (map (\<lambda>(i, rec).
       \<lparr>wv_worker_id = i, wv_hostname = wc_hostname (wr_capabilities rec), wv_labels = wc_labels (wr_capabilities rec),
        wv_inflight = min (load i) (2 ^ 32 - 1), wv_last_seen_secs = sat_sub now (wr_last_seen rec) div 10 ^ 9,
        wv_stale = is_stale now (rg_policy registry) rec, wv_owning_node = owning_node\<rparr>) (rg_workers registry))"

definition REASONS :: "string list" where
  "REASONS = [''trap'', ''fuel_exhausted'', ''deadline'', ''bad_index'', ''instantiate'', ''memory'', ''not_loaded'', ''quarantined'']"

record policy_view =
  pv_loaded :: bool
  pv_quarantined :: bool
  pv_decided :: nat
  pv_declined :: nat
  pv_failures_by_reason :: "(string, nat) table"
  pv_owning_node :: string

definition policy_view_of :: "'m wasm_strategy option \<Rightarrow> string \<Rightarrow> policy_view" where
  "policy_view_of configured owning_node =
     (case configured of
        None \<Rightarrow> \<lparr>pv_loaded = False, pv_quarantined = False, pv_decided = 0, pv_declined = 0, pv_failures_by_reason = [],
                 pv_owning_node = owning_node\<rparr>
      | Some s \<Rightarrow> \<lparr>pv_loaded = True, pv_quarantined = for_reason ''quarantined'' (ws_counts s) > 0,
                   pv_decided = ws_decided s, pv_declined = ws_declined s,
                   pv_failures_by_reason = fold (\<lambda>r. tbl_insert r (for_reason r (ws_counts s))) REASONS [],
                   pv_owning_node = owning_node\<rparr>)"

record cas_stats_view =
  cv_objects :: nat
  cv_bytes :: nat
  cv_owning_node :: string

definition cas_stats_view_of :: "cas_stats \<Rightarrow> string \<Rightarrow> cas_stats_view" where
  "cas_stats_view_of stats owning_node =
     \<lparr>cv_objects = cs_objects stats, cv_bytes = cs_bytes stats, cv_owning_node = owning_node\<rparr>"

section \<open>Merging\<close>

record node_state =
  ns_node :: node_view
  ns_workers :: "worker_view list"
  ns_policy :: policy_view
  ns_cas :: cas_stats_view
  ns_jobs :: "job_summary list"

datatype peer_outcome = Answered node_state | Unreachable string string

record cluster_snapshot =
  cs_nodes :: "node_view list"
  cs_workers :: "worker_view list"
  cs_policies :: "policy_view list"
  cs_cas :: "cas_stats_view list"
  cs_jobs :: "job_summary list"
  cs_leader_id :: "string option"
  cs_degraded :: bool
  cs_as_of :: "nat option"

definition snapshot_default :: cluster_snapshot where
  "snapshot_default =
     \<lparr>cs_nodes = [], cs_workers = [], cs_policies = [], cs_cas = [], cs_jobs = [], cs_leader_id = None,
      cs_degraded = False, cs_as_of = None\<rparr>"

definition elect :: "node_view list \<Rightarrow> string option" where
  "elect nodes =
     (let highest_term = fold max (map nv_term (filter nv_reachable nodes)) 0;
          claimants = filter (\<lambda>n. nv_reachable n \<and> nv_role n = Leader \<and> nv_term n = highest_term) nodes
      in case claimants of [only] \<Rightarrow> Some (nv_node_id only) | _ \<Rightarrow> None)"

text \<open>The state the loop over the outcomes accumulates: the five collections and whether a peer was silent.\<close>

type_synonym gathered =
  "node_view list \<times> worker_view list \<times> policy_view list \<times> cas_stats_view list \<times> job_summary list \<times> bool"

fun gather :: "peer_outcome list \<Rightarrow> gathered \<Rightarrow> gathered" where
  "gather [] g = g"
| "gather (Answered st # ps) (ns, ws, pls, cs, js, silent) =
     gather ps (ns @ [ns_node st], ws @ ns_workers st, pls @ [ns_policy st], cs @ [ns_cas st], js @ ns_jobs st, silent)"
| "gather (Unreachable i addr # ps) (ns, ws, pls, cs, js, silent) =
     gather ps (ns @ [unreachable_node_view i addr], ws, pls, cs, js, True)"

text \<open>Newest first, then by id.\<close>

definition job_key :: "job_summary \<Rightarrow> int \<times> string" where
  "job_key j = (- int (js_completed_at_unix_ms j), js_job_id j)"

definition merge :: "node_state \<Rightarrow> peer_outcome list \<Rightarrow> nat \<Rightarrow> cluster_snapshot" where
  "merge local peers as_of =
     (case gather peers ([ns_node local], ns_workers local, [ns_policy local], [ns_cas local], ns_jobs local, False) of
        (ns, ws, pls, cs, js, silent) \<Rightarrow>
          let nodes = sort_key nv_node_id ns;
              leader = elect nodes;
              standalone = list_all (\<lambda>n. nv_role n = Standalone) (filter nv_reachable nodes)
          in \<lparr>cs_nodes = nodes, cs_workers = sort_key wv_worker_id ws, cs_policies = sort_key pv_owning_node pls,
              cs_cas = sort_key cv_owning_node cs, cs_jobs = sort_key job_key js, cs_leader_id = leader,
              cs_degraded = (silent \<or> \<not> standalone \<and> leader = None), cs_as_of = Some as_of\<rparr>)"

section \<open>Events\<close>

datatype cluster_event =
    Snapshot cluster_snapshot
  | NodeUnreachable string
  | NodeRecovered string
  | WorkerAdded string string
  | WorkerRemoved string string
  | WorkerStale string string
  | PolicyQuarantined string
  | PolicyRecovered string
  | LeaderChanged "string option" "string option"

definition event_kind :: "cluster_event \<Rightarrow> string" where
  "event_kind e = (case e of
     Snapshot _ \<Rightarrow> ''snapshot'' | NodeUnreachable _ \<Rightarrow> ''node_unreachable'' | NodeRecovered _ \<Rightarrow> ''node_recovered''
   | WorkerAdded _ _ \<Rightarrow> ''worker_added'' | WorkerRemoved _ _ \<Rightarrow> ''worker_removed'' | WorkerStale _ _ \<Rightarrow> ''worker_stale''
   | PolicyQuarantined _ \<Rightarrow> ''policy_quarantined'' | PolicyRecovered _ \<Rightarrow> ''policy_recovered''
   | LeaderChanged _ _ \<Rightarrow> ''leader_changed'')"

definition node_events :: "cluster_snapshot \<Rightarrow> node_view \<Rightarrow> cluster_event list" where
  "node_events prev n =
     (case find (\<lambda>p. nv_node_id p = nv_node_id n) (cs_nodes prev) of
        None \<Rightarrow> []
      | Some p \<Rightarrow> if nv_reachable p \<and> \<not> nv_reachable n then [NodeUnreachable (nv_node_id n)]
                  else if \<not> nv_reachable p \<and> nv_reachable n then [NodeRecovered (nv_node_id n)] else [])"

definition worker_events :: "cluster_snapshot \<Rightarrow> worker_view \<Rightarrow> cluster_event list" where
  "worker_events prev w =
     (case find (\<lambda>p. wv_worker_id p = wv_worker_id w) (cs_workers prev) of
        None \<Rightarrow> [WorkerAdded (wv_worker_id w) (wv_owning_node w)]
      | Some p \<Rightarrow> if \<not> wv_stale p \<and> wv_stale w then [WorkerStale (wv_worker_id w) (wv_owning_node w)] else [])"

definition removal_events :: "cluster_snapshot \<Rightarrow> worker_view \<Rightarrow> cluster_event list" where
  "removal_events nxt w =
     (if list_ex (\<lambda>n. wv_worker_id n = wv_worker_id w) (cs_workers nxt) then []
      else [WorkerRemoved (wv_worker_id w) (wv_owning_node w)])"

definition policy_events :: "cluster_snapshot \<Rightarrow> policy_view \<Rightarrow> cluster_event list" where
  "policy_events prev p =
     (case find (\<lambda>b. pv_owning_node b = pv_owning_node p) (cs_policies prev) of
        None \<Rightarrow> []
      | Some before \<Rightarrow> if \<not> pv_quarantined before \<and> pv_quarantined p then [PolicyQuarantined (pv_owning_node p)]
                       else if pv_quarantined before \<and> \<not> pv_quarantined p then [PolicyRecovered (pv_owning_node p)]
                       else [])"

definition diff :: "cluster_snapshot \<Rightarrow> cluster_snapshot \<Rightarrow> cluster_event list" where
  "diff prev nxt =
     concat (map (node_events prev) (cs_nodes nxt)) @ concat (map (worker_events prev) (cs_workers nxt)) @
     concat (map (removal_events nxt) (cs_workers prev)) @ concat (map (policy_events prev) (cs_policies nxt)) @
     (if cs_leader_id prev \<noteq> cs_leader_id nxt then [LeaderChanged (cs_leader_id prev) (cs_leader_id nxt)] else [])"

section \<open>Polling\<close>

record peer_addr =
  pa_node_id :: string
  pa_advertise_addr :: string

datatype probe_error = ProbeUnreachable string | ProbeMalformed string

text \<open>What a probe comes to within the deadline: \<open>None\<close> is the timeout.\<close>

definition poll_peers :: "(string \<Rightarrow> (probe_error + node_state) option) \<Rightarrow> peer_addr list \<Rightarrow> peer_outcome list" where
  "poll_peers probe peers =
     map (\<lambda>peer. case probe (pa_advertise_addr peer) of
            Some (Inr st) \<Rightarrow> Answered st
          | Some (Inl e) \<Rightarrow> Unreachable (pa_node_id peer) (pa_advertise_addr peer)
          | None \<Rightarrow> Unreachable (pa_node_id peer) (pa_advertise_addr peer)) peers"

record poller_config =
  pc_interval :: nat
  pc_cas_interval :: nat

definition poll_period :: "poller_config \<Rightarrow> nat" where
  "poll_period cfg = (if pc_interval cfg = 0 then 2 * 10 ^ 9 else pc_interval cfg)"

record poller =
  pl_since_cas :: nat
  pl_shared :: cluster_snapshot

definition poller_start :: "poller_config \<Rightarrow> cluster_snapshot \<Rightarrow> poller" where
  "poller_start cfg shared = \<lparr>pl_since_cas = pc_cas_interval cfg, pl_shared = shared\<rparr>"

text \<open>One round: the events sent, whether the store was measured, and the state after it.\<close>

definition poll_round ::
  "poller_config \<Rightarrow> (bool \<Rightarrow> node_state) \<Rightarrow> peer_addr list \<Rightarrow> (string \<Rightarrow> (probe_error + node_state) option) \<Rightarrow> nat
     \<Rightarrow> poller \<Rightarrow> cluster_event list \<times> bool \<times> poller" where
  "poll_round cfg local_state peers probe now p =
     (let refresh_cas = pl_since_cas p \<ge> pc_cas_interval cfg;
          since_cas = (if refresh_cas then 0 else min (pl_since_cas p + poll_period cfg) duration_max);
          snapshot = merge (local_state refresh_cas) (poll_peers probe peers) now
      in (diff (pl_shared p) snapshot, refresh_cas, \<lparr>pl_since_cas = since_cas, pl_shared = snapshot\<rparr>))"

section \<open>Merging does not depend on the order of the peers\<close>

lemma gather_append:
  "gather ps (ns, ws, pls, cs, js, silent) =
     (ns @ map (\<lambda>p. case p of Answered st \<Rightarrow> ns_node st | Unreachable i a \<Rightarrow> unreachable_node_view i a) ps,
      ws @ concat (map (\<lambda>p. case p of Answered st \<Rightarrow> ns_workers st | Unreachable _ _ \<Rightarrow> []) ps),
      pls @ concat (map (\<lambda>p. case p of Answered st \<Rightarrow> [ns_policy st] | Unreachable _ _ \<Rightarrow> []) ps),
      cs @ concat (map (\<lambda>p. case p of Answered st \<Rightarrow> [ns_cas st] | Unreachable _ _ \<Rightarrow> []) ps),
      js @ concat (map (\<lambda>p. case p of Answered st \<Rightarrow> ns_jobs st | Unreachable _ _ \<Rightarrow> []) ps),
      silent \<or> list_ex (\<lambda>p. case p of Answered _ \<Rightarrow> False | Unreachable _ _ \<Rightarrow> True) ps)"
proof (induction ps arbitrary: ns ws pls cs js silent)
  case (Cons p ps)
  then show ?case by (cases p) simp_all
qed simp

lemma mset_concat_map:
  assumes "mset ps = mset qs"
  shows "mset (concat (map f ps)) = mset (concat (map f qs))"
proof -
  have "mset (concat (map f xs)) = \<Sum>\<^sub># (image_mset (\<lambda>x. mset (f x)) (mset xs))" for xs
    by (induction xs) simp_all
  then show ?thesis by (simp add: assms)
qed

text \<open>Sorting two arrangements of the same elements by a key that tells them apart gives one list.\<close>

lemma sort_key_same:
  assumes "mset xs = mset ys" "distinct (map f xs)"
  shows "sort_key f xs = sort_key f ys"
proof -
  have "inj_on f (set xs)" using assms(2) by (simp add: distinct_map)
  then show ?thesis using assms(1) by (intro sort_key_inj_key_eq) simp_all
qed

text \<open>The keys a merged snapshot is sorted by tell its rows apart.\<close>

definition distinct_rows :: "cluster_snapshot \<Rightarrow> bool" where
  "distinct_rows s \<longleftrightarrow>
     distinct (map nv_node_id (cs_nodes s)) \<and> distinct (map wv_worker_id (cs_workers s)) \<and>
     distinct (map pv_owning_node (cs_policies s)) \<and> distinct (map cv_owning_node (cs_cas s)) \<and>
     distinct (map job_key (cs_jobs s))"

lemma distinct_sort_key: "distinct (map f (sort_key g xs)) \<longleftrightarrow> distinct (map f xs)"
proof -
  have "mset (map f (sort_key g xs)) = mset (map f xs)" by simp
  then show ?thesis by (rule mset_eq_imp_distinct_iff)
qed

text \<open>The rows of each collection before sorting, and whether some peer was silent.\<close>

definition node_rows :: "node_state \<Rightarrow> peer_outcome list \<Rightarrow> node_view list" where
  "node_rows st ps = ns_node st # map (\<lambda>p. case p of Answered st \<Rightarrow> ns_node st | Unreachable i a \<Rightarrow> unreachable_node_view i a) ps"

definition rows :: "(node_state \<Rightarrow> 'r list) \<Rightarrow> node_state \<Rightarrow> peer_outcome list \<Rightarrow> 'r list" where
  "rows f st ps = f st @ concat (map (\<lambda>p. case p of Answered st \<Rightarrow> f st | Unreachable _ _ \<Rightarrow> []) ps)"

definition any_silent :: "peer_outcome list \<Rightarrow> bool" where
  "any_silent ps \<longleftrightarrow> list_ex (\<lambda>p. case p of Answered _ \<Rightarrow> False | Unreachable _ _ \<Rightarrow> True) ps"

lemma merge_rows:
  "merge st ps t =
     (let nodes = sort_key nv_node_id (node_rows st ps)
      in \<lparr>cs_nodes = nodes, cs_workers = sort_key wv_worker_id (rows ns_workers st ps),
          cs_policies = sort_key pv_owning_node (rows (\<lambda>s. [ns_policy s]) st ps),
          cs_cas = sort_key cv_owning_node (rows (\<lambda>s. [ns_cas s]) st ps), cs_jobs = sort_key job_key (rows ns_jobs st ps),
          cs_leader_id = elect nodes,
          cs_degraded = (any_silent ps \<or>
            \<not> list_all (\<lambda>n. nv_role n = Standalone) (filter nv_reachable nodes) \<and> elect nodes = None),
          cs_as_of = Some t\<rparr>)"
  by (simp add: merge_def gather_append node_rows_def rows_def any_silent_def Let_def)

lemma rows_permuted:
  assumes "mset ps = mset qs"
  shows "mset (rows f st ps) = mset (rows f st qs)" "mset (node_rows st ps) = mset (node_rows st qs)"
    "any_silent ps = any_silent qs"
  using mset_concat_map [OF assms] mset_eq_setD [OF assms] assms
  by (simp_all add: rows_def node_rows_def any_silent_def list_ex_iff)

text \<open>
  C35. The merged view does not depend on the order in which the peers are listed, when no two rows share a
  key: permuting the peers' outcomes gives the same snapshot.
\<close>

theorem merge_is_order_independent:
  assumes "mset ps = mset qs" "distinct_rows (merge st ps t)"
  shows "merge st ps t = merge st qs t"
proof -
  have d: "distinct (map nv_node_id (node_rows st ps))" "distinct (map wv_worker_id (rows ns_workers st ps))"
    "distinct (map pv_owning_node (rows (\<lambda>s. [ns_policy s]) st ps))"
    "distinct (map cv_owning_node (rows (\<lambda>s. [ns_cas s]) st ps))" "distinct (map job_key (rows ns_jobs st ps))"
    using assms(2) by (simp_all add: distinct_rows_def merge_rows Let_def distinct_sort_key)
  note same = rows_permuted [OF assms(1)]
  show ?thesis
    unfolding merge_rows same(3) sort_key_same [OF same(2) d(1)] sort_key_same [OF same(1) d(2)]
      sort_key_same [OF same(1) d(3)] sort_key_same [OF same(1) d(4)] sort_key_same [OF same(1) d(5)] ..
qed

definition demo_node :: "string \<Rightarrow> raft_role \<Rightarrow> node_state" where
  "demo_node i role =
     \<lparr>ns_node = (standalone_node_view i (i @ '':7878''))\<lparr>nv_role := role, nv_term := 7\<rparr>, ns_workers = [],
      ns_policy = policy_view_of (None :: unit wasm_strategy option) i,
      ns_cas = \<lparr>cv_objects = 0, cv_bytes = 0, cv_owning_node = i\<rparr>, ns_jobs = []\<rparr>"

lemma demo_rows_distinct:
  "distinct_rows (merge (demo_node ''a'' Leader) [Answered (demo_node ''c'' Follower), Unreachable ''b'' ''b:7878''] 0)"
  by (simp add: distinct_rows_def merge_rows Let_def distinct_sort_key node_rows_def rows_def demo_node_def
      standalone_node_view_def unreachable_node_view_def policy_view_of_def)

theorem merge_is_order_independent_witness:
  "merge (demo_node ''a'' Leader) [Answered (demo_node ''c'' Follower), Unreachable ''b'' ''b:7878''] 0
   = merge (demo_node ''a'' Leader) [Unreachable ''b'' ''b:7878'', Answered (demo_node ''c'' Follower)] 0"
  by (rule merge_is_order_independent [OF _ demo_rows_distinct]) simp

section \<open>Leadership\<close>

lemma fold_max_bound:
  fixes xs :: "nat list"
  shows "a \<le> fold max xs a \<and> (\<forall>x \<in> set xs. x \<le> fold max xs a) \<and> fold max xs a \<in> insert a (set xs)"
proof (induction xs arbitrary: a)
  case (Cons x xs)
  show ?case using Cons.IH [of "max x a"] by (auto simp: max_def split: if_splits)
qed simp

text \<open>A leader is reported exactly when one reachable node alone claims leadership at the highest term any
  reachable node has.\<close>

lemma elect_SomeD:
  assumes "elect nodes = Some i"
  shows "\<exists>n \<in> set nodes. nv_node_id n = i \<and> nv_reachable n \<and> nv_role n = Leader \<and>
    (\<forall>m \<in> set nodes. nv_reachable m \<longrightarrow> nv_term m \<le> nv_term n) \<and>
    (\<forall>m \<in> set nodes. nv_reachable m \<and> nv_role m = Leader \<and> nv_term m = nv_term n \<longrightarrow> m = n)"
proof -
  define h where "h = fold max (map nv_term (filter nv_reachable nodes)) 0"
  define P where "P = (\<lambda>n :: node_view. nv_reachable n \<and> nv_role n = Leader \<and> nv_term n = h)"
  obtain n where n: "filter P nodes = [n]" "nv_node_id n = i"
    using assms by (auto simp: elect_def Let_def h_def [symmetric] P_def [symmetric] split: list.splits)
  from arg_cong [OF n(1), of set] have "{x \<in> set nodes. P x} = {n}" by simp
  then have mem: "m \<in> set nodes \<and> P m \<longleftrightarrow> m = n" for m by blast
  have n_mem: "n \<in> set nodes" "P n" using mem [of n] by simp_all
  have below: "nv_term m \<le> h" if "m \<in> set nodes" "nv_reachable m" for m
    using fold_max_bound [of 0 "map nv_term (filter nv_reachable nodes)"] that by (auto simp: h_def)
  show ?thesis
  proof (intro bexI [of _ n] conjI ballI impI)
    fix m assume "m \<in> set nodes" "nv_reachable m \<and> nv_role m = Leader \<and> nv_term m = nv_term n"
    with n_mem(2) mem [of m] show "m = n" by (simp add: P_def)
  next
    fix m assume "m \<in> set nodes" "nv_reachable m"
    from below [OF this] n_mem(2) show "nv_term m \<le> nv_term n" by (simp add: P_def)
  qed (use n_mem n(2) in \<open>simp_all add: P_def\<close>)
qed

section \<open>Events\<close>

text \<open>What a subscriber keeps of the workers and the leader.\<close>

fun apply_event :: "cluster_event \<Rightarrow> string set \<times> string option \<Rightarrow> string set \<times> string option" where
  "apply_event (Snapshot s) _ = (wv_worker_id ` set (cs_workers s), cs_leader_id s)"
| "apply_event (WorkerAdded i _) (ws, l) = (insert i ws, l)"
| "apply_event (WorkerRemoved i _) (ws, l) = (ws - {i}, l)"
| "apply_event (LeaderChanged _ l) (ws, _) = (ws, l)"
| "apply_event _ st = st"

definition known :: "cluster_snapshot \<Rightarrow> string set \<times> string option" where
  "known s = (wv_worker_id ` set (cs_workers s), cs_leader_id s)"

lemma fold_apply_ignored:
  "\<forall>e \<in> set es. (\<exists>i. e = NodeUnreachable i \<or> e = NodeRecovered i \<or> e = PolicyQuarantined i \<or> e = PolicyRecovered i) \<Longrightarrow>
   fold apply_event es st = st"
  by (induction es arbitrary: st) auto

lemma node_events_ignored: "e \<in> set (node_events prev n) \<Longrightarrow> \<exists>i. e = NodeUnreachable i \<or> e = NodeRecovered i"
  by (auto simp: node_events_def split: option.splits if_splits)

lemma policy_events_ignored: "e \<in> set (policy_events prev p) \<Longrightarrow> \<exists>i. e = PolicyQuarantined i \<or> e = PolicyRecovered i"
  by (auto simp: policy_events_def split: option.splits if_splits)

lemma find_in_keys: "find (\<lambda>p. f p = k) xs = Some x \<Longrightarrow> k \<in> f ` set xs"
  by (induction xs) (auto split: if_splits)

lemma fold_worker_events:
  "fold apply_event (concat (map (worker_events prev) ws)) (ids, l) =
     (ids \<union> (wv_worker_id ` set ws - wv_worker_id ` set (cs_workers prev)), l)"
proof (induction ws arbitrary: ids)
  case (Cons w ws)
  show ?case
  proof (cases "find (\<lambda>p. wv_worker_id p = wv_worker_id w) (cs_workers prev)")
    case None
    then have "wv_worker_id w \<notin> wv_worker_id ` set (cs_workers prev)" by (auto simp: find_None_iff)
    moreover have "worker_events prev w = [WorkerAdded (wv_worker_id w) (wv_owning_node w)]"
      using None by (simp add: worker_events_def)
    ultimately show ?thesis by (auto simp: Cons.IH)
  next
    case (Some p)
    then have "wv_worker_id w \<in> wv_worker_id ` set (cs_workers prev)" by (rule find_in_keys)
    moreover have "fold apply_event (worker_events prev w) st = st" for st
      using Some by (simp add: worker_events_def)
    ultimately show ?thesis by (auto simp: Cons.IH)
  qed
qed simp

lemma list_ex_key: "list_ex (\<lambda>n. f n = k) xs \<longleftrightarrow> k \<in> f ` set xs"
  by (auto simp: list_ex_iff)

lemma fold_removal_events:
  "fold apply_event (concat (map (removal_events nxt) ws)) (ids, l) =
     (ids - (wv_worker_id ` set ws - wv_worker_id ` set (cs_workers nxt)), l)"
proof (induction ws arbitrary: ids)
  case (Cons w ws)
  have "fold apply_event (removal_events nxt w) (ids, l) = (ids - ({wv_worker_id w} - wv_worker_id ` set (cs_workers nxt)), l)"
    by (simp add: removal_events_def list_ex_key insert_Diff_if)
  then show ?case by (auto simp: Cons.IH)
qed simp

lemma diff_replays: "fold apply_event (diff prev nxt) (known prev) = known nxt"
proof -
  have "fold apply_event (concat (map (node_events prev) (cs_nodes nxt))) st = st" for st
    by (rule fold_apply_ignored) (auto dest: node_events_ignored)
  moreover have "fold apply_event (concat (map (policy_events prev) (cs_policies nxt))) st = st" for st
    by (rule fold_apply_ignored) (auto dest: policy_events_ignored)
  ultimately show ?thesis
    by (auto simp: diff_def known_def fold_worker_events fold_removal_events)
qed

text \<open>A poller's rounds: the inputs of each round, the events sent and the state after them.\<close>

type_synonym round_input =
  "(bool \<Rightarrow> node_state) \<times> peer_addr list \<times> (string \<Rightarrow> (probe_error + node_state) option) \<times> nat"

fun poll_rounds :: "poller_config \<Rightarrow> round_input list \<Rightarrow> poller \<Rightarrow> cluster_event list \<times> poller" where
  "poll_rounds cfg [] p = ([], p)"
| "poll_rounds cfg ((local_state, peers, probe, now) # rs) p =
     (let (es, _, p) = poll_round cfg local_state peers probe now p; (es', p) = poll_rounds cfg rs p in (es @ es', p))"

text \<open>
  C36. The event stream is complete for the workers and the leader: a subscriber that starts from the
  poller's snapshot and applies every event of any number of rounds knows the workers and the leader of the
  snapshot then shared.
\<close>

theorem events_replay_to_snapshot:
  "fold apply_event (fst (poll_rounds cfg rs p)) (known (pl_shared p)) = known (pl_shared (snd (poll_rounds cfg rs p)))"
proof (induction cfg rs p rule: poll_rounds.induct)
  case (2 cfg local_state peers probe now rs p)
  then show ?case by (simp add: poll_round_def Let_def case_prod_beta diff_replays)
qed simp

lemma find_self:
  assumes "distinct (map f xs)" "x \<in> set xs"
  shows "find (\<lambda>y. f y = f x) xs = Some x"
  using assms by (induction xs) (auto simp: rev_image_eqI)

text \<open>A round that finds the same rows sends nothing.\<close>

lemma diff_self:
  assumes "distinct_rows s"
  shows "diff s s = []"
proof -
  have "node_events s n = []" if "n \<in> set (cs_nodes s)" for n
    using find_self [of nv_node_id "cs_nodes s" n] assms that by (simp add: distinct_rows_def node_events_def)
  moreover have "worker_events s w = []" if "w \<in> set (cs_workers s)" for w
    using find_self [of wv_worker_id "cs_workers s" w] assms that by (simp add: distinct_rows_def worker_events_def)
  moreover have "policy_events s p = []" if "p \<in> set (cs_policies s)" for p
    using find_self [of pv_owning_node "cs_policies s" p] assms that by (simp add: distinct_rows_def policy_events_def)
  ultimately show ?thesis by (auto simp: diff_def removal_events_def list_ex_iff)
qed

section \<open>The quarantine an operator sees\<close>

lemma counts_record_quarantined:
  "fc_quarantined c + 1 < 2 ^ 64 \<Longrightarrow>
   fc_quarantined c \<le> fc_quarantined (counts_record f c) \<and> fc_quarantined (counts_record f c) \<le> fc_quarantined c + 1"
  by (cases f) (simp_all add: counts_record_def wrap_add_def)

lemma policy_step_quarantined_count:
  assumes "fc_quarantined (ws_counts (snd st)) + 1 < 2 ^ 64"
  shows "fc_quarantined (ws_counts (snd st)) \<le> fc_quarantined (ws_counts (snd (policy_step sha256 rt encode op st))) \<and>
    fc_quarantined (ws_counts (snd (policy_step sha256 rt encode op st))) \<le> fc_quarantined (ws_counts (snd st)) + 1"
proof (cases op)
  case (Place p)
  obtain now registry ws ctx where p: "p = (now, registry, ws, ctx)" by (cases p)
  have "ws_counts (snd (wasm_choose_with rt encode now registry ws ctx (snd st))) \<in>
      insert (ws_counts (snd st)) (range (\<lambda>f. counts_record f (ws_counts (snd st))))"
    by (auto simp: wasm_choose_with_def fall_back_def Let_def split: prod.splits sum.splits decision.splits)
  then show ?thesis
    using counts_record_quarantined [OF assms] by (cases st) (auto simp: Place p place_def)
next
  case (ReloadTick now content)
  then show ?thesis by (auto simp: reload_tick_def wasm_load_def Let_def case_prod_beta split: option.splits)
qed

lemma policy_run_quarantined_count:
  "fc_quarantined (ws_counts (snd st)) + length ops < 2 ^ 64 \<Longrightarrow>
   fc_quarantined (ws_counts (snd st)) \<le> fc_quarantined (ws_counts (snd (fold (policy_step sha256 rt encode) ops st)))"
proof (induction ops arbitrary: st)
  case (Cons op ops)
  have "fc_quarantined (ws_counts (snd st)) + 1 < 2 ^ 64" using Cons.prems by simp
  from policy_step_quarantined_count [OF this, of sha256 rt encode op] Cons.prems
    Cons.IH [of "policy_step sha256 rt encode op st"]
  show ?case by simp
qed simp


text \<open>A strategy quarantined once, whose module a reload replaces.\<close>

definition demo_quarantined :: "unit wasm_strategy" where
  "demo_quarantined = snd (place (demo_runtime (Inr 1)) (\<lambda>_. []) demo_placement (demo_strategy 2))"

definition demo_reloaded :: "unit wasm_strategy" where
  "demo_reloaded = snd (fold (policy_step id (demo_runtime (Inr 1)) (\<lambda>_. [])) [ReloadTick 1 (Some [7])] (reloader_seed id None, demo_quarantined))"

lemma demo_quarantined_facts:
  "fc_quarantined (ws_counts demo_quarantined) = 1" "\<not> is_quarantined (ws_engine demo_reloaded)"
proof -
  have q: "demo_quarantined = (demo_strategy 2)\<lparr>ws_counts := (ws_counts (demo_strategy 2))\<lparr>fc_quarantined := 1\<rparr>\<rparr>"
    by (simp add: demo_quarantined_def place_def demo_placement_def wasm_choose_with_def decide_def fall_back_def
        demo_strategy_def wasm_new_def is_quarantined_def counts_record_def wrap_add_def)
  show "fc_quarantined (ws_counts demo_quarantined) = 1" by (simp add: q)
  show "\<not> is_quarantined (ws_engine demo_reloaded)"
    by (simp add: demo_reloaded_def q reload_tick_def reloader_seed_def should_reload_def wasm_load_def engine_load_def
        check_exports_and_abi_def smoke_test_def guest_call_def interpret_raw_def DECLINE_def new_store_def or_fail_def
        POLICY_ABI_VERSION_def demo_runtime_def demo_strategy_def wasm_new_def is_quarantined_def Let_def)
qed


text \<open>A store measured in one round is not measured in the next, whatever the interval asked for: the
  counter is cleared after the round that measured and grows only in the rounds that did not.\<close>

lemma cas_skipped_after_refresh:
  assumes "poll_round cfg l peers probe now p = (es, True, p')" "pc_cas_interval cfg > 0"
  shows "fst (snd (poll_round cfg l' peers' probe' now' p')) = False"
  using assms by (auto simp: poll_round_def Let_def)

end
