(* ===== verification/Sandbox_Seccomp.thy ===== *)
theory Sandbox_Seccomp
  imports Brokkr_Prelude "HOL-Library.Word"
begin

unbundle bit_operations_syntax

text \<open>
  The system-call policy of a sandboxed action (\<open>brokkr-sandbox/src/runner/seccomp.rs\<close>): the allowlist, the
  resolution of names to numbers, the two filters and their installation.  The constants of \<open>libc\<close>, the
  filter compiler \<open>seccompiler\<close> and the kernel are parameters; what the code relies on of them is stated by
  \<open>compiles_faithfully\<close> and \<open>most_restrictive\<close>.
\<close>

section \<open>Names and numbers\<close>

definition DEFAULT_ALLOW :: "string list" where
  "DEFAULT_ALLOW = [
    ''read'', ''write'', ''readv'', ''writev'', ''pread64'', ''pwrite64'', ''open'', ''openat'', ''openat2'',
    ''close'', ''close_range'', ''stat'', ''fstat'', ''lstat'', ''newfstatat'', ''statx'', ''lseek'',
    ''getdents'', ''getdents64'', ''readlink'', ''readlinkat'', ''access'', ''faccessat'', ''faccessat2'',
    ''fadvise64'', ''fdatasync'', ''fsync'', ''ftruncate'', ''truncate'', ''umask'', ''rename'', ''renameat'',
    ''renameat2'', ''unlink'', ''unlinkat'', ''rmdir'', ''mkdir'', ''mkdirat'', ''chmod'', ''fchmod'',
    ''fchmodat'', ''chown'', ''fchown'', ''fchownat'', ''lchown'', ''symlink'', ''symlinkat'', ''link'',
    ''linkat'', ''utimensat'', ''futimesat'', ''statfs'', ''fstatfs'', ''tgkill'', ''tkill'', ''kill'',
    ''rseq'', ''membarrier'', ''set_tid_address'', ''mmap'', ''mmap2'', ''munmap'', ''mremap'', ''mprotect'',
    ''madvise'', ''msync'', ''brk'', ''execve'', ''execveat'', ''wait4'', ''waitid'', ''exit'', ''exit_group'',
    ''rt_sigaction'', ''rt_sigprocmask'', ''rt_sigreturn'', ''rt_sigsuspend'', ''sigaltstack'', ''clone'',
    ''clone3'', ''fork'', ''vfork'', ''pipe'', ''pipe2'', ''dup'', ''dup2'', ''dup3'', ''getpid'', ''getppid'',
    ''gettid'', ''getuid'', ''geteuid'', ''getgid'', ''getegid'', ''getgroups'', ''setgroups'', ''getcwd'',
    ''chdir'', ''fchdir'', ''fcntl'', ''fcntl64'', ''ioctl'', ''prlimit64'', ''getrlimit'', ''setrlimit'',
    ''arch_prctl'', ''prctl'', ''sched_yield'', ''sched_getaffinity'', ''nanosleep'', ''clock_nanosleep'',
    ''clock_gettime'', ''clock_getres'', ''futex'', ''futex_waitv'', ''set_robust_list'', ''get_robust_list'',
    ''epoll_create'', ''epoll_create1'', ''epoll_ctl'', ''epoll_wait'', ''epoll_pwait'', ''poll'', ''ppoll'',
    ''select'', ''pselect6'', ''socket'', ''socketpair'', ''connect'', ''bind'', ''listen'', ''accept'',
    ''accept4'', ''shutdown'', ''getsockname'', ''getpeername'', ''setsockopt'', ''getsockopt'', ''sendto'',
    ''recvfrom'', ''sendmsg'', ''recvmsg'', ''sendmmsg'', ''recvmmsg'', ''uname'', ''sysinfo'', ''getrandom'']"

text \<open>The names \<open>syscall_nr\<close> resolves on every target, and those it resolves on x86-64 only.\<close>

definition common_names :: "string list" where
  "common_names = [
    ''read'', ''write'', ''readv'', ''writev'', ''pread64'', ''pwrite64'', ''openat'', ''openat2'', ''close'',
    ''close_range'', ''fstat'', ''newfstatat'', ''statx'', ''lseek'', ''getdents64'', ''readlinkat'',
    ''faccessat'', ''faccessat2'', ''fdatasync'', ''fsync'', ''ftruncate'', ''truncate'', ''umask'',
    ''renameat'', ''renameat2'', ''unlinkat'', ''mkdirat'', ''fchmod'', ''fchmodat'', ''fchown'', ''fchownat'',
    ''symlinkat'', ''linkat'', ''utimensat'', ''statfs'', ''fstatfs'', ''tgkill'', ''tkill'', ''kill'',
    ''rseq'', ''membarrier'', ''set_tid_address'', ''mmap'', ''munmap'', ''mremap'', ''mprotect'', ''madvise'',
    ''msync'', ''brk'', ''execve'', ''execveat'', ''wait4'', ''waitid'', ''exit'', ''exit_group'',
    ''rt_sigaction'', ''rt_sigprocmask'', ''rt_sigreturn'', ''rt_sigsuspend'', ''sigaltstack'', ''clone'',
    ''clone3'', ''pipe2'', ''dup'', ''dup3'', ''getpid'', ''getppid'', ''gettid'', ''getuid'', ''geteuid'',
    ''getgid'', ''getegid'', ''getgroups'', ''setgroups'', ''getcwd'', ''chdir'', ''fchdir'', ''fcntl'',
    ''ioctl'', ''prlimit64'', ''setrlimit'', ''prctl'', ''sched_yield'', ''sched_getaffinity'', ''nanosleep'',
    ''clock_nanosleep'', ''clock_gettime'', ''clock_getres'', ''futex'', ''set_robust_list'',
    ''get_robust_list'', ''epoll_create1'', ''epoll_ctl'', ''epoll_pwait'', ''ppoll'', ''pselect6'',
    ''socket'', ''socketpair'', ''connect'', ''bind'', ''listen'', ''accept'', ''accept4'', ''shutdown'',
    ''getsockname'', ''getpeername'', ''setsockopt'', ''getsockopt'', ''sendto'', ''recvfrom'', ''sendmsg'',
    ''recvmsg'', ''sendmmsg'', ''recvmmsg'', ''uname'', ''sysinfo'', ''getrandom'']"

definition x86_64_names :: "string list" where
  "x86_64_names = [
    ''open'', ''stat'', ''lstat'', ''fork'', ''vfork'', ''pipe'', ''getrlimit'', ''arch_prctl'',
    ''epoll_create'', ''epoll_wait'', ''poll'', ''select'', ''getdents'', ''readlink'', ''access'', ''rename'',
    ''unlink'', ''rmdir'', ''mkdir'', ''chmod'', ''chown'', ''lchown'', ''symlink'', ''link'', ''futimesat'']"

datatype target_arch = X86_64 | Aarch64 | Riscv64

text \<open>A build for another target has no \<open>TargetArch\<close>; the constants of \<open>libc\<close> are given by their names.\<close>

type_synonym libc = "string \<Rightarrow> int"

definition syscall_nr :: "libc \<Rightarrow> target_arch option \<Rightarrow> string \<Rightarrow> int option" where
  "syscall_nr libc arch name =
     (if name \<in> set common_names \<or> name = ''fadvise64'' \<and> (arch = Some X86_64 \<or> arch = Some Riscv64)
      then Some (libc (''SYS_'' @ name))
      else if arch = Some X86_64 \<and> name \<in> set x86_64_names then Some (libc (''SYS_'' @ name))
      else if (arch = Some X86_64 \<or> arch = Some Aarch64) \<and> name = ''futex_waitv'' then Some (libc (''SYS_'' @ name))
      else None)"

section \<open>Filters\<close>

datatype seccomp_action = Allow | Errno "32 word"

text \<open>A condition compares an argument with a value; the code uses the comparison of 32-bit arguments for
  equality only.\<close>

datatype condition = ArgDwordEq nat "64 word"

type_synonym rule = "condition list"

record seccomp_filter =
  sf_rules :: "(int, rule list) table"
  sf_mismatch_action :: seccomp_action
  sf_match_action :: seccomp_action
  sf_arch :: target_arch

datatype seccomp_error = UnsupportedArch | UnknownSyscall string | OtherError string

text \<open>The filter compiler: validation and compilation, each of which may fail, and the installation of a
  program over the ones already there.\<close>

record 'p seccompiler =
  sp_new :: "seccomp_filter \<Rightarrow> string + unit"
  sp_compile :: "seccomp_filter \<Rightarrow> string + 'p"
  sp_apply :: "'p list \<Rightarrow> 'p \<Rightarrow> string + unit"

definition host_target_arch :: "target_arch option \<Rightarrow> seccomp_error + target_arch" where
  "host_target_arch arch = (case arch of Some a \<Rightarrow> Inr a | None \<Rightarrow> Inl UnsupportedArch)"

definition eperm :: "libc \<Rightarrow> seccomp_action" where
  "eperm libc = Errno (word_of_int (libc ''EPERM''))"

definition allow_default :: "libc \<Rightarrow> target_arch option \<Rightarrow> (int, rule list) table" where
  "allow_default libc arch =
     fold (\<lambda>name t. case syscall_nr libc arch name of Some nr \<Rightarrow> tbl_insert nr [] t | None \<Rightarrow> t) DEFAULT_ALLOW []"

fun allow_extra ::
  "libc \<Rightarrow> target_arch option \<Rightarrow> string list \<Rightarrow> (int, rule list) table \<Rightarrow> seccomp_error + (int, rule list) table" where
  "allow_extra libc arch [] t = Inr t"
| "allow_extra libc arch (name # names) t =
     (if name = [] then allow_extra libc arch names t
      else case syscall_nr libc arch name of
             Some nr \<Rightarrow> allow_extra libc arch names (tbl_insert nr [] t)
           | None \<Rightarrow> Inl (UnknownSyscall (''seccomp: unknown syscall in extra_allow: '' @ name)))"

definition to_program :: "'p seccompiler \<Rightarrow> string \<Rightarrow> string \<Rightarrow> seccomp_filter \<Rightarrow> seccomp_error + 'p" where
  "to_program sp new_text compile_text f =
     (case sp_new sp f of
        Inl e \<Rightarrow> Inl (OtherError (new_text @ e))
      | Inr _ \<Rightarrow> (case sp_compile sp f of Inl e \<Rightarrow> Inl (OtherError (compile_text @ e)) | Inr p \<Rightarrow> Inr p))"

definition build_filter ::
  "libc \<Rightarrow> 'p seccompiler \<Rightarrow> target_arch option \<Rightarrow> string list \<Rightarrow> seccomp_error + 'p" where
  "build_filter libc sp arch extra_allow =
     (case host_target_arch arch of
        Inl e \<Rightarrow> Inl e
      | Inr a \<Rightarrow>
          (case allow_extra libc arch extra_allow (allow_default libc arch) of
             Inl e \<Rightarrow> Inl e
           | Inr rules \<Rightarrow>
               to_program sp ''seccomp: build filter: '' ''seccomp: compile to BPF: ''
                 \<lparr>sf_rules = rules, sf_mismatch_action = eperm libc, sf_match_action = Allow, sf_arch = a\<rparr>))"

definition denied_prctl_options :: "string list" where
  "denied_prctl_options = [''PR_SET_KEEPCAPS'', ''PR_CAPBSET_DROP'', ''PR_SET_TSC'', ''PR_GET_TSC'']"

definition prctl_deny_rules :: "libc \<Rightarrow> rule list" where
  "prctl_deny_rules libc = map (\<lambda>opt. [ArgDwordEq 0 (word_of_int (libc opt))]) denied_prctl_options"

definition denied_ioctl_requests :: "string list" where
  "denied_ioctl_requests = [''TIOCSTI'', ''TIOCSWINSZ'', ''TIOCGWINSZ'', ''TIOCSBRK'', ''TIOCCBRK'', ''TIOCSPTLCK'']"

definition ioctl_deny_rules :: "libc \<Rightarrow> rule list" where
  "ioctl_deny_rules libc = map (\<lambda>req. [ArgDwordEq 1 (word_of_int (libc req))]) denied_ioctl_requests"

definition build_deny_filter :: "libc \<Rightarrow> 'p seccompiler \<Rightarrow> target_arch option \<Rightarrow> seccomp_error + 'p" where
  "build_deny_filter libc sp arch =
     (case host_target_arch arch of
        Inl e \<Rightarrow> Inl e
      | Inr a \<Rightarrow>
          to_program sp ''seccomp: build deny filter: '' ''seccomp: compile deny filter to BPF: ''
            \<lparr>sf_rules = tbl_insert (libc ''SYS_ioctl'') (ioctl_deny_rules libc)
                          (tbl_insert (libc ''SYS_prctl'') (prctl_deny_rules libc) []),
             sf_mismatch_action = Allow, sf_match_action = eperm libc, sf_arch = a\<rparr>)"

text \<open>Installation on a thread with the given programs: the result, and the programs installed after it,
  also when it stops half way.\<close>

definition install ::
  "libc \<Rightarrow> 'p seccompiler \<Rightarrow> target_arch option \<Rightarrow> string list \<Rightarrow> 'p list \<Rightarrow> (seccomp_error + unit) \<times> 'p list" where
  "install libc sp arch extra_allow installed =
     (case build_filter libc sp arch extra_allow of
        Inl e \<Rightarrow> (Inl e, installed)
      | Inr base \<Rightarrow>
          (case build_deny_filter libc sp arch of
             Inl e \<Rightarrow> (Inl e, installed)
           | Inr deny \<Rightarrow>
               (case sp_apply sp installed deny of
                  Inl e \<Rightarrow> (Inl (OtherError (''seccomp: apply_filter (deny): '' @ e)), installed)
                | Inr _ \<Rightarrow>
                    (case sp_apply sp (installed @ [deny]) base of
                       Inl e \<Rightarrow> (Inl (OtherError (''seccomp: apply_filter (base): '' @ e)), installed @ [deny])
                     | Inr _ \<Rightarrow> (Inr (), installed @ [deny, base])))))"

section \<open>What the code relies on\<close>

record syscall =
  sy_nr :: int
  sy_args :: "64 word list"

text \<open>The documented meaning of a filter: a call matches when its number has an entry with no rules or
  with a rule all of whose conditions hold; a 32-bit comparison looks at the low half of the argument.\<close>

fun condition_holds :: "syscall \<Rightarrow> condition \<Rightarrow> bool" where
  "condition_holds c (ArgDwordEq i v) \<longleftrightarrow> i < length (sy_args c) \<and> take_bit 32 (sy_args c ! i) = take_bit 32 v"

definition filter_matches :: "seccomp_filter \<Rightarrow> syscall \<Rightarrow> bool" where
  "filter_matches f c =
     (case tbl_get (sf_rules f) (sy_nr c) of
        None \<Rightarrow> False | Some rules \<Rightarrow> rules = [] \<or> list_ex (list_all (condition_holds c)) rules)"

definition compiles_faithfully :: "'p seccompiler \<Rightarrow> ('p \<Rightarrow> syscall \<Rightarrow> seccomp_action) \<Rightarrow> bool" where
  "compiles_faithfully sp run \<longleftrightarrow>
     (\<forall>f p c. sp_compile sp f = Inr p \<longrightarrow>
        run p c = (if filter_matches f c then sf_match_action f else sf_mismatch_action f))"

text \<open>The kernel runs every installed program and lets a call pass only when each of them does.\<close>

definition most_restrictive :: "(seccomp_action list \<Rightarrow> seccomp_action) \<Rightarrow> bool" where
  "most_restrictive combine \<longleftrightarrow> (\<forall>as. combine as = Allow \<longleftrightarrow> list_all (\<lambda>a. a = Allow) as)"

section \<open>The policy\<close>

definition allowlisted :: "libc \<Rightarrow> target_arch option \<Rightarrow> string list \<Rightarrow> int \<Rightarrow> bool" where
  "allowlisted libc arch extra nr \<longleftrightarrow>
     list_ex (\<lambda>name. syscall_nr libc arch name = Some nr) (DEFAULT_ALLOW @ filter (\<lambda>name. name \<noteq> []) extra)"

definition denied_argument :: "libc \<Rightarrow> syscall \<Rightarrow> bool" where
  "denied_argument libc c \<longleftrightarrow>
     sy_nr c = libc ''SYS_prctl'' \<and>
       list_ex (\<lambda>opt. condition_holds c (ArgDwordEq 0 (word_of_int (libc opt)))) denied_prctl_options \<or>
     sy_nr c = libc ''SYS_ioctl'' \<and>
       list_ex (\<lambda>req. condition_holds c (ArgDwordEq 1 (word_of_int (libc req)))) denied_ioctl_requests"

section \<open>Lemmas\<close>

lemma allow_fold_get:
  "tbl_get (fold (\<lambda>name t. case syscall_nr libc arch name of Some nr \<Rightarrow> tbl_insert nr [] t | None \<Rightarrow> t) names t) nr =
     (if list_ex (\<lambda>name. syscall_nr libc arch name = Some nr) names then Some [] else tbl_get t nr)"
  by (induction names arbitrary: t) (auto simp: tbl_get_insert split: option.splits)

lemma allow_extra_get:
  "allow_extra libc arch names t = Inr t' \<Longrightarrow>
   tbl_get t' nr =
     (if list_ex (\<lambda>name. syscall_nr libc arch name = Some nr) (filter (\<lambda>name. name \<noteq> []) names) then Some []
      else tbl_get t nr)"
  by (induction libc arch names t rule: allow_extra.induct)
    (auto simp: tbl_get_insert split: option.splits if_splits)

lemma allow_table_get:
  assumes "allow_extra libc arch extra (allow_default libc arch) = Inr t"
  shows "tbl_get t nr = (if allowlisted libc arch extra nr then Some [] else None)"
  unfolding allow_extra_get [OF assms] allow_default_def allow_fold_get allowlisted_def
  by (auto simp: tbl_get_Nil)

lemma to_program_InrD: "to_program sp a b f = Inr p \<Longrightarrow> sp_compile sp f = Inr p"
  by (auto simp: to_program_def split: sum.splits)

lemma build_filter_verdict:
  assumes "compiles_faithfully sp run" "build_filter libc sp arch extra = Inr p"
  shows "run p c = (if allowlisted libc arch extra (sy_nr c) then Allow else eperm libc)"
proof -
  obtain a t where t: "allow_extra libc arch extra (allow_default libc arch) = Inr t"
    and p: "sp_compile sp \<lparr>sf_rules = t, sf_mismatch_action = eperm libc, sf_match_action = Allow, sf_arch = a\<rparr> = Inr p"
    using assms(2) by (auto simp: build_filter_def dest!: to_program_InrD split: sum.splits)
  show ?thesis
    using assms(1) p allow_table_get [OF t, of "sy_nr c"] by (auto simp: compiles_faithfully_def filter_matches_def)
qed

lemma denied_nonempty: "denied_prctl_options \<noteq> []" "denied_ioctl_requests \<noteq> []"
  by (simp_all add: denied_prctl_options_def denied_ioctl_requests_def)

lemma deny_filter_verdict:
  assumes "compiles_faithfully sp run" "build_deny_filter libc sp arch = Inr p" "libc ''SYS_prctl'' \<noteq> libc ''SYS_ioctl''"
  shows "run p c = (if denied_argument libc c then eperm libc else Allow)"
proof -
  define t where "t = tbl_insert (libc ''SYS_ioctl'') (ioctl_deny_rules libc)
    (tbl_insert (libc ''SYS_prctl'') (prctl_deny_rules libc) [])"
  obtain a where p: "sp_compile sp \<lparr>sf_rules = t, sf_mismatch_action = Allow, sf_match_action = eperm libc, sf_arch = a\<rparr> = Inr p"
    using assms(2) by (auto simp: build_deny_filter_def t_def dest!: to_program_InrD split: sum.splits)
  have "tbl_get t nr = (if nr = libc ''SYS_ioctl'' then Some (ioctl_deny_rules libc)
      else if nr = libc ''SYS_prctl'' then Some (prctl_deny_rules libc) else None)" for nr
    by (simp add: t_def tbl_get_insert tbl_get_Nil del: tbl_insert.simps)
  then have "filter_matches \<lparr>sf_rules = t, sf_mismatch_action = Allow, sf_match_action = eperm libc, sf_arch = a\<rparr> c
      = denied_argument libc c"
    using assms(3)
    by (auto simp: filter_matches_def denied_argument_def prctl_deny_rules_def ioctl_deny_rules_def list_ex_iff
        denied_nonempty simp del: condition_holds.simps)
  with assms(1) p show ?thesis by (simp add: compiles_faithfully_def)
qed

lemma install_InrD:
  assumes "install libc sp arch extra installed = (Inr (), ps)"
  obtains base deny where "build_filter libc sp arch extra = Inr base" "build_deny_filter libc sp arch = Inr deny"
    "ps = installed @ [deny, base]"
  using assms by (auto simp: install_def split: sum.splits)

lemma eperm_not_Allow [simp]: "eperm libc \<noteq> Allow" "Allow \<noteq> eperm libc"
  by (simp_all add: eperm_def)

text \<open>\<open>dup2\<close> stands in the allowlist, and no target resolves it: it can neither be allowed by default nor
  as an extra name.\<close>

lemma dup2_never_resolves:
  "''dup2'' \<in> set DEFAULT_ALLOW \<and> syscall_nr libc arch ''dup2'' = None \<and>
   allow_extra libc arch [''dup2''] t = Inl (UnknownSyscall ''seccomp: unknown syscall in extra_allow: dup2'')"
proof -
  have "''dup2'' \<in> set DEFAULT_ALLOW" "''dup2'' \<notin> set common_names" "''dup2'' \<notin> set x86_64_names"
    by code_simp+
  then show ?thesis by (simp add: syscall_nr_def)
qed

section \<open>Property\<close>

text \<open>
  C1. The installed policy.  With a faithful filter compiler and a kernel that keeps the most restrictive
  verdict, after a successful installation a call passes exactly when its number is that of a default or
  extra name that resolves on the target, the call is not a \<open>prctl\<close> or an \<open>ioctl\<close> with a denied argument,
  and the programs installed before let it pass.
\<close>

theorem installed_policy_is_exact:
  assumes "compiles_faithfully sp run" "most_restrictive combine" "libc ''SYS_prctl'' \<noteq> libc ''SYS_ioctl''"
    and "install libc sp arch extra installed = (Inr (), ps)"
  shows "combine (map (\<lambda>p. run p c) ps) = Allow \<longleftrightarrow>
    allowlisted libc arch extra (sy_nr c) \<and> \<not> denied_argument libc c \<and> list_all (\<lambda>p. run p c = Allow) installed"
proof -
  obtain base deny where b: "build_filter libc sp arch extra = Inr base" "build_deny_filter libc sp arch = Inr deny"
    "ps = installed @ [deny, base]"
    using install_InrD [OF assms(4)] by blast
  show ?thesis
    using assms(2) build_filter_verdict [OF assms(1) b(1), of c] deny_filter_verdict [OF assms(1) b(2) assms(3), of c]
    by (auto simp: most_restrictive_def b(3) list_all_iff)
qed

text \<open>A compiler whose programs are the filters themselves.\<close>

definition demo_seccompiler :: "seccomp_filter seccompiler" where
  "demo_seccompiler = \<lparr>sp_new = (\<lambda>_. Inr ()), sp_compile = Inr, sp_apply = (\<lambda>_ _. Inr ())\<rparr>"

definition demo_run :: "seccomp_filter \<Rightarrow> syscall \<Rightarrow> seccomp_action" where
  "demo_run f c = (if filter_matches f c then sf_match_action f else sf_mismatch_action f)"

definition demo_combine :: "seccomp_action list \<Rightarrow> seccomp_action" where
  "demo_combine as = (if list_all (\<lambda>a. a = Allow) as then Allow else hd (filter (\<lambda>a. a \<noteq> Allow) as))"

definition demo_libc :: libc where
  "demo_libc name = (if name = ''SYS_ioctl'' then 16 else if name = ''SYS_prctl'' then 157 else if name = ''TIOCSTI'' then 21522 else 1)"

lemma demo_combine_restrictive: "most_restrictive demo_combine"
proof -
  have "hd (filter (\<lambda>a. a \<noteq> Allow) as) \<noteq> Allow" if "\<not> list_all (\<lambda>a. a = Allow) as" for as :: "seccomp_action list"
    using that by (induction as) auto
  then show ?thesis by (simp add: most_restrictive_def demo_combine_def)
qed

theorem installed_policy_is_exact_witness:
  "\<exists>ps. install demo_libc demo_seccompiler (Some X86_64) [] [] = (Inr (), ps) \<and>
     demo_combine (map (\<lambda>p. demo_run p \<lparr>sy_nr = 16, sy_args = [0, 21522]\<rparr>) ps) \<noteq> Allow \<and>
     demo_combine (map (\<lambda>p. demo_run p \<lparr>sy_nr = 16, sy_args = [0, 7]\<rparr>) ps) = Allow"
proof -
  have faithful: "compiles_faithfully demo_seccompiler demo_run"
    by (simp add: compiles_faithfully_def demo_seccompiler_def demo_run_def)
  have distinct_nrs: "demo_libc ''SYS_prctl'' \<noteq> demo_libc ''SYS_ioctl''" by (simp add: demo_libc_def)
  obtain ps where ps: "install demo_libc demo_seccompiler (Some X86_64) [] [] = (Inr (), ps)"
    by (simp add: install_def build_filter_def build_deny_filter_def host_target_arch_def to_program_def demo_seccompiler_def)
  have "syscall_nr demo_libc (Some X86_64) ''ioctl'' = Some 16" "''ioctl'' \<in> set DEFAULT_ALLOW" by code_simp+
  then have allowed: "allowlisted demo_libc (Some X86_64) [] 16" by (auto simp: allowlisted_def list_ex_iff)
  have "denied_argument demo_libc \<lparr>sy_nr = 16, sy_args = [0, 21522]\<rparr>"
    "\<not> denied_argument demo_libc \<lparr>sy_nr = 16, sy_args = [0, 7]\<rparr>" by code_simp+
  with allowed ps installed_policy_is_exact [OF faithful demo_combine_restrictive distinct_nrs ps] show ?thesis by auto
qed

end
