(* ===== verification/Ctl_Services.thy ===== *)
theory Ctl_Services
  imports Ctl_Scheduler Cas_Store
begin

text \<open>
  The client-facing services of \<open>brokkr-control/src\<close>: token checks and the tenant of a request (\<open>auth.rs\<close>,
  \<open>services/execution.rs\<close>), the helpers of \<open>services/mod.rs\<close>, the store service (\<open>services/cas.rs\<close>), the
  action-cache service (\<open>services/action_cache.rs\<close>) and the operation an execution ends in.  The token
  decoder, the rendering of errors as text, the store and the cache behind the services are parameters.
\<close>

section \<open>Status values and helpers\<close>

datatype grpc_code = InvalidArgument | NotFoundCode | FailedPrecondition | Internal | Unavailable | Unauthenticated

record grpc_status =
  gs_code :: grpc_code
  gs_message :: string
  gs_metadata :: "(string, string) table"

definition grpc_error :: "grpc_code \<Rightarrow> string \<Rightarrow> grpc_status" where
  "grpc_error c msg = \<lparr>gs_code = c, gs_message = msg, gs_metadata = []\<rparr>"

record proto_digest =
  pd_hash :: string
  pd_size_bytes :: int

text \<open>The \<open>Display\<close> and \<open>Debug\<close> renderings the messages contain.\<close>

record renderers =
  rd_digest_error :: "digest_error \<Rightarrow> string"
  rd_cas_error :: "cas_error \<Rightarrow> string"
  rd_execution_error :: "execution_error \<Rightarrow> string"
  rd_id_error :: "id_error \<Rightarrow> string"
  rd_debug :: "string \<Rightarrow> string"

definition proto_to_digest :: "renderers \<Rightarrow> proto_digest \<Rightarrow> grpc_status + digest" where
  "proto_to_digest rd d =
     (case digest_new (pd_hash d) (pd_size_bytes d) of
        Inl e \<Rightarrow> Inl (grpc_error InvalidArgument (''invalid digest: '' @ rd_digest_error rd e))
      | Inr x \<Rightarrow> Inr x)"

definition digest_to_proto :: "digest \<Rightarrow> proto_digest" where
  "digest_to_proto d = \<lparr>pd_hash = dg_hash d, pd_size_bytes = dg_size d\<rparr>"

definition validate_instance_name :: "renderers \<Rightarrow> string \<Rightarrow> grpc_status + unit" where
  "validate_instance_name rd n =
     (if n = [] then Inr ()
      else Inl (grpc_error InvalidArgument (''unknown instance_name '' @ rd_debug rd n @
        '': this server has no multi-tenant support yet '' @ [CHR 0xE2, CHR 0x80, CHR 0x94] @ '' only the default (empty) instance is served'')))"

section \<open>Authentication\<close>

datatype auth_error = MissingToken | InvalidToken string | MissingTenantClaim string | InvalidTenant id_error

text \<open>A validator: the decoder with its key and rules, giving the claims as JSON strings where they are
  strings, and the claim that carries the tenant.\<close>

record jwt_auth =
  jw_decode :: "string \<Rightarrow> string + (string \<Rightarrow> string option)"
  jw_tenant_claim :: string

definition jwt_authenticate :: "jwt_auth \<Rightarrow> string \<Rightarrow> auth_error + string" where
  "jwt_authenticate a token =
     (case jw_decode a token of
        Inl e \<Rightarrow> Inl (InvalidToken e)
      | Inr claims \<Rightarrow>
          (case claims (jw_tenant_claim a) of
             None \<Rightarrow> Inl (MissingTenantClaim (jw_tenant_claim a))
           | Some t \<Rightarrow> (case tenant_id_new t of Inl e \<Rightarrow> Inl (InvalidTenant e) | Inr i \<Rightarrow> Inr i)))"

datatype authenticator = Disabled | Jwt jwt_auth

definition is_enabled :: "authenticator \<Rightarrow> bool" where
  "is_enabled a = (case a of Disabled \<Rightarrow> False | Jwt _ \<Rightarrow> True)"

definition authenticate :: "authenticator \<Rightarrow> string option \<Rightarrow> auth_error + string option" where
  "authenticate a bearer =
     (case a of
        Disabled \<Rightarrow> Inr None
      | Jwt j \<Rightarrow> (case bearer of
                   None \<Rightarrow> Inl MissingToken
                 | Some token \<Rightarrow> (case jwt_authenticate j token of Inl e \<Rightarrow> Inl e | Inr t \<Rightarrow> Inr (Some t))))"

definition strip_prefix :: "string \<Rightarrow> string \<Rightarrow> string option" where
  "strip_prefix pre s = (if take (length pre) s = pre then Some (drop (length pre) s) else None)"

definition strip_bearer :: "string \<Rightarrow> string option" where
  "strip_bearer v = (case strip_prefix ''Bearer '' v of Some t \<Rightarrow> Some t | None \<Rightarrow> strip_prefix ''bearer '' v)"

definition auth_error_text :: "renderers \<Rightarrow> auth_error \<Rightarrow> string" where
  "auth_error_text rd e = (case e of
     MissingToken \<Rightarrow> ''missing Authorization bearer token''
   | InvalidToken m \<Rightarrow> ''invalid token: '' @ m
   | MissingTenantClaim c \<Rightarrow> ''token is missing the '' @ [CHR 0x27] @ c @ [CHR 0x27] @ '' tenant claim''
   | InvalidTenant i \<Rightarrow> ''invalid tenant in token: '' @ rd_id_error rd i)"

text \<open>A request as the interceptor and the handler see it: the header values that are text, and the
  tenant among its extensions.\<close>

record request_meta =
  rm_headers :: "string \<rightharpoonup> string"
  rm_tenant :: "string option"

definition auth_interceptor :: "renderers \<Rightarrow> authenticator \<Rightarrow> request_meta \<Rightarrow> grpc_status + request_meta" where
  "auth_interceptor rd a req =
     (case authenticate a (Option.bind (rm_headers req ''authorization'') strip_bearer) of
        Inr (Some t) \<Rightarrow> Inr (req\<lparr>rm_tenant := Some t\<rparr>)
      | Inr None \<Rightarrow> Inr req
      | Inl e \<Rightarrow> Inl (grpc_error Unauthenticated (auth_error_text rd e)))"

definition tenant_from_metadata :: "(string \<rightharpoonup> string) \<Rightarrow> string" where
  "tenant_from_metadata md =
     (case md ''x-brokkr-tenant'' of
        None \<Rightarrow> DEFAULT_TENANT
      | Some s \<Rightarrow> (case tenant_id_new s of Inr t \<Rightarrow> t | Inl _ \<Rightarrow> DEFAULT_TENANT))"

definition request_tenant :: "request_meta \<Rightarrow> string" where
  "request_tenant req = (case rm_tenant req of Some t \<Rightarrow> t | None \<Rightarrow> tenant_from_metadata (rm_headers req))"

section \<open>The store service\<close>

record batch_limits =
  bm_max_blobs_per_request :: nat
  bm_max_request_bytes :: nat

definition batch_limits_default :: batch_limits where
  "batch_limits_default = \<lparr>bm_max_blobs_per_request = 1000, bm_max_request_bytes = 4 * 1024 * 1024\<rparr>"

definition check_blob_count :: "batch_limits \<Rightarrow> nat \<Rightarrow> grpc_status + unit" where
  "check_blob_count lim n =
     (if n > bm_max_blobs_per_request lim
      then Inl (grpc_error InvalidArgument (''batch has '' @ show_nat n @ '' blobs, exceeding the per-request limit of '' @
        show_nat (bm_max_blobs_per_request lim)))
      else Inr ())"

record rpc_status =
  rs_code :: nat
  rs_message :: string

record update_response =
  up_digest :: proto_digest
  up_status :: "rpc_status option"

record read_response =
  rr_digest :: proto_digest
  rr_data :: bytes
  rr_status :: rpc_status

definition rpc_ok :: rpc_status where "rpc_ok = \<lparr>rs_code = 0, rs_message = []\<rparr>"

definition find_missing_service ::
  "renderers \<Rightarrow> 's cas_ops \<Rightarrow> batch_limits \<Rightarrow> string \<Rightarrow> proto_digest list \<Rightarrow> 's \<Rightarrow> (grpc_status + proto_digest list) \<times> 's" where
  "find_missing_service rd ops lim inst ds s =
     (case validate_instance_name rd inst of Inl e \<Rightarrow> (Inl e, s) | Inr _ \<Rightarrow>
     (case check_blob_count lim (length ds) of Inl e \<Rightarrow> (Inl e, s) | Inr _ \<Rightarrow>
     (case collect_results (proto_to_digest rd) ds of Inl e \<Rightarrow> (Inl e, s) | Inr digests \<Rightarrow>
     (case op_find_missing ops digests s of
        (Inl e, s) \<Rightarrow> (Inl (grpc_error Internal (rd_cas_error rd e)), s)
      | (Inr missing, s) \<Rightarrow> (Inr (map digest_to_proto missing), s)))))"

text \<open>The loop over the entries of an upload: the responses so far, the accepted blobs, and the positions
  of their responses.\<close>

fun verify_entries ::
  "renderers \<Rightarrow> (bytes \<Rightarrow> bytes) \<Rightarrow> (proto_digest option \<times> bytes) list
     \<Rightarrow> update_response list \<times> (digest \<times> bytes) list \<times> nat list
     \<Rightarrow> grpc_status + (update_response list \<times> (digest \<times> bytes) list \<times> nat list)" where
  "verify_entries rd sha256 [] acc = Inr acc"
| "verify_entries rd sha256 ((pd, data) # rs) (responses, blobs, accepted) =
     (case pd of
        None \<Rightarrow> Inl (grpc_error InvalidArgument ''missing digest'')
      | Some d \<Rightarrow>
          (case proto_to_digest rd d of
             Inl e \<Rightarrow> Inl e
           | Inr digest \<Rightarrow>
               (case digest_verify sha256 digest data of
                  Inr _ \<Rightarrow>
                    verify_entries rd sha256 rs
                      (responses @ [\<lparr>up_digest = digest_to_proto digest, up_status = None\<rparr>],
                       blobs @ [(digest, data)], accepted @ [length responses])
                | Inl e \<Rightarrow>
                    verify_entries rd sha256 rs
                      (responses @ [\<lparr>up_digest = digest_to_proto digest,
                         up_status = Some \<lparr>rs_code = 3, rs_message = ''digest verification failed: '' @ rd_digest_error rd e\<rparr>\<rparr>],
                       blobs, accepted))))"

definition fill_statuses :: "(nat \<times> update_result) list \<Rightarrow> update_response list \<Rightarrow> update_response list" where
  "fill_statuses us responses =
     fold (\<lambda>(i, u) rs. rs[i := (rs ! i)\<lparr>up_status := Some (case ur_status u of
         Inr _ \<Rightarrow> rpc_ok | Inl msg \<Rightarrow> \<lparr>rs_code = 3, rs_message = msg\<rparr>)\<rparr>]) us responses"

definition update_service ::
  "renderers \<Rightarrow> (bytes \<Rightarrow> bytes) \<Rightarrow> 's cas_ops \<Rightarrow> batch_limits \<Rightarrow> string \<Rightarrow> (proto_digest option \<times> bytes) list \<Rightarrow> 's
     \<Rightarrow> (grpc_status + update_response list) \<times> 's" where
  "update_service rd sha256 ops lim inst rs s =
     (case validate_instance_name rd inst of Inl e \<Rightarrow> (Inl e, s) | Inr _ \<Rightarrow>
     (case check_blob_count lim (length rs) of Inl e \<Rightarrow> (Inl e, s) | Inr _ \<Rightarrow>
     let total = sum_list (map (\<lambda>r. length (snd r)) rs)
     in if total > bm_max_request_bytes lim
        then (Inl (grpc_error InvalidArgument (''batch payload is '' @ show_nat total @
               '' bytes, exceeding the per-request limit of '' @ show_nat (bm_max_request_bytes lim))), s)
        else
          (case verify_entries rd sha256 rs ([], [], []) of
             Inl e \<Rightarrow> (Inl e, s)
           | Inr (responses, blobs, accepted) \<Rightarrow>
               (case op_update ops blobs s of
                  (Inl e, s) \<Rightarrow> (Inl (grpc_error Internal (rd_cas_error rd e)), s)
                | (Inr results, s) \<Rightarrow> (Inr (fill_statuses (zip accepted results) responses), s)))))"

definition read_service ::
  "renderers \<Rightarrow> 's cas_ops \<Rightarrow> batch_limits \<Rightarrow> string \<Rightarrow> proto_digest list \<Rightarrow> 's \<Rightarrow> (grpc_status + read_response list) \<times> 's" where
  "read_service rd ops lim inst ds s =
     (case validate_instance_name rd inst of Inl e \<Rightarrow> (Inl e, s) | Inr _ \<Rightarrow>
     (case check_blob_count lim (length ds) of Inl e \<Rightarrow> (Inl e, s) | Inr _ \<Rightarrow>
     (case collect_results (proto_to_digest rd) ds of Inl e \<Rightarrow> (Inl e, s) | Inr digests \<Rightarrow>
     (case op_read ops digests s of
        (Inl e, s) \<Rightarrow> (Inl (grpc_error Internal (rd_cas_error rd e)), s)
      | (Inr results, s) \<Rightarrow>
          (Inr (map (\<lambda>(d, r). case r of
              Inr bs \<Rightarrow> \<lparr>rr_digest = digest_to_proto d, rr_data = bs, rr_status = rpc_ok\<rparr>
            | Inl _ \<Rightarrow> \<lparr>rr_digest = digest_to_proto d, rr_data = [], rr_status = \<lparr>rs_code = 5, rs_message = ''blob not found''\<rparr>\<rparr>)
            (zip digests results)), s)))))"

section \<open>The action-cache service\<close>

definition LEADER_HINT_METADATA_KEY :: string where "LEADER_HINT_METADATA_KEY = ''x-brokkr-leader''"

definition LEADER_ADDR_METADATA_KEY :: string where "LEADER_ADDR_METADATA_KEY = ''x-brokkr-leader-addr''"

text \<open>Which texts are header values is the library's to say.\<close>

definition cas_status :: "renderers \<Rightarrow> (string \<Rightarrow> bool) \<Rightarrow> cas_error \<Rightarrow> grpc_status" where
  "cas_status rd header_ok e =
     (case e of
        CasNotLeader leader addr \<Rightarrow>
          fold (\<lambda>(k, hint) st. case hint of
                  Some h \<Rightarrow> if header_ok h then st\<lparr>gs_metadata := tbl_insert k h (gs_metadata st)\<rparr> else st
                | None \<Rightarrow> st)
            [(LEADER_HINT_METADATA_KEY, leader), (LEADER_ADDR_METADATA_KEY, addr)]
            (grpc_error FailedPrecondition ''not the metadata leader; retry against the leader'')
      | _ \<Rightarrow> grpc_error Internal (rd_cas_error rd e))"

record ('r, 'a) cache_ops =
  co_get :: "digest \<Rightarrow> 'a \<Rightarrow> cas_error + 'r option"
  co_gc_window :: "'a \<Rightarrow> cas_error + unit"
  co_update :: "digest \<Rightarrow> 'r \<Rightarrow> 'a \<Rightarrow> (cas_error + unit) \<times> 'a"

definition action_digest_of :: "renderers \<Rightarrow> proto_digest option \<Rightarrow> grpc_status + digest" where
  "action_digest_of rd pd =
     (case pd of None \<Rightarrow> Inl (grpc_error InvalidArgument ''missing action_digest'') | Some d \<Rightarrow> proto_to_digest rd d)"

definition get_action_result_service ::
  "renderers \<Rightarrow> (string \<Rightarrow> bool) \<Rightarrow> ('r, 'a) cache_ops \<Rightarrow> string \<Rightarrow> proto_digest option \<Rightarrow> 'a \<Rightarrow> grpc_status + 'r" where
  "get_action_result_service rd header_ok ops inst pd a =
     (case validate_instance_name rd inst of Inl e \<Rightarrow> Inl e | Inr _ \<Rightarrow>
     (case action_digest_of rd pd of Inl e \<Rightarrow> Inl e | Inr d \<Rightarrow>
     (case co_get ops d a of
        Inl e \<Rightarrow> Inl (cas_status rd header_ok e)
      | Inr (Some r) \<Rightarrow> Inr r
      | Inr None \<Rightarrow> Inl (grpc_error NotFoundCode ''no cached action result''))))"

definition update_action_result_service ::
  "renderers \<Rightarrow> (string \<Rightarrow> bool) \<Rightarrow> ('r, 'a) cache_ops \<Rightarrow> string \<Rightarrow> proto_digest option \<Rightarrow> 'r option \<Rightarrow> 'a
     \<Rightarrow> (grpc_status + 'r) \<times> 'a" where
  "update_action_result_service rd header_ok ops inst pd result a =
     (case validate_instance_name rd inst of Inl e \<Rightarrow> (Inl e, a) | Inr _ \<Rightarrow>
     (case action_digest_of rd pd of Inl e \<Rightarrow> (Inl e, a) | Inr d \<Rightarrow>
     (case result of None \<Rightarrow> (Inl (grpc_error InvalidArgument ''missing action_result''), a) | Some r \<Rightarrow>
     (case co_gc_window ops a of
        Inl e \<Rightarrow> (Inl (grpc_error Internal (''gc_window: '' @ rd_cas_error rd e)), a)
      | Inr _ \<Rightarrow>
          (case co_update ops d r a of
             (Inl e, a) \<Rightarrow> (Inl (cas_status rd header_ok e), a)
           | (Inr _, a) \<Rightarrow> (Inr r, a))))))"

section \<open>The operation an execution ends in\<close>

definition error_code :: "execution_error \<Rightarrow> nat" where
  "error_code e = (case e of Timeout _ \<Rightarrow> 4 | QuotaExceeded _ \<Rightarrow> 8 | NoEligibleWorker \<Rightarrow> 9 | OtherError _ \<Rightarrow> 13)"

record execute_response =
  xr_result :: action_result
  xr_cached_result :: bool
  xr_status :: rpc_status
  xr_message :: string

definition operation_result :: "renderers \<Rightarrow> execution_error + execution_outcome \<Rightarrow> rpc_status + execute_response" where
  "operation_result rd out =
     (case out of
        Inl e \<Rightarrow> Inl \<lparr>rs_code = error_code e, rs_message = rd_execution_error rd e\<rparr>
      | Inr x \<Rightarrow> Inr \<lparr>xr_result = eo_result x, xr_cached_result = eo_cache_hit x, xr_status = rpc_ok,
          xr_message = (if eo_result_cached x then []
            else ''result not cached: this control-plane node is not the metadata leader; an identical action will re-execute'')\<rparr>)"

text \<open>The call the handler makes: the tenant, the digest and whether to skip the cache.\<close>

definition execute_service ::
  "renderers \<Rightarrow> request_meta \<Rightarrow> string \<Rightarrow> proto_digest option \<Rightarrow> bool \<Rightarrow> grpc_status + (digest \<times> bool \<times> string)" where
  "execute_service rd req inst pd skip =
     (case validate_instance_name rd inst of Inl e \<Rightarrow> Inl e | Inr _ \<Rightarrow>
     (case action_digest_of rd pd of Inl e \<Rightarrow> Inl e | Inr d \<Rightarrow> Inr (d, skip, request_tenant req)))"

section \<open>Lemmas\<close>

text \<open>The entries of an upload once their digests are parsed.\<close>

definition parsed :: "renderers \<Rightarrow> (proto_digest option \<times> bytes) list \<Rightarrow> (digest \<times> bytes) list \<Rightarrow> bool" where
  "parsed rd = list_all2 (\<lambda>r e. snd r = snd e \<and> (\<exists>pd. fst r = Some pd \<and> proto_to_digest rd pd = Inr (fst e)))"

definition verifies :: "(bytes \<Rightarrow> bytes) \<Rightarrow> digest \<times> bytes \<Rightarrow> bool" where
  "verifies sha256 e \<longleftrightarrow> fst e = digest_of sha256 (snd e)"

definition first_response :: "renderers \<Rightarrow> (bytes \<Rightarrow> bytes) \<Rightarrow> digest \<times> bytes \<Rightarrow> update_response" where
  "first_response rd sha256 e =
     \<lparr>up_digest = digest_to_proto (fst e),
      up_status = (case digest_verify sha256 (fst e) (snd e) of
         Inr _ \<Rightarrow> None
       | Inl f \<Rightarrow> Some \<lparr>rs_code = 3, rs_message = ''digest verification failed: '' @ rd_digest_error rd f\<rparr>)\<rparr>"

definition positions :: "('e \<Rightarrow> bool) \<Rightarrow> 'e list \<Rightarrow> nat list" where
  "positions P es = filter (\<lambda>i. P (es ! i)) [0..<length es]"

lemma positions_Cons: "positions P (e # es) = (if P e then [0] else []) @ map Suc (positions P es)"
proof -
  have "[0..<length (e # es)] = 0 # map Suc [0..<length es]" by (simp add: map_Suc_upt upt_conv_Cons del: upt_Suc)
  then show ?thesis by (simp add: positions_def filter_map comp_def)
qed

lemma verify_ok_iff: "digest_verify sha256 d b = Inr u \<longleftrightarrow> verifies sha256 (d, b)"
  using verify_iff_digest_of [of sha256 d b] by (simp add: verifies_def)

lemma verify_entries_InrD:
  assumes "verify_entries rd sha256 rs (resp, bl, ac) = Inr (resp', bl', ac')"
  shows "\<exists>es. parsed rd rs es \<and> resp' = resp @ map (first_response rd sha256) es \<and>
    bl' = bl @ filter (verifies sha256) es \<and> ac' = ac @ map (\<lambda>i. length resp + i) (positions (verifies sha256) es)"
  using assms
proof (induction rs arbitrary: resp bl ac)
  case Nil
  then show ?case by (simp add: parsed_def positions_def)
next
  case (Cons r rs)
  obtain pd b where r: "r = (pd, b)" by (cases r)
  obtain x d where x: "pd = Some x" "proto_to_digest rd x = Inr d"
    using Cons.prems by (auto simp: r split: option.splits sum.splits)
  define acc where "acc = (resp @ [first_response rd sha256 (d, b)], bl @ filter (verifies sha256) [(d, b)],
    ac @ (if verifies sha256 (d, b) then [length resp] else []))"
  have "verify_entries rd sha256 rs acc = Inr (resp', bl', ac')"
  proof (cases "digest_verify sha256 d b")
    case (Inl f)
    then have "\<not> verifies sha256 (d, b)" using verify_ok_iff [of sha256 d b "()"] by simp
    with Inl Cons.prems show ?thesis by (simp add: r x acc_def first_response_def)
  next
    case (Inr u)
    then have "verifies sha256 (d, b)" using verify_ok_iff [of sha256 d b u] by simp
    with Inr Cons.prems show ?thesis by (simp add: r x acc_def first_response_def)
  qed
  from Cons.IH [OF this [unfolded acc_def]] obtain es where es: "parsed rd rs es"
    "resp' = (resp @ [first_response rd sha256 (d, b)]) @ map (first_response rd sha256) es"
    "bl' = (bl @ filter (verifies sha256) [(d, b)]) @ filter (verifies sha256) es"
    "ac' = (ac @ (if verifies sha256 (d, b) then [length resp] else [])) @
      map (\<lambda>i. length (resp @ [first_response rd sha256 (d, b)]) + i) (positions (verifies sha256) es)"
    by blast
  have "parsed rd (r # rs) ((d, b) # es)" using es(1) by (simp add: parsed_def r x)
  with es show ?case by (intro exI [of _ "(d, b) # es"]) (simp add: positions_Cons comp_def)
qed

lemma fill_statuses_nth:
  assumes "\<forall>(i, u) \<in> set us. i < length rs \<and> ur_status u = Inr ()" "k < length rs"
  shows "length (fill_statuses us rs) = length rs \<and>
    fill_statuses us rs ! k = (if k \<in> fst ` set us then (rs ! k)\<lparr>up_status := Some rpc_ok\<rparr> else rs ! k)"
  using assms
proof (induction us arbitrary: rs)
  case (Cons u us)
  obtain i v where u: "u = (i, v)" by (cases u)
  let ?rs = "rs[i := (rs ! i)\<lparr>up_status := Some rpc_ok\<rparr>]"
  have "fill_statuses (u # us) rs = fill_statuses us ?rs" using Cons.prems(1) by (simp add: fill_statuses_def u)
  moreover have "\<forall>(i, u) \<in> set us. i < length ?rs \<and> ur_status u = Inr ()" "k < length ?rs" using Cons.prems by auto
  ultimately show ?case using Cons.IH [of ?rs] Cons.prems by (auto simp: u nth_list_update)
qed (simp add: fill_statuses_def)

lemma stored_some:
  assumes "\<forall>(d, b) \<in> set blobs. is_ok (ok d b)" "d \<in> fst ` set blobs"
  shows "\<exists>b. (d, b) \<in> set blobs \<and> stored ok blobs h d = Some b"
  using assms
proof (induction blobs rule: rev_induct)
  case (snoc e blobs)
  obtain d' b' where e: "e = (d', b')" by (cases e)
  have step: "stored ok (blobs @ [e]) h = (stored ok blobs h)(d' \<mapsto> b')" using snoc.prems(1) by (simp add: stored_def e)
  show ?case
  proof (cases "d = d'")
    case True
    then show ?thesis by (intro exI [of _ b']) (simp add: step [unfolded e] e)
  next
    case False
    then have "d \<in> fst ` set blobs" using snoc.prems(2) by (auto simp: e)
    then obtain b where "(d, b) \<in> set blobs" "stored ok blobs h d = Some b" using snoc.IH snoc.prems(1) by auto
    with False show ?thesis by (intro exI [of _ b]) (simp add: step)
  qed
qed simp

lemma positions_set: "set (positions P es) = {i. i < length es \<and> P (es ! i)}"
  by (auto simp: positions_def)

lemma filter_positions: "length (positions P es) = length (filter P es)"
  by (induction es) (simp_all add: positions_Cons, simp add: positions_def)

lemma update_service_InrD:
  assumes "update_service rd sha256 ops lim inst rs s = (Inr ups, s')"
  obtains es results where "parsed rd rs es" "op_update ops (filter (verifies sha256) es) s = (Inr results, s')"
    "ups = fill_statuses (zip (positions (verifies sha256) es) results) (map (first_response rd sha256) es)"
proof -
  obtain resp bl ac results where v: "verify_entries rd sha256 rs ([], [], []) = Inr (resp, bl, ac)"
    and u: "op_update ops bl s = (Inr results, s')" "ups = fill_statuses (zip ac results) resp"
    using assms by (auto simp: update_service_def Let_def split: sum.splits if_splits prod.splits)
  obtain es where "parsed rd rs es" "resp = map (first_response rd sha256) es" "bl = filter (verifies sha256) es"
    "ac = positions (verifies sha256) es"
    using verify_entries_InrD [OF v] by auto
  with u that show thesis by blast
qed

lemma is_ok_Inr: "is_ok (r :: string + unit) \<Longrightarrow> r = Inr ()"
  by (cases r) (simp_all add: is_ok_def)

lemma receipts_ok:
  assumes "\<forall>(d, b) \<in> set blobs. is_ok (ok d b)"
  shows "\<forall>u \<in> set (receipts ok blobs). ur_status u = Inr ()"
  using assms by (auto simp: receipts_def dest!: is_ok_Inr)

lemma first_response_code:
  "\<not> verifies sha256 e \<Longrightarrow> \<exists>st. up_status (first_response rd sha256 e) = Some st \<and> rs_code st \<noteq> 0"
  using verify_ok_iff [of sha256 "fst e" "snd e"] by (auto simp: first_response_def split: sum.splits)

context blob_store
begin

text \<open>The store service over any store that keeps the contract and verifies what it takes.\<close>

lemma service_upload:
  assumes "inv s" "\<And>d b. is_ok (ok d b) \<longleftrightarrow> d = digest_of sha256 b"
    and "update_service rd sha256 ops lim inst rs s = (Inr ups, s')"
  shows "\<exists>es. parsed rd rs es \<and> length ups = length rs \<and> inv s' \<and>
    (\<forall>i < length rs. up_digest (ups ! i) = digest_to_proto (fst (es ! i)) \<and>
       (\<exists>st. up_status (ups ! i) = Some st \<and> (rs_code st = 0 \<longleftrightarrow> verifies sha256 (es ! i))) \<and>
       (verifies sha256 (es ! i) \<longrightarrow> (\<exists>b. holds s' (fst (es ! i)) = Some b \<and> verifies sha256 (fst (es ! i), b))))"
proof -
  obtain es results where es: "parsed rd rs es" "op_update ops (filter (verifies sha256) es) s = (Inr results, s')"
    "ups = fill_statuses (zip (positions (verifies sha256) es) results) (map (first_response rd sha256) es)"
    using update_service_InrD [OF assms(3)] .
  let ?bl = "filter (verifies sha256) es"
  have ok: "\<forall>(d, b) \<in> set ?bl. is_ok (ok d b)" using assms(2) by (auto simp: verifies_def)
  have r: "results = receipts ok ?bl" "inv s'" "holds s' = stored ok ?bl (holds s)"
    using update [OF assms(1), of ?bl] es(2) by auto
  have len: "length es = length rs" using es(1) by (simp add: parsed_def list_all2_lengthD)
  have n: "length (positions (verifies sha256) es) = length results" by (simp add: r(1) receipts_def filter_positions)
  let ?us = "zip (positions (verifies sha256) es) results"
  have us: "\<forall>(i, u) \<in> set ?us. i < length (map (first_response rd sha256) es) \<and> ur_status u = Inr ()"
  proof safe
    fix i u assume "(i, u) \<in> set ?us"
    then have "i \<in> set (positions (verifies sha256) es)" "u \<in> set results" by (rule set_zip_leftD, rule set_zip_rightD)
    then show "i < length (map (first_response rd sha256) es)" "ur_status u = Inr ()"
      using receipts_ok [OF ok] by (simp_all add: positions_set r(1))
  qed
  have keys: "fst ` set ?us = {i. i < length es \<and> verifies sha256 (es ! i)}"
    using n positions_set [of "verifies sha256" es] by (metis map_fst_zip list.set_map)
  have "length ups = length rs"
    using fill_statuses_nth [OF us] len by (cases "rs = []") (auto simp: es(3) fill_statuses_def positions_def)
  moreover have "up_digest (ups ! i) = digest_to_proto (fst (es ! i)) \<and>
       (\<exists>st. up_status (ups ! i) = Some st \<and> (rs_code st = 0 \<longleftrightarrow> verifies sha256 (es ! i)))" if "i < length rs" for i
    using fill_statuses_nth [OF us, of i] that len keys first_response_code [of sha256 "es ! i" rd]
    by (auto simp: es(3) first_response_def rpc_ok_def)
  moreover have "\<exists>b. holds s' (fst (es ! i)) = Some b \<and> verifies sha256 (fst (es ! i), b)"
    if "i < length rs" "verifies sha256 (es ! i)" for i
  proof -
    from that len have "fst (es ! i) \<in> fst ` set ?bl" by simp
    from stored_some [OF ok this, of "holds s"] show ?thesis by (auto simp: r(3))
  qed
  ultimately show ?thesis using es(1) r(2) by blast
qed

lemma service_read:
  assumes "inv s" "bm_max_blobs_per_request lim \<ge> 1" "proto_to_digest rd pd = Inr d" "holds s d = Some b"
  shows "fst (read_service rd ops lim [] [pd] s) = Inr [\<lparr>rr_digest = digest_to_proto d, rr_data = b, rr_status = rpc_ok\<rparr>]"
  using read [OF assms(1), of "[d]"] assms(2-4)
  by (auto simp: read_service_def validate_instance_name_def check_blob_count_def found_def)

end

section \<open>Properties\<close>

lemma accepts_iff: "is_ok (accepts show_error sha256 d b) \<longleftrightarrow> d = digest_of sha256 b"
  using verify_iff_digest_of [of sha256 d b] by (auto simp: accepts_def is_ok_def split: sum.splits)

text \<open>
  C38. An upload through the service is answered entry by entry.  Over the Bloom-filtered store, when the
  request is answered there is one response per entry, in order, with the entry's digest; its status is
  success exactly when the digest is that of the entry's bytes; and a digest so reported is read back
  through the service, with bytes of that digest.
\<close>

theorem service_upload_is_exact:
  assumes "covers (snd s) (map_of (fst s))" "bm_max_blobs_per_request lim \<ge> 1"
    and "update_service rd sha256 (bloom_ops (mem_ops (accepts show_error sha256))) lim inst rs s = (Inr ups, s')"
  shows "length ups = length rs \<and> (\<forall>i < length rs. \<exists>pd d st. fst (rs ! i) = Some pd \<and> proto_to_digest rd pd = Inr d \<and>
    up_digest (ups ! i) = digest_to_proto d \<and> up_status (ups ! i) = Some st \<and>
    (rs_code st = 0 \<longleftrightarrow> d = digest_of sha256 (snd (rs ! i))) \<and>
    (rs_code st = 0 \<longrightarrow> (\<exists>b. d = digest_of sha256 b \<and>
       fst (read_service rd (bloom_ops (mem_ops (accepts show_error sha256))) lim [] [pd] s')
         = Inr [\<lparr>rr_digest = digest_to_proto d, rr_data = b, rr_status = rpc_ok\<rparr>])))"
proof -
  have inv: "True \<and> covers (snd s) (map_of (fst s))" using assms(1) by simp
  obtain es where es: "parsed rd rs es" "length ups = length rs" "True \<and> covers (snd s') (map_of (fst s'))"
    and all: "\<forall>i < length rs. up_digest (ups ! i) = digest_to_proto (fst (es ! i)) \<and>
       (\<exists>st. up_status (ups ! i) = Some st \<and> (rs_code st = 0 \<longleftrightarrow> verifies sha256 (es ! i))) \<and>
       (verifies sha256 (es ! i) \<longrightarrow> (\<exists>b. map_of (fst s') (fst (es ! i)) = Some b \<and> verifies sha256 (fst (es ! i), b)))"
    using bloom_store.service_upload [OF inv accepts_iff assms(3)] by (elim exE conjE) (rule that, assumption+, intro conjI, assumption+)
  have "\<exists>pd d st. fst (rs ! i) = Some pd \<and> proto_to_digest rd pd = Inr d \<and>
    up_digest (ups ! i) = digest_to_proto d \<and> up_status (ups ! i) = Some st \<and>
    (rs_code st = 0 \<longleftrightarrow> d = digest_of sha256 (snd (rs ! i))) \<and>
    (rs_code st = 0 \<longrightarrow> (\<exists>b. d = digest_of sha256 b \<and>
       fst (read_service rd (bloom_ops (mem_ops (accepts show_error sha256))) lim [] [pd] s')
         = Inr [\<lparr>rr_digest = digest_to_proto d, rr_data = b, rr_status = rpc_ok\<rparr>]))" if i: "i < length rs" for i
  proof -
    obtain pd where pd: "snd (rs ! i) = snd (es ! i)" "fst (rs ! i) = Some pd" "proto_to_digest rd pd = Inr (fst (es ! i))"
      using list_all2_nthD [OF es(1) [unfolded parsed_def] i] by (elim exE conjE)
    obtain st where st: "up_status (ups ! i) = Some st" "rs_code st = 0 \<longleftrightarrow> verifies sha256 (es ! i)"
      using all [rule_format, OF i, THEN conjunct2, THEN conjunct1] by (elim exE conjE)
    have "\<exists>b. fst (es ! i) = digest_of sha256 b \<and>
       fst (read_service rd (bloom_ops (mem_ops (accepts show_error sha256))) lim [] [pd] s')
         = Inr [\<lparr>rr_digest = digest_to_proto (fst (es ! i)), rr_data = b, rr_status = rpc_ok\<rparr>]" if zero: "rs_code st = 0"
    proof -
      obtain b where b: "map_of (fst s') (fst (es ! i)) = Some b" "verifies sha256 (fst (es ! i), b)"
        using all [rule_format, OF i] st(2) zero by blast
      from bloom_store.service_read [OF es(3) assms(2) pd(3) b(1)] b(2) show ?thesis
        by (intro exI [of _ b]) (simp add: verifies_def)
    qed
    with pd st all [rule_format, OF i, THEN conjunct1] show ?thesis
      by (intro exI [of _ pd] exI [of _ "fst (es ! i)"] exI [of _ st]) (simp add: verifies_def)
  qed
  with es(2) show ?thesis by (intro conjI allI impI)
qed

text \<open>Two entries under a constant hash: one whose digest is right, one whose size is wrong.\<close>

definition demo_renderers :: renderers where
  "demo_renderers = \<lparr>rd_digest_error = (\<lambda>_. []), rd_cas_error = (\<lambda>_. []), rd_execution_error = (\<lambda>_. []),
     rd_id_error = (\<lambda>_. []), rd_debug = id\<rparr>"

definition demo_pd :: "int \<Rightarrow> proto_digest" where
  "demo_pd n = \<lparr>pd_hash = replicate 64 (CHR ''0''), pd_size_bytes = n\<rparr>"

definition demo_entries :: "(proto_digest option \<times> bytes) list" where
  "demo_entries = [(Some (demo_pd 1), [5]), (Some (demo_pd 2), [5])]"

abbreviation demo_update where
  "demo_update \<equiv> update_service demo_renderers (\<lambda>_. replicate 32 0) (bloom_ops (mem_ops (accepts (\<lambda>_. []) (\<lambda>_. replicate 32 0))))
     batch_limits_default [] demo_entries ([], bloom_new 64 1)"

lemma demo_update_codes:
  "(case fst demo_update of Inr ups \<Rightarrow> map (map_option rs_code \<circ> up_status) ups | Inl _ \<Rightarrow> []) = [Some 0, Some 3]"
  by code_simp

theorem service_upload_is_exact_witness:
  "\<exists>ups s'. demo_update = (Inr ups, s') \<and> length ups = 2 \<and> (\<exists>b.
     fst (read_service demo_renderers (bloom_ops (mem_ops (accepts (\<lambda>_. []) (\<lambda>_. replicate 32 0)))) batch_limits_default []
       [demo_pd 1] s') = Inr [\<lparr>rr_digest = demo_pd 1, rr_data = b, rr_status = rpc_ok\<rparr>])"
proof -
  obtain ups s' where u: "demo_update = (Inr ups, s')" and codes: "map (map_option rs_code \<circ> up_status) ups = [Some 0, Some 3]"
    using demo_update_codes by (cases demo_update) (auto split: sum.splits)
  have cov: "covers (snd ([] :: mem_cas, bloom_new 64 1)) (map_of (fst ([] :: mem_cas, bloom_new 64 1)))"
    by (simp add: covers_def bloom_wf_new)
  have lim: "bm_max_blobs_per_request batch_limits_default \<ge> 1" by (simp add: batch_limits_default_def)
  have first: "map_option rs_code (up_status (ups ! 0)) = Some 0" using codes by (cases ups) auto
  have entry: "fst (demo_entries ! 0) = Some (demo_pd 1)" "0 < length demo_entries" "length demo_entries = 2"
    by (simp_all add: demo_entries_def)
  from service_upload_is_exact [OF cov lim u] obtain d st where
    d: "proto_to_digest demo_renderers (demo_pd 1) = Inr d" "up_status (ups ! 0) = Some st" "length ups = 2"
      "rs_code st = 0 \<longrightarrow> (\<exists>b. d = digest_of (\<lambda>_. replicate 32 0) b \<and>
       fst (read_service demo_renderers (bloom_ops (mem_ops (accepts (\<lambda>_. []) (\<lambda>_. replicate 32 0)))) batch_limits_default []
         [demo_pd 1] s') = Inr [\<lparr>rr_digest = digest_to_proto d, rr_data = b, rr_status = rpc_ok\<rparr>])"
    using entry by (metis option.inject)
  have "digest_to_proto d = demo_pd 1"
    using d(1) by (auto simp: proto_to_digest_def digest_new_def demo_pd_def digest_to_proto_def split: if_splits sum.splits)
  with d first u show ?thesis by auto
qed

text \<open>
  C39. The tenant of a token is authoritative.  With token checks enabled, a request that passes the
  interceptor carried a bearer token the decoder accepted, and the execution it starts is charged to the
  tenant of that token's claim, whatever tenant header or earlier extension the request had.
\<close>

theorem token_tenant_is_authoritative:
  assumes "auth_interceptor rd (Jwt j) req = Inr req'" "execute_service rd req' inst pd skip = Inr (d, skip', tenant)"
  shows "\<exists>header token claims. rm_headers req ''authorization'' = Some header \<and> strip_bearer header = Some token \<and>
    jw_decode j token = Inr claims \<and> claims (jw_tenant_claim j) = Some tenant \<and> tenant_id_new tenant = Inr tenant"
proof -
  obtain header token where h: "rm_headers req ''authorization'' = Some header" "strip_bearer header = Some token"
    and t: "jwt_authenticate j token = Inr tenant"
    using assms
    by (auto simp: auth_interceptor_def authenticate_def execute_service_def request_tenant_def
        split: option.splits sum.splits bind_splits)
  from t h show ?thesis
    by (auto simp: jwt_authenticate_def tenant_id_new_def id_new_def split: sum.splits option.splits if_splits)
qed

text \<open>A decoder that accepts one token, and a request that also claims another tenant by header.\<close>

definition demo_jwt :: jwt_auth where
  "demo_jwt = \<lparr>jw_decode = (\<lambda>t. if t = ''good'' then Inr [''tenant'' \<mapsto> ''acme''] else Inl ''bad''), jw_tenant_claim = ''tenant''\<rparr>"

definition demo_request :: request_meta where
  "demo_request = \<lparr>rm_headers = [''authorization'' \<mapsto> ''Bearer good'', ''x-brokkr-tenant'' \<mapsto> ''other''], rm_tenant = Some ''forged''\<rparr>"

theorem token_tenant_is_authoritative_witness:
  "\<exists>req' d tenant. auth_interceptor demo_renderers (Jwt demo_jwt) demo_request = Inr req' \<and>
     execute_service demo_renderers req' [] (Some (demo_pd 1)) False = Inr (d, False, tenant) \<and> tenant = ''acme''"
proof -
  obtain req' where r: "auth_interceptor demo_renderers (Jwt demo_jwt) demo_request = Inr req'"
    by (simp add: auth_interceptor_def authenticate_def jwt_authenticate_def strip_bearer_def strip_prefix_def
        demo_jwt_def demo_request_def tenant_id_new_def id_new_def ID_MAX_LEN_def)
  obtain d tenant where x: "execute_service demo_renderers req' [] (Some (demo_pd 1)) False = Inr (d, False, tenant)"
    by (simp add: execute_service_def validate_instance_name_def action_digest_of_def proto_to_digest_def digest_new_def
        demo_pd_def SHA256_HEX_LEN_def is_lower_hex_def list_all_iff)
  from token_tenant_is_authoritative [OF r x] have "tenant = ''acme''"
    by (auto simp: demo_jwt_def split: if_splits)
  with r x show ?thesis by blast
qed

end
