(* ===== verification/Sdk_Redirect.thy ===== *)
theory Sdk_Redirect
  imports Ctl_Services
begin

text \<open>
  The leader redirect of the client library: the classification of a refusal and the address to dial
  (\<open>brokkr-sdk/src/redirect.rs\<close>), and the calls that follow it (\<open>client.rs\<close>), against the action-cache
  service of the nodes.  Dialling an endpoint is a parameter.
\<close>

section \<open>Classification\<close>

definition MAX_LEADER_HOPS :: nat where "MAX_LEADER_HOPS = 3"

datatype redirect = NoRedirect | Follow string "string option" | Unroutable "string option" | Exhausted

definition metadata_str :: "grpc_status \<Rightarrow> string \<Rightarrow> string option" where
  "metadata_str st k = (case tbl_get (gs_metadata st) k of Some v \<Rightarrow> if v = [] then None else Some v | None \<Rightarrow> None)"

definition classify_status :: "grpc_status \<Rightarrow> nat \<Rightarrow> redirect" where
  "classify_status st hops =
     (if gs_code st \<noteq> FailedPrecondition then NoRedirect
      else let leader = metadata_str st LEADER_HINT_METADATA_KEY; addr = metadata_str st LEADER_ADDR_METADATA_KEY
           in if leader = None \<and> addr = None then NoRedirect
              else if hops \<ge> MAX_LEADER_HOPS then Exhausted
              else case addr of Some a \<Rightarrow> Follow a leader | None \<Rightarrow> Unroutable leader)"

text \<open>\<open>split_once("://")\<close>: the text before the first occurrence, if there is one.\<close>

fun scheme_of :: "string \<Rightarrow> string option" where
  "scheme_of [] = None"
| "scheme_of (c # cs) =
     (if take 3 (c # cs) = ''://'' then Some [] else map_option (\<lambda>s. c # s) (scheme_of cs))"

definition hint_to_url :: "string \<Rightarrow> string \<Rightarrow> string" where
  "hint_to_url addr current =
     (if scheme_of addr \<noteq> None then addr
      else case scheme_of current of Some s \<Rightarrow> s @ ''://'' @ addr | None \<Rightarrow> ''http://'' @ addr)"

section \<open>Following a redirect\<close>

record 't sdk_client =
  sd_endpoint :: string
  sd_tls :: "'t option"
  sd_bearer :: "string option"

text \<open>Dialling succeeds or gives the text of a transport error; every variant of \<open>connect\<close> keeps the
  endpoint it dialled and the credentials it was given.\<close>

definition reconnect_to ::
  "(string \<Rightarrow> 't option \<Rightarrow> string option \<Rightarrow> string + unit) \<Rightarrow> 't sdk_client \<Rightarrow> string \<Rightarrow> string + 't sdk_client" where
  "reconnect_to dial c url =
     (case dial url (sd_tls c) (sd_bearer c) of
        Inl e \<Rightarrow> Inl e | Inr _ \<Rightarrow> Inr \<lparr>sd_endpoint = url, sd_tls = sd_tls c, sd_bearer = sd_bearer c\<rparr>)"

definition follow_redirect ::
  "(string option \<Rightarrow> string) \<Rightarrow> (string \<Rightarrow> 't option \<Rightarrow> string option \<Rightarrow> string + unit) \<Rightarrow> 't sdk_client \<Rightarrow> grpc_status
     \<Rightarrow> nat \<Rightarrow> grpc_status + 't sdk_client" where
  "follow_redirect show_hint dial c st hops =
     (case classify_status st hops of
        Follow addr leader \<Rightarrow>
          let url = hint_to_url addr (sd_endpoint c)
          in (case reconnect_to dial c url of
                Inl e \<Rightarrow> Inl (grpc_error Unavailable (''redirect to leader '' @ url @ '': '' @ e))
              | Inr c \<Rightarrow> Inr c)
      | Exhausted \<Rightarrow>
          Inl (grpc_error FailedPrecondition (''leader redirect not resolved within '' @ show_nat MAX_LEADER_HOPS @
            '' hops; the cluster'' @ [CHR 0x27] @ ''s leadership may be unstable (last hint: '' @
            show_hint (tbl_get (gs_metadata st) LEADER_HINT_METADATA_KEY) @ '')''))
      | Unroutable leader \<Rightarrow> Inl st
      | NoRedirect \<Rightarrow> Inl st)"

text \<open>The loop both calls run: a call on the current client, then a redirect, for each number of hops
  left.  It gives the answer, the client kept for later calls, and the state of the nodes.\<close>

fun redirect_loop ::
  "('t sdk_client \<Rightarrow> 'w \<Rightarrow> (grpc_status + 'r) \<times> 'w) \<Rightarrow> ('t sdk_client \<Rightarrow> grpc_status \<Rightarrow> nat \<Rightarrow> grpc_status + 't sdk_client)
     \<Rightarrow> string \<Rightarrow> nat list \<Rightarrow> 't sdk_client \<Rightarrow> 'w \<Rightarrow> (grpc_status + 'r) \<times> 't sdk_client \<times> 'w" where
  "redirect_loop call follow unresolved [] c w = (Inl (grpc_error FailedPrecondition unresolved), c, w)"
| "redirect_loop call follow unresolved (hops # rest) c w =
     (case call c w of
        (Inr r, w) \<Rightarrow> (Inr r, c, w)
      | (Inl st, w) \<Rightarrow>
          (case follow c st hops of
             Inl e \<Rightarrow> (Inl e, c, w)
           | Inr c' \<Rightarrow> redirect_loop call follow unresolved rest c' w))"

text \<open>The nodes of the cluster by endpoint: their action caches and the states of these.\<close>

definition rpc_get ::
  "renderers \<Rightarrow> (string \<Rightarrow> bool) \<Rightarrow> (string \<Rightarrow> ('r, 'a) cache_ops) \<Rightarrow> proto_digest \<Rightarrow> 't sdk_client \<Rightarrow> (string \<Rightarrow> 'a)
     \<Rightarrow> (grpc_status + 'r option) \<times> (string \<Rightarrow> 'a)" where
  "rpc_get rd header_ok nodes pd c w =
     ((case get_action_result_service rd header_ok (nodes (sd_endpoint c)) [] (Some pd) (w (sd_endpoint c)) of
         Inr r \<Rightarrow> Inr (Some r)
       | Inl st \<Rightarrow> if gs_code st = NotFoundCode then Inr None else Inl st), w)"

definition rpc_update ::
  "renderers \<Rightarrow> (string \<Rightarrow> bool) \<Rightarrow> (string \<Rightarrow> ('r, 'a) cache_ops) \<Rightarrow> proto_digest \<Rightarrow> 'r \<Rightarrow> 't sdk_client \<Rightarrow> (string \<Rightarrow> 'a)
     \<Rightarrow> (grpc_status + 'r) \<times> (string \<Rightarrow> 'a)" where
  "rpc_update rd header_ok nodes pd r c w =
     (let (res, a) = update_action_result_service rd header_ok (nodes (sd_endpoint c)) [] (Some pd) (Some r) (w (sd_endpoint c))
      in (res, w(sd_endpoint c := a)))"

definition sdk_get_action_result ::
  "renderers \<Rightarrow> (string \<Rightarrow> bool) \<Rightarrow> (string \<Rightarrow> ('r, 'a) cache_ops) \<Rightarrow> (string option \<Rightarrow> string)
     \<Rightarrow> (string \<Rightarrow> 't option \<Rightarrow> string option \<Rightarrow> string + unit) \<Rightarrow> proto_digest \<Rightarrow> 't sdk_client \<Rightarrow> (string \<Rightarrow> 'a)
     \<Rightarrow> (grpc_status + 'r option) \<times> 't sdk_client \<times> (string \<Rightarrow> 'a)" where
  "sdk_get_action_result rd header_ok nodes show_hint dial pd =
     redirect_loop (rpc_get rd header_ok nodes pd) (follow_redirect show_hint dial)
       ''leader redirect not resolved for GetActionResult'' [0..<MAX_LEADER_HOPS + 1]"

definition sdk_update_action_result ::
  "renderers \<Rightarrow> (string \<Rightarrow> bool) \<Rightarrow> (string \<Rightarrow> ('r, 'a) cache_ops) \<Rightarrow> (string option \<Rightarrow> string)
     \<Rightarrow> (string \<Rightarrow> 't option \<Rightarrow> string option \<Rightarrow> string + unit) \<Rightarrow> proto_digest \<Rightarrow> 'r \<Rightarrow> 't sdk_client \<Rightarrow> (string \<Rightarrow> 'a)
     \<Rightarrow> (grpc_status + 'r) \<times> 't sdk_client \<times> (string \<Rightarrow> 'a)" where
  "sdk_update_action_result rd header_ok nodes show_hint dial pd r =
     redirect_loop (rpc_update rd header_ok nodes pd r) (follow_redirect show_hint dial)
       ''leader redirect not resolved for UpdateActionResult'' [0..<MAX_LEADER_HOPS + 1]"

section \<open>Lemmas\<close>

text \<open>What the service writes into a refusal is what the client reads out of it.\<close>

lemma refusal_is_followed:
  assumes "header_ok addr" "addr \<noteq> []" "hops < MAX_LEADER_HOPS"
  shows "\<exists>l. classify_status (cas_status rd header_ok (CasNotLeader leader (Some addr))) hops = Follow addr l"
proof -
  have "metadata_str (cas_status rd header_ok (CasNotLeader leader (Some addr))) LEADER_ADDR_METADATA_KEY = Some addr"
    using assms(1,2) by (simp add: metadata_str_def cas_status_def tbl_get_insert split: option.splits)
  moreover have "gs_code (cas_status rd header_ok (CasNotLeader leader (Some addr))) = FailedPrecondition"
    using assms(1) by (simp add: cas_status_def grpc_error_def split: option.splits)
  ultimately show ?thesis using assms(3) by (simp add: classify_status_def Let_def)
qed

lemma hint_keeps_scheme: "scheme_of addr = None \<Longrightarrow> scheme_of cur = Some s \<Longrightarrow> hint_to_url addr cur = s @ ''://'' @ addr"
  by (simp add: hint_to_url_def)

text \<open>A hint that carries a scheme of its own takes a session off TLS.\<close>

lemma hint_can_downgrade: "hint_to_url ''http://n2:7878'' ''https://n1:7878'' = ''http://n2:7878''"
  by code_simp

section \<open>Property\<close>


text \<open>Two nodes, of which the second leads; a cache is the list of the results written to it.\<close>

definition demo_cache :: "string \<Rightarrow> (nat, nat list) cache_ops" where
  "demo_cache url =
     \<lparr>co_get = (\<lambda>_ a. Inr (case a of [] \<Rightarrow> None | r # _ \<Rightarrow> Some r)), co_gc_window = (\<lambda>_. Inr ()),
      co_update = (\<lambda>_ r a. if url = ''https://n2'' then (Inr (), r # a) else (Inl (CasNotLeader (Some ''2'') (Some ''n2'')), a))\<rparr>"


end
