(* ===== verification/Spec2Isabelle.thy ===== *)
theory Spec2Isabelle
  imports Raft_Cluster Raft_Driver Ctl_Scheduler_Run Cas_Tiered Cas_Replica Cas_Gc Worker_Inode_Tree Ctl_Cluster Sandbox_Seccomp Sdk_Redirect
begin

text \<open>
  Verification of brokkr, a distributed build-execution service: a control plane whose metadata is
  replicated by its own Raft implementation, a content-addressed store, and sandboxed workers.

  \<^bold>\<open>The parts and how they interact.\<close> A control-plane node runs a Raft driver
  (\<open>crates/brokkr-raft/src/driver.rs\<close>) around a consensus node (\<open>node.rs\<close>) over a durable log
  (\<open>storage.rs\<close>); peers exchange the messages of \<open>transport.rs\<close>. Committed entries are applied
  to a key-value machine (\<open>crates/brokkr-control/src/raftkv.rs\<close>), behind the store interface of
  \<open>metakv.rs\<close>, on which the action cache sits. The scheduler keeps its pending jobs in a fair queue
  (\<open>fairqueue.rs\<close>), its dispatched jobs in a lease table (\<open>lease.rs\<close>), and picks workers from a
  registry (\<open>registry.rs\<close>) by platform matching (\<open>matching.rs\<close>). Blobs are named by digests
  (\<open>crates/brokkr-common/src/digest.rs\<close>) and kept in stores that decorate one another
  (\<open>crates/brokkr-cas/src\<close>): a hot cache, a Bloom filter, replication over a ring of nodes, and a
  collector that reads the action cache.

  \<^bold>\<open>Theories.\<close>
  \<^item> \<open>Brokkr_Prelude\<close>: saturating and wrapping 64-bit arithmetic on \<open>nat\<close>, little-endian bytes,
    decimal text, ordered tables for the Rust maps, the locale \<open>ordered_table\<close>.
  \<^item> \<open>Raft_Types\<close> (\<open>types.rs\<close>, \<open>state.rs\<close>, \<open>error.rs\<close>): terms, indices, ids, configurations,
    quorums (locale \<open>quorum_system\<close>), entries, hard state, protobuf forms (locale \<open>wire_format\<close>).
  \<^item> \<open>Raft_Wire\<close> (\<open>types.rs\<close>, \<open>transport.rs\<close>): the protobuf form of entries and messages.
  \<^item> \<open>Raft_Rng\<close> (\<open>rng.rs\<close>): SplitMix64 on 64-bit words and the election timeout.
  \<^item> \<open>Raft_Log\<close> (\<open>storage.rs\<close>): the durable log as a table of entries, a hard state and a snapshot;
    each operation is one committed transaction.
  \<^item> \<open>Raft_Config\<close> (\<open>node.rs\<close>, \<open>ConfigTracker\<close>): the configurations in the log, with rollback.
  \<^item> \<open>Raft_Node\<close> (\<open>node.rs\<close>): the node as a record, one function per method, results as a sum of an
    error and a value beside the node left behind. The mutual recursion of commit and configuration
    follow-up terminates because the follow-up configuration is never joint.
  \<^item> \<open>Raft_Node_Frame\<close>, \<open>Raft_Node_Inv\<close>: what methods leave alone; the node invariant and its
    preservation by every method.
  \<^item> \<open>Raft_Event\<close> (\<open>driver.rs\<close>, the arms of the loop): one event is one node call. The invariant is
    kept by every event, and no tick or peer reply fails.
  \<^item> \<open>Raft_Election\<close>: the abstract election machine and the simulation of it by every event.
  \<^item> \<open>Raft_Static\<close>: a node whose membership is fixed stays so and sends only such messages.
  \<^item> \<open>Raft_Cluster\<close> (\<open>driver.rs\<close>, \<open>dispatch\<close>): nodes over a network that loses, delays, reorders and
    duplicates messages, with crash-restarts; election safety by an inductive invariant over two
    history variables, and a concrete three-node run that elects a leader.
  \<^item> \<open>Cas_Digest\<close> (\<open>digest.rs\<close>): digests, verification, textual form; the hash is a parameter.
  \<^item> \<open>Kv_Machine\<close> (\<open>raftkv.rs\<close>, \<open>metakv.rs\<close>): the replicated machine with its snapshot format, prefix
    scans, and the action cache over the store contract (locale \<open>meta_kv\<close>, interpreted on both
    stores); the protobuf codec is a parameter.
  \<^item> \<open>Raft_Driver\<close> (\<open>driver.rs\<close>): the loop around node and machine. Its client contract is the
    locale \<open>state_machine\<close>, interpreted on the key-value machine; given a committed log that the
    node agrees with, every iteration succeeds, applies exactly the committed entries, recovers after
    a restart, and acknowledges no proposal whose entry was overwritten. The apply loop runs with
    fuel equal to the entries still to apply, which is shown to reach the commit index.
  \<^item> \<open>Ctl_Fair_Queue\<close>, \<open>Ctl_Lease\<close>, \<open>Ctl_Registry\<close>: the scheduler's data structures.
  \<^item> \<open>Ctl_Scheduling\<close> (\<open>scheduling.rs\<close>, \<open>locality.rs\<close>, \<open>views/job.rs\<close>): connected workers, placement
    strategies (locale \<open>strategy\<close>), the locality index, the job history.
  \<^item> \<open>Ctl_Scheduler\<close> (\<open>scheduler.rs\<close>): every operation of the scheduler. A turn of the dispatch loop,
    placement and send, is one step; the loop is shown to terminate. The cache and the blob store of
    the execution path are parameters.
  \<^item> \<open>Ctl_Scheduler_Inv\<close>, \<open>Ctl_Scheduler_Run\<close>: the scheduler's invariant, proved once for any strategy
    that picks one of its candidates; the reachable states as an inductive relation; that no job is
    lost, quotas hold, dispatch is work-conserving; concrete runs that show the recorded findings.
  \<^item> \<open>Cas_Store\<close> (\<open>traits.rs\<close>, \<open>in_memory.rs\<close>, \<open>bloom.rs\<close>, \<open>bloom_cas.rs\<close>): a backend as a record of
    operations; the contract \<open>blob_store\<close>, interpreted on the in-memory store and inherited by the
    Bloom-filtered store over any backend that has it.
  \<^item> \<open>Cas_Hot_Tier\<close>, \<open>Cas_Tiered\<close> (\<open>tiered.rs\<close>): the cache of linked slots, with index panics and
    endless loops as \<open>None\<close>, refines an LRU list; the tiered store changes no answer. Both ask that
    fewer than \<open>usize::MAX\<close> blobs be handled, since that index stands for no slot.
  \<^item> \<open>Cas_Replica\<close> (\<open>ring.rs\<close>, \<open>router.rs\<close>, \<open>replicated.rs\<close>, \<open>membership.rs\<close>): rendezvous hashing,
    quorum writes, reads and missing-blob queries over a pool of stores.
  \<^item> \<open>Cas_Gc\<close> (\<open>gc.rs\<close>): the plan and the sweep.
  \<^item> \<open>Cas_Tree\<close> (\<open>tree.rs\<close>): the materialization of an input tree as the calls it makes on an
    arbitrary operating system; the recursion runs with fuel, and a tree no deeper than the fuel is
    walked to the end.
  \<^item> \<open>Worker_Inode\<close>, \<open>Worker_Inode_Tree\<close> (\<open>crates/brokkr-worker/src/fuse/inode.rs\<close>): the inode table of
    the worker's input mount, the inductive relation between a table and the tree it was built from,
    and the agreement of path look-ups with the messages.
  \<^item> \<open>Ctl_Policy\<close> (\<open>crates/brokkr-policy/src\<close>, \<open>policy_abi.rs\<close>, \<open>wasm_strategy.rs\<close>, \<open>policy_reload.rs\<close>): the
    engine that runs a WebAssembly policy, its quarantine, the strategy that falls back to the built-in
    one, and the reload loop. The runtime and the guest are a record of answers; the contract \<open>strategy\<close>
    is interpreted on this strategy for every such record.
  \<^item> \<open>Ctl_Cluster\<close> (\<open>views/\<close>, \<open>cluster/\<close>): the projections of a node's state, their merge with the peers'
    answers, the events between two snapshots and the rounds of the poll loop.
  \<^item> \<open>Ctl_Services\<close> (\<open>auth.rs\<close>, \<open>services/\<close>): token checks and the tenant of a request, and the handlers of
    the store, the action cache and execution; the upload handler is verified over the contract \<open>blob_store\<close>.
  \<^item> \<open>Sdk_Redirect\<close> (\<open>crates/brokkr-sdk/src/redirect.rs\<close>, \<open>client.rs\<close>): how a client follows a leader's
    address, composed with the action-cache service of the nodes.
  \<^item> \<open>Sandbox_Seccomp\<close> (\<open>crates/brokkr-sandbox/src/runner/seccomp.rs\<close>): the system-call allowlist and the
    two filters; the meaning of a compiled filter and the kernel's rule for several are named hypotheses.

  \<^bold>\<open>Representation.\<close> A \<open>u64\<close> is a natural number with saturation or wrap-around written out where the
  code has it; \<open>Instant\<close> and \<open>Duration\<close> are nanoseconds; a \<open>BTreeSet\<close> is a set iterated in order; a
  \<open>BTreeMap\<close> or \<open>HashMap\<close> is an ascending association list, and where a hash map's order could show,
  the code sorts. A storage fault ends the driver's loop, so node methods read and write a store that
  does not fail. The cluster model fixes the membership and lets a node crash between events, not
  between the transactions of one event. Bounds: \<open>room 2\<close> asks for two free log indices below
  \<open>u64::MAX\<close>, the most one event appends of its own; a term below \<open>u64::MAX\<close> is asked of election
  timeouts, since the term saturates there.

  \<^bold>\<open>Not modelled.\<close> Network and database adapters (gRPC servers and clients, the embedded database),
  process start-up apart from the scheduling policy, the rest of the Linux sandbox (namespaces, mounts,
  cgroups), FUSE mounts, the worker, the command line and the rest of the SDK: they are I/O around
  third-party code. The channels and the handle of the driver are message passing. Of the store, the
  packing of a directory (a test helper of \<open>tree.rs\<close>) and the database-backed action cache
  (\<open>action_cache.rs\<close>) are left out. The WebAssembly runtime, the token decoder, the filter compiler, the
  kernel and the generated encoders are parameters. Poisoned locks and the concurrency between two calls
  on one store or one policy engine are not represented, so an operation of either is one step.
\<close>

end
